(* ===== verification/Prelude.thy ===== *)
theory Prelude
  imports Main "HOL-Library.Word" "HOL-Library.AList"
begin

text \<open>
  The vocabulary every component of the development shares: the machine types
  of the JavaScript runtime (bytes of a \<open>Uint8Array\<close>, UTF-16 code units of a
  string), computations that may throw, and the generic facts about lists that
  more than one component needs.

  A JavaScript computation that can throw is a value of \<open>error + 'a\<close>:
  \<open>Inl e\<close> is the exception \<open>e\<close>, \<open>Inr x\<close> the normal result.  One
  constructor of \<open>error\<close> stands for one \<open>throw\<close> of the source (or for one
  documented exception of a library the source calls).
\<close>

section \<open>Machine types\<close>

type_synonym byte = "8 word"
type_synonym jsstring = "16 word list"

text \<open>A literal of the source, as its sequence of UTF-16 code units.\<close>

definition js :: "string \<Rightarrow> jsstring" where
  "js s = map of_char s"

section \<open>Exceptions\<close>

datatype error =
    InvalidHex | InvalidBase64url | InvalidCharacterError
  | UnsupportedVersion | CiphertextTooShort
  | BadPointEncoding | IdentityPoint | InvalidScalar | OperationError
  | MalformedScalar | ScalarOutOfRange | NeedShares nat nat
  | RangeError | TypeError | SyntaxError
  | NotAParticipant | InvalidThreshold
  | TooFewQualified nat nat | GroupKeyIdentity
  | NoShareFrom int | NoValidShareFrom int | DegenerateKeyShare | InconsistentKeyShare
  | OutOfRandomness
  | NotUuid | BatchExists | NotCommitted | WrongOrderCount nat nat | CommitmentMismatch
  | AppError nat | Reverted
  | OwnIdentityNotListed | NoKeyShare | NotStrings | NoLedger | NoSession | AlreadyKeyed
  | UnknownParticipant int | NoTransportKey int
  | TooFewDealt nat | BadResultSignature int | ResultsDisagree | TooFewShares nat nat
  | MissingField jsstring | DifferentUser | DifferentNonce | BadSymbol | SameToken | BadAmountIn | BadMinOut
  | UnexpectedIdentity int | NotAllReachable nat nat | MixedKeys | DifferentSessions | KeyFilesIncomplete nat nat
  | ThresholdMismatch | NotInitializedNetwork
  | InvalidAmount | TooManyDecimals nat | BadPeerEntry | BadClusterMember int | EmptyCluster | SecretTooShort
  | HttpError nat | ValidationError

definition ebind :: "'e + 'a \<Rightarrow> ('a \<Rightarrow> 'e + 'b) \<Rightarrow> 'e + 'b" where
  "ebind m f = (case m of Inl e \<Rightarrow> Inl e | Inr x \<Rightarrow> f x)"

text \<open>\<open>xs.map(f)\<close> for an \<open>f\<close> that may throw: the first exception ends the loop.\<close>

fun emap :: "('a \<Rightarrow> 'e + 'b) \<Rightarrow> 'a list \<Rightarrow> 'e + 'b list" where
  "emap f [] = Inr []"
| "emap f (x # xs) = ebind (f x) (\<lambda>y. ebind (emap f xs) (\<lambda>ys. Inr (y # ys)))"

text \<open>A loop \<open>for (const x of xs) acc = f(acc, x)\<close> whose body may throw.\<close>

fun efold :: "('b \<Rightarrow> 'a \<Rightarrow> 'e + 'b) \<Rightarrow> 'b \<Rightarrow> 'a list \<Rightarrow> 'e + 'b" where
  "efold f acc [] = Inr acc"
| "efold f acc (x # xs) = ebind (f acc x) (\<lambda>acc'. efold f acc' xs)"

text \<open>\<open>try { return m } catch { return d }\<close>.\<close>

definition ecatch :: "'e + 'a \<Rightarrow> 'a \<Rightarrow> 'a" where
  "ecatch m d = (case m of Inl e \<Rightarrow> d | Inr x \<Rightarrow> x)"

definition is_ok :: "'e + 'a \<Rightarrow> bool" where
  "is_ok m = (case m of Inl e \<Rightarrow> False | Inr x \<Rightarrow> True)"

lemma ebind_simps [simp]:
  "ebind (Inl e) f = Inl e"
  "ebind (Inr x) f = f x"
  by (simp_all add: ebind_def)

lemma ebind_eq_Inr: "ebind m f = Inr y \<longleftrightarrow> (\<exists>x. m = Inr x \<and> f x = Inr y)"
  by (cases m) auto

lemma ebind_eq_Inl: "ebind m f = Inl e \<longleftrightarrow> m = Inl e \<or> (\<exists>x. m = Inr x \<and> f x = Inl e)"
  by (cases m) auto

lemma ebind_split:
  "P (ebind m f) \<longleftrightarrow> (\<forall>e. m = Inl e \<longrightarrow> P (Inl e)) \<and> (\<forall>x. m = Inr x \<longrightarrow> P (f x))"
  by (cases m) auto

lemma ecatch_simps [simp]: "ecatch (Inl e) d = d" "ecatch (Inr x) d = x"
  by (simp_all add: ecatch_def)

lemma is_ok_simps [simp]: "is_ok (Inl e) = False" "is_ok (Inr x) = True"
  by (simp_all add: is_ok_def)

lemma is_ok_ebind [simp]: "is_ok (ebind m f) \<longleftrightarrow> (\<exists>x. m = Inr x \<and> is_ok (f x))"
  by (cases m) auto

lemma is_okE: "is_ok m \<Longrightarrow> (\<And>x. m = Inr x \<Longrightarrow> P) \<Longrightarrow> P"
  by (cases m) auto

lemma ebind_cong [fundef_cong]:
  "m = m' \<Longrightarrow> (\<And>x. m' = Inr x \<Longrightarrow> f x = f' x) \<Longrightarrow> ebind m f = ebind m' f'"
  by (cases m') auto

lemma emap_Inr: "(\<And>x. x \<in> set xs \<Longrightarrow> f x = Inr (g x)) \<Longrightarrow> emap f xs = Inr (map g xs)"
  by (induction xs) auto

lemma emap_eq_Inr: "emap f xs = Inr ys \<longleftrightarrow> list_all2 (\<lambda>x y. f x = Inr y) xs ys"
proof (induction xs arbitrary: ys)
  case Nil
  then show ?case by auto
next
  case (Cons x xs)
  show ?case
    by (cases ys) (auto simp: ebind_eq_Inr Cons.IH)
qed

lemma length_emap: "emap f xs = Inr ys \<Longrightarrow> length ys = length xs"
  by (auto simp: emap_eq_Inr dest: list_all2_lengthD)

lemma emap_nth: "emap f xs = Inr ys \<Longrightarrow> i < length xs \<Longrightarrow> f (xs ! i) = Inr (ys ! i)"
  by (simp add: emap_eq_Inr list_all2_conv_all_nth)

lemma emap_ok_iff: "is_ok (emap f xs) \<longleftrightarrow> (\<forall>x \<in> set xs. is_ok (f x))"
proof (induction xs)
  case (Cons x xs)
  then show ?case by (cases "f x"; cases "emap f xs") auto
qed simp

lemma efold_Inr:
  "(\<And>acc x. x \<in> set xs \<Longrightarrow> f acc x = Inr (g acc x)) \<Longrightarrow> efold f acc xs = Inr (foldl g acc xs)"
  by (induction xs arbitrary: acc) auto

lemma efold_append:
  "efold f acc (xs @ ys) = ebind (efold f acc xs) (\<lambda>acc'. efold f acc' ys)"
  by (induction xs arbitrary: acc) (auto split: ebind_split simp: ebind_def split: sum.splits)

section \<open>JavaScript's \<open>Map\<close>\<close>

text \<open>
  A \<open>Map\<close> keeps its keys in insertion order; setting a key that is present
  replaces the value and keeps its place.  An association list with
  \<^const>\<open>AList.update\<close> is exactly that; \<open>new Map(entries)\<close> sets the entries one
  after the other.
\<close>

definition js_map :: "('k \<times> 'v) list \<Rightarrow> ('k \<times> 'v) list" where
  "js_map es = foldl (\<lambda>m e. AList.update (fst e) (snd e) m) [] es"

text \<open>\<open>[...new Set(xs)]\<close>: the first occurrence of each element stays.\<close>

fun js_unique_acc :: "'a list \<Rightarrow> 'a list \<Rightarrow> 'a list" where
  "js_unique_acc acc [] = acc"
| "js_unique_acc acc (x # xs) =
     js_unique_acc (if x \<in> set acc then acc else acc @ [x]) xs"

definition js_unique :: "'a list \<Rightarrow> 'a list" where
  "js_unique xs = js_unique_acc [] xs"

lemma foldl_update_distinct:
  "distinct (map fst m) \<Longrightarrow>
   distinct (map fst (foldl (\<lambda>m e. AList.update (fst e) (snd e) m) m es))"
  by (induction es arbitrary: m) (auto simp: distinct_update)

lemma foldl_update_keys:
  "fst ` set (foldl (\<lambda>m e. AList.update (fst e) (snd e) m) m es) = fst ` set m \<union> fst ` set es"
  by (induction es arbitrary: m) (auto simp: dom_update)

lemma foldl_update_values:
  "set (foldl (\<lambda>m e. AList.update (fst e) (snd e) m) m es) \<subseteq> set m \<union> set es"
proof (induction es arbitrary: m)
  case (Cons e es)
  have "set (AList.update (fst e) (snd e) m) \<subseteq> insert e (set m)"
    by (induction m) (auto split: if_splits)
  with Cons.IH [of "AList.update (fst e) (snd e) m"] show ?case by fastforce
qed simp

lemma distinct_js_map: "distinct (map fst (js_map es))"
  by (simp add: js_map_def foldl_update_distinct)

lemma keys_js_map: "fst ` set (js_map es) = fst ` set es"
  by (simp add: js_map_def foldl_update_keys)

lemma set_js_map: "set (js_map es) \<subseteq> set es"
  using foldl_update_values [of "[]" es] by (simp add: js_map_def)

lemma update_fresh: "k \<notin> fst ` set m \<Longrightarrow> AList.update k v m = m @ [(k, v)]"
  by (induction m) auto

lemma foldl_update_fresh:
  "distinct (map fst (m @ es)) \<Longrightarrow>
   foldl (\<lambda>m e. AList.update (fst e) (snd e) m) m es = m @ es"
proof (induction es arbitrary: m)
  case (Cons e es)
  then have "AList.update (fst e) (snd e) m = m @ [e]"
    using update_fresh [of "fst e" m "snd e"] by auto
  with Cons show ?case by simp
qed simp

lemma js_map_distinct: "distinct (map fst es) \<Longrightarrow> js_map es = es"
  using foldl_update_fresh [of "[]" es] by (simp add: js_map_def)

lemma js_unique_acc_props:
  "distinct acc \<Longrightarrow>
   distinct (js_unique_acc acc xs) \<and> set (js_unique_acc acc xs) = set acc \<union> set xs"
  by (induction xs arbitrary: acc) (auto simp: insert_absorb)

lemma distinct_js_unique: "distinct (js_unique xs)"
  by (simp add: js_unique_def js_unique_acc_props)

lemma set_js_unique: "set (js_unique xs) = set xs"
  by (simp add: js_unique_def js_unique_acc_props)

lemma js_unique_acc_distinct:
  "distinct (acc @ xs) \<Longrightarrow> js_unique_acc acc xs = acc @ xs"
  by (induction xs arbitrary: acc) auto

lemma js_unique_distinct: "distinct xs \<Longrightarrow> js_unique xs = xs"
  using js_unique_acc_distinct [of "[]" xs] by (simp add: js_unique_def)

section \<open>Lists\<close>

text \<open>\<open>xs.find(p)\<close> is \<^const>\<open>List.find\<close>; \<open>undefined\<close> is \<^term>\<open>None\<close>.\<close>

lemma find_Some_in: "List.find p xs = Some x \<Longrightarrow> x \<in> set xs \<and> p x"
  by (induction xs) (auto split: if_splits)

lemma find_None_iff_all: "List.find p xs = None \<longleftrightarrow> (\<forall>x \<in> set xs. \<not> p x)"
  by (induction xs) auto

lemma list_all2_in: "list_all2 P xs ys \<Longrightarrow> x \<in> set xs \<Longrightarrow> \<exists>y \<in> set ys. P x y"
  by (induction rule: list_all2_induct) auto

text \<open>A list splits in one way at the first, or at the last, occurrence of a separator.\<close>

lemma split_first:
  "c \<notin> set xs \<Longrightarrow> c \<notin> set xs' \<Longrightarrow> xs @ c # ys = xs' @ c # ys' \<longleftrightarrow> xs = xs' \<and> ys = ys'"
proof (induction xs arbitrary: xs')
  case Nil
  then show ?case by (cases xs') auto
next
  case (Cons x xs)
  then show ?case by (cases xs') auto
qed

lemma split_last:
  assumes "c \<notin> set ys" and "c \<notin> set ys'"
  shows "xs @ c # ys = xs' @ c # ys' \<longleftrightarrow> xs = xs' \<and> ys = ys'"
proof -
  have "xs @ c # ys = xs' @ c # ys' \<longleftrightarrow> rev (xs @ c # ys) = rev (xs' @ c # ys')" by (simp only: rev_is_rev_conv)
  also have "\<dots> \<longleftrightarrow> rev ys = rev ys' \<and> rev xs = rev xs'" using assms by (simp add: split_first)
  finally show ?thesis by auto
qed

text \<open>\<open>s.padStart(n, c)\<close> for a one-unit pad string.\<close>

definition padStart :: "nat \<Rightarrow> 'a \<Rightarrow> 'a list \<Rightarrow> 'a list" where
  "padStart n c s = replicate (n - length s) c @ s"

lemma length_padStart: "length (padStart n c s) = max n (length s)"
  by (simp add: padStart_def)

lemma set_padStart: "set (padStart n c s) \<subseteq> insert c (set s)"
  by (auto simp: padStart_def)

end
