(* ===== verification/Text.thy ===== *)
theory Text
  imports Prelude
begin

text \<open>
  What the program uses of JavaScript's strings and of their conversions: numbers
  printed in a radix (\<open>n.toString(16)\<close>, template literals), hexadecimal literals
  read back (\<open>BigInt('0x' + h)\<close>, \<open>parseInt(h, 16)\<close>), and the WHATWG UTF-8 encoder
  and decoder behind \<open>TextEncoder\<close>, \<open>TextDecoder\<close> and \<open>Buffer.from(s, 'utf8')\<close>.
  A string is the list of its UTF-16 code units.
\<close>

section \<open>Digits\<close>

fun radix_digits :: "nat \<Rightarrow> nat \<Rightarrow> nat list" where
  "radix_digits b n = (if n < b \<or> b < 2 then [n] else radix_digits b (n div b) @ [n mod b])"

declare radix_digits.simps [simp del]

definition digit_unit :: "nat \<Rightarrow> 16 word" where
  "digit_unit d = of_nat (if d < 10 then 48 + d else 87 + d)"

text \<open>\<open>n.toString(b)\<close> for a non-negative integer, and for any integer.\<close>

definition nat_to_string :: "nat \<Rightarrow> nat \<Rightarrow> jsstring" where
  "nat_to_string b n = map digit_unit (radix_digits b n)"

definition int_to_string :: "nat \<Rightarrow> int \<Rightarrow> jsstring" where
  "int_to_string b i = (if i < 0 then 45 # nat_to_string b (nat (- i)) else nat_to_string b (nat i))"

text \<open>Membership in the classes \<open>[0-9]\<close> and \<open>[0-9a-fA-F]\<close>, and a hex digit's value.\<close>

definition is_digit :: "16 word \<Rightarrow> bool" where
  "is_digit c \<longleftrightarrow> 48 \<le> c \<and> c \<le> 57"

definition is_hex :: "16 word \<Rightarrow> bool" where
  "is_hex c \<longleftrightarrow> is_digit c \<or> 97 \<le> c \<and> c \<le> 102 \<or> 65 \<le> c \<and> c \<le> 70"

definition hex_digit :: "16 word \<Rightarrow> nat" where
  "hex_digit c = (if c \<le> 57 then unat c - 48 else if c \<le> 70 then unat c - 55 else unat c - 87)"

definition hex_value :: "jsstring \<Rightarrow> nat" where
  "hex_value s = foldl (\<lambda>a c. 16 * a + hex_digit c) 0 s"

lemma digit_unit_16: "d < 16 \<Longrightarrow> is_hex (digit_unit d) \<and> hex_digit (digit_unit d) = d"
proof -
  have "\<forall>d \<in> set [0..<16]. is_hex (digit_unit d) \<and> hex_digit (digit_unit d) = d"
    by code_simp
  then show "d < 16 \<Longrightarrow> ?thesis" by simp
qed

lemma digit_unit_10: "d < 10 \<Longrightarrow> is_digit (digit_unit d)"
proof -
  have "\<forall>d \<in> set [0..<10]. is_digit (digit_unit d)" by code_simp
  then show "d < 10 \<Longrightarrow> ?thesis" by simp
qed

lemma radix_digits_less: "1 < b \<Longrightarrow> d \<in> set (radix_digits b n) \<Longrightarrow> d < b"
proof (induction b n rule: radix_digits.induct)
  case (1 b n)
  then show ?case by (auto simp: radix_digits.simps [of b n] split: if_splits)
qed

lemma radix_digits_nonempty: "radix_digits b n \<noteq> []"
  by (simp add: radix_digits.simps [of b n])

lemma nat_to_string_hex: "c \<in> set (nat_to_string 16 n) \<Longrightarrow> is_hex c"
  using radix_digits_less [of 16] digit_unit_16 by (auto simp: nat_to_string_def)

lemma nat_to_string_dec: "c \<in> set (nat_to_string 10 n) \<Longrightarrow> is_digit c"
  using radix_digits_less [of 10] digit_unit_10 by (auto simp: nat_to_string_def)

lemma foldl_horner_append:
  "foldl (\<lambda>a c. 16 * a + hex_digit c) x (s @ t)
     = foldl (\<lambda>a c. 16 * a + hex_digit c) (foldl (\<lambda>a c. 16 * a + hex_digit c) x s) t"
  by simp

lemma hex_value_snoc: "hex_value (s @ [c]) = 16 * hex_value s + hex_digit c"
  by (simp add: hex_value_def)

lemma hex_value_nat_to_string: "hex_value (nat_to_string 16 n) = n"
proof (induction "16 :: nat" n rule: radix_digits.induct)
  case (1 n)
  show ?case
  proof (cases "n < 16")
    case True
    then show ?thesis
      by (simp add: nat_to_string_def radix_digits.simps [of 16 n] hex_value_def digit_unit_16)
  next
    case False
    then have "hex_value (nat_to_string 16 n) = 16 * hex_value (nat_to_string 16 (n div 16)) + n mod 16"
      by (simp add: nat_to_string_def radix_digits.simps [of 16 n] hex_value_snoc digit_unit_16)
    with 1 False show ?thesis by simp
  qed
qed

lemma hex_value_zeros: "hex_value (replicate k (digit_unit 0) @ s) = hex_value s"
proof (induction k)
  case (Suc k)
  have "hex_digit (digit_unit 0) = 0" using digit_unit_16 [of 0] by simp
  with Suc show ?case by (simp add: hex_value_def)
qed (simp add: hex_value_def)

lemma hex_digit_less: "is_hex c \<Longrightarrow> hex_digit c < 16"
  unfolding is_hex_def is_digit_def hex_digit_def
  by (auto simp: word_le_nat_alt)

lemma hex_value_less: "\<forall>c \<in> set s. is_hex c \<Longrightarrow> hex_value s < 16 ^ length s"
proof (induction s rule: rev_induct)
  case (snoc c s)
  then have "hex_value s + 1 \<le> 16 ^ length s" and "hex_digit c < 16"
    using hex_digit_less by auto
  then show ?case by (simp add: hex_value_snoc)
qed (simp add: hex_value_def)

lemma radix_digits_length_le:
  assumes "1 < b" and "n < b ^ k" and "0 < k"
  shows "length (radix_digits b n) \<le> k"
  using assms
proof (induction k arbitrary: n)
  case (Suc k)
  show ?case
  proof (cases "n < b")
    case True
    then show ?thesis by (simp add: radix_digits.simps [of b n])
  next
    case False
    then have "k \<noteq> 0" using Suc.prems by (cases k) auto
    moreover have "n div b < b ^ k"
      using Suc.prems by (simp add: div_less_iff_less_mult mult.commute)
    ultimately have "length (radix_digits b (n div b)) \<le> k" using Suc by simp
    then show ?thesis using False Suc.prems by (simp add: radix_digits.simps [of b n])
  qed
qed simp

lemma digit_unit_inj: "d < 16 \<Longrightarrow> e < 16 \<Longrightarrow> digit_unit d = digit_unit e \<Longrightarrow> d = e"
  using digit_unit_16 by metis

text \<open>Two naturals with the same digits are equal, in any radix up to 16.\<close>

lemma radix_digits_inj: "1 < b \<Longrightarrow> radix_digits b m = radix_digits b n \<Longrightarrow> m = n"
proof (induction b m arbitrary: n rule: radix_digits.induct)
  case (1 b m)
  show ?case
  proof (cases "m < b"; cases "n < b")
    assume "m < b" "n < b"
    with 1 show ?thesis by (simp add: radix_digits.simps [of b m] radix_digits.simps [of b n])
  next
    assume "m < b" "\<not> n < b"
    with 1 show ?thesis
      by (simp add: radix_digits.simps [of b m] radix_digits.simps [of b n]
          radix_digits_nonempty [symmetric])
  next
    assume "\<not> m < b" "n < b"
    with 1 show ?thesis
      by (simp add: radix_digits.simps [of b m] radix_digits.simps [of b n] radix_digits_nonempty)
  next
    assume *: "\<not> m < b" "\<not> n < b"
    with "1.prems" have "radix_digits b (m div b) = radix_digits b (n div b)" and "m mod b = n mod b"
      by (simp_all add: radix_digits.simps [of b m] radix_digits.simps [of b n])
    moreover from * "1.prems" have "m div b = n div b"
      using calculation(1) "1.IH" [of "n div b"] by simp
    ultimately show ?thesis by (metis div_mult_mod_eq)
  qed
qed

lemma nat_to_string_inj:
  assumes "1 < b" and "b \<le> 16" and "nat_to_string b m = nat_to_string b n"
  shows "m = n"
proof -
  have "inj_on digit_unit {..<16}" by (auto simp: inj_on_def digit_unit_inj)
  moreover have "set (radix_digits b m) \<union> set (radix_digits b n) \<subseteq> {..<16}"
    using radix_digits_less [OF assms(1)] assms(2) by fastforce
  ultimately have "radix_digits b m = radix_digits b n"
    using assms(3) by (simp add: nat_to_string_def map_inj_on inj_on_subset)
  then show ?thesis using assms(1) radix_digits_inj by blast
qed

section \<open>\<open>BigInt('0x' + h)\<close>\<close>

text \<open>
  \<open>BigInt\<close> of a string trims white space at both ends (the prefix \<open>0x\<close> leaves only
  the end), and then accepts one or more hexadecimal digits; anything else is a
  \<open>SyntaxError\<close>.
\<close>

definition is_space :: "16 word \<Rightarrow> bool" where
  "is_space c \<longleftrightarrow> c \<in> {9, 10, 11, 12, 13, 32, 160, 0x1680, 0x2028, 0x2029, 0x202F, 0x205F, 0x3000, 0xFEFF}
     \<or> 0x2000 \<le> c \<and> c \<le> 0x200A"

definition trimEnd :: "jsstring \<Rightarrow> jsstring" where
  "trimEnd s = rev (dropWhile is_space (rev s))"

definition BigInt_hex :: "jsstring \<Rightarrow> error + int" where
  "BigInt_hex h =
     (let d = trimEnd h in
      if d = [] \<or> \<not> list_all is_hex d then Inl SyntaxError else Inr (int (hex_value d)))"

lemma is_hex_not_space: "is_hex c \<Longrightarrow> \<not> is_space c"
  unfolding is_hex_def is_digit_def is_space_def
  by (auto simp: word_le_nat_alt)

lemma BigInt_hex_digits:
  assumes "h \<noteq> []" and "list_all is_hex h"
  shows "BigInt_hex h = Inr (int (hex_value h))"
proof -
  have "dropWhile is_space (rev h) = rev h"
    using assms is_hex_not_space
    by (cases "rev h") (auto simp: list_all_iff)
  then show ?thesis using assms by (simp add: BigInt_hex_def trimEnd_def)
qed

section \<open>UTF-8\<close>

definition is_high :: "16 word \<Rightarrow> bool" where
  "is_high u \<longleftrightarrow> 0xD800 \<le> unat u \<and> unat u \<le> 0xDBFF"

definition is_low :: "16 word \<Rightarrow> bool" where
  "is_low u \<longleftrightarrow> 0xDC00 \<le> unat u \<and> unat u \<le> 0xDFFF"

definition surrogate_pair :: "16 word \<Rightarrow> 16 word \<Rightarrow> nat" where
  "surrogate_pair u v = 0x10000 + ((unat u - 0xD800) * 0x400 + (unat v - 0xDC00))"

definition lone_unit :: "16 word \<Rightarrow> nat" where
  "lone_unit u = (if is_high u \<or> is_low u then 0xFFFD else unat u)"

text \<open>
  Code points of a string: a high surrogate followed by a low one is one code point,
  a surrogate on its own is read as U+FFFD.
\<close>

fun code_points :: "jsstring \<Rightarrow> nat list" where
  "code_points [] = []"
| "code_points [u] = [lone_unit u]"
| "code_points (u # v # us) =
     (if is_high u \<and> is_low v then surrogate_pair u v # code_points us
      else lone_unit u # code_points (v # us))"

definition utf8_bytes :: "nat \<Rightarrow> nat list" where
  "utf8_bytes c =
     (if c < 0x80 then [c]
      else if c < 0x800 then [0xC0 + c div 64, 0x80 + c mod 64]
      else if c < 0x10000 then [0xE0 + c div 4096, 0x80 + c div 64 mod 64, 0x80 + c mod 64]
      else [0xF0 + c div 262144, 0x80 + c div 4096 mod 64, 0x80 + c div 64 mod 64, 0x80 + c mod 64])"

text \<open>\<open>new TextEncoder().encode(s)\<close>, also \<open>Buffer.from(s, 'utf8')\<close>.\<close>

definition utf8_encode :: "jsstring \<Rightarrow> byte list" where
  "utf8_encode s = map of_nat (concat (map utf8_bytes (code_points s)))"

text \<open>
  The decoder's state machine: \<open>utf8_lead\<close> reads the first byte of a sequence,
  \<open>utf8_trail n lo hi cp\<close> waits for \<open>n\<close> more bytes, the next of them in \<open>lo..hi\<close>.
  A byte out of range ends the sequence with U+FFFD and is read again.
\<close>

function utf8_lead :: "nat list \<Rightarrow> nat list"
  and utf8_trail :: "nat \<Rightarrow> nat \<Rightarrow> nat \<Rightarrow> nat \<Rightarrow> nat list \<Rightarrow> nat list" where
  "utf8_lead [] = []"
| "utf8_lead (b # bs) =
     (if b < 0x80 then b # utf8_lead bs
      else if 0xC2 \<le> b \<and> b \<le> 0xDF then utf8_trail 1 0x80 0xBF (b - 0xC0) bs
      else if 0xE0 \<le> b \<and> b \<le> 0xEF then
        utf8_trail 2 (if b = 0xE0 then 0xA0 else 0x80) (if b = 0xED then 0x9F else 0xBF) (b - 0xE0) bs
      else if 0xF0 \<le> b \<and> b \<le> 0xF4 then
        utf8_trail 3 (if b = 0xF0 then 0x90 else 0x80) (if b = 0xF4 then 0x8F else 0xBF) (b - 0xF0) bs
      else 0xFFFD # utf8_lead bs)"
| "utf8_trail n lo hi cp [] = [0xFFFD]"
| "utf8_trail n lo hi cp (b # bs) =
     (if lo \<le> b \<and> b \<le> hi then
        (if n \<le> 1 then (cp * 64 + (b - 0x80)) # utf8_lead bs
         else utf8_trail (n - 1) 0x80 0xBF (cp * 64 + (b - 0x80)) bs)
      else 0xFFFD # utf8_lead (b # bs))"
  by pat_completeness auto
termination
  by (relation "measure (case_sum (\<lambda>bs. 2 * length bs) (\<lambda>(n, lo, hi, cp, bs). 2 * length bs + 1))") auto

definition code_units :: "nat \<Rightarrow> jsstring" where
  "code_units c =
     (if c < 0x10000 then [of_nat c]
      else [of_nat (0xD800 + (c - 0x10000) div 0x400), of_nat (0xDC00 + (c - 0x10000) mod 0x400)])"

text \<open>\<open>new TextDecoder().decode(bs)\<close>: a leading byte order mark is dropped.\<close>

definition utf8_decode :: "byte list \<Rightarrow> jsstring" where
  "utf8_decode bs =
     (let cs = utf8_lead (map unat bs) in
      concat (map code_units (case cs of c # cs' \<Rightarrow> if c = 0xFEFF then cs' else cs | [] \<Rightarrow> [])))"


definition scalar_value :: "nat \<Rightarrow> bool" where
  "scalar_value c \<longleftrightarrow> c < 0x110000 \<and> \<not> (0xD800 \<le> c \<and> c \<le> 0xDFFF)"

text \<open>A string without lone surrogates.\<close>

fun well_formed :: "jsstring \<Rightarrow> bool" where
  "well_formed [] = True"
| "well_formed [u] = (\<not> is_high u \<and> \<not> is_low u)"
| "well_formed (u # v # us) =
     (if is_high u then is_low v \<and> well_formed us else \<not> is_low u \<and> well_formed (v # us))"

lemma unit_bound: "unat (u :: 16 word) < 0x10000"
  using unsigned_less [of u, where ?'a = nat] by simp

lemma scalar_lone_unit: "scalar_value (lone_unit u)"
  using unit_bound [of u] by (auto simp: scalar_value_def lone_unit_def is_high_def is_low_def)

lemma scalar_surrogate_pair: "is_high u \<Longrightarrow> is_low v \<Longrightarrow> scalar_value (surrogate_pair u v)"
  by (auto simp: scalar_value_def surrogate_pair_def is_high_def is_low_def)

lemma code_points_scalar: "c \<in> set (code_points s) \<Longrightarrow> scalar_value c"
  by (induction s rule: code_points.induct)
    (auto simp: scalar_lone_unit scalar_surrogate_pair split: if_splits)

lemma code_units_lone: "\<not> is_high u \<Longrightarrow> \<not> is_low u \<Longrightarrow> code_units (lone_unit u) = [u]"
  using unit_bound [of u] by (simp add: lone_unit_def code_units_def)

lemma code_units_pair:
  assumes "is_high u" and "is_low v"
  shows "code_units (surrogate_pair u v) = [u, v]"
proof -
  define a b where "a = unat u - 0xD800" and "b = unat v - 0xDC00"
  have "b < 0x400" and "unat u = 0xD800 + a" "unat v = 0xDC00 + b"
    using assms by (auto simp: is_low_def is_high_def a_def b_def)
  moreover from this(1) have "(a * 0x400 + b) div 0x400 = a" "(a * 0x400 + b) mod 0x400 = b"
    by simp_all
  moreover from calculation have "of_nat (0xD800 + a) = u"
    by (metis of_nat_unat ucast_id)
  moreover from calculation have "of_nat (0xDC00 + b) = v"
    by (metis of_nat_unat ucast_id)
  ultimately show ?thesis by (simp add: surrogate_pair_def code_units_def del: of_nat_add)
qed

lemma code_units_code_points: "well_formed s \<Longrightarrow> concat (map code_units (code_points s)) = s"
  by (induction s rule: code_points.induct)
    (auto simp: code_units_lone code_units_pair split: if_splits)

lemma base64_digits:
  "c = c div 4096 * 4096 + c div 64 mod 64 * 64 + c mod 64" (is ?th1)
  "c = c div 262144 * 262144 + c div 4096 mod 64 * 4096 + c div 64 mod 64 * 64 + c mod 64" (is ?th2)
  for c :: nat
proof -
  have 1: "c = c div 64 * 64 + c mod 64" by simp
  have 2: "c div 64 = c div 4096 * 64 + c div 64 mod 64"
    using div_mult_mod_eq [of "c div 64" 64] by (simp flip: div_mult2_eq)
  have 3: "c div 4096 = c div 262144 * 64 + c div 4096 mod 64"
    using div_mult_mod_eq [of "c div 4096" 64] by (simp flip: div_mult2_eq)
  from 1 2 show ?th1 by linarith
  from 1 2 3 show ?th2 by linarith
qed

lemma utf8_lead_bytes:
  assumes "scalar_value c"
  shows "utf8_lead (utf8_bytes c @ bs) = c # utf8_lead bs"
proof -
  consider "c < 0x80" | "0x80 \<le> c" "c < 0x800" | "0x800 \<le> c" "c < 0x10000" | "0x10000 \<le> c" "c < 0x110000"
    using assms by (fastforce simp: scalar_value_def)
  then show ?thesis
  proof cases
    case 1
    then show ?thesis by (simp add: utf8_bytes_def)
  next
    case 2
    then have "2 \<le> c div 64" "c div 64 < 32" by (simp_all add: less_eq_div_iff_mult_less_eq div_less_iff_less_mult)
    with 2 show ?thesis by (simp add: utf8_bytes_def)
  next
    case 3
    define q where "q = c div 4096"
    define r where "r = c div 64 mod 64"
    have c: "c = q * 4096 + r * 64 + c mod 64"
      unfolding q_def r_def by (rule base64_digits)
    have q: "q < 16" using 3 by (simp add: q_def div_less_iff_less_mult)
    have r: "r < 64" by (simp add: r_def)
    have r0: "q = 0 \<Longrightarrow> 32 \<le> r" using c 3 by simp
    have r13: "q = 13 \<Longrightarrow> r < 32" using c assms r by (auto simp: scalar_value_def)
    have ub: "utf8_bytes c = [0xE0 + q, 0x80 + r, 0x80 + c mod 64]"
      using 3 by (simp add: utf8_bytes_def q_def r_def)
    show ?thesis
      using q r r0 r13 c by (auto simp: ub)
  next
    case 4
    define q where "q = c div 262144"
    define r where "r = c div 4096 mod 64"
    define t where "t = c div 64 mod 64"
    have c: "c = q * 262144 + r * 4096 + t * 64 + c mod 64"
      unfolding q_def r_def t_def by (rule base64_digits)
    have q: "q < 5" using 4 by (simp add: q_def div_less_iff_less_mult)
    have r: "r < 64" "t < 64" by (simp_all add: r_def t_def)
    have r0: "q = 0 \<Longrightarrow> 16 \<le> r" using c 4 r by simp
    have r4: "q = 4 \<Longrightarrow> r < 16" using c 4 by simp
    have ub: "utf8_bytes c = [0xF0 + q, 0x80 + r, 0x80 + t, 0x80 + c mod 64]"
      using 4 by (simp add: utf8_bytes_def q_def r_def t_def)
    show ?thesis
      using q r r0 r4 c by (auto simp: ub)
  qed
qed

lemma utf8_bytes_range: "scalar_value c \<Longrightarrow> b \<in> set (utf8_bytes c) \<Longrightarrow> b < 256"
proof -
  assume c: "scalar_value c" and b: "b \<in> set (utf8_bytes c)"
  have m: "x mod 64 + 128 < 256" for x :: nat using mod_less_divisor [of 64 x] by linarith
  have d: "c < 0x800 \<Longrightarrow> c div 64 < 32" "c < 0x10000 \<Longrightarrow> c div 4096 < 16" "c div 262144 < 5"
    using c by (simp_all add: div_less_iff_less_mult scalar_value_def)
  show "b < 256"
    using b m [of c] m [of "c div 64"] m [of "c div 4096"] d
    by (auto simp: utf8_bytes_def add.commute split: if_splits)
qed

lemma unat_utf8_encode: "map unat (utf8_encode s) = concat (map utf8_bytes (code_points s))"
proof -
  have "unat (of_nat b :: byte) = b" if "b \<in> set (concat (map utf8_bytes (code_points s)))" for b
    using that utf8_bytes_range code_points_scalar by (fastforce simp: unat_of_nat)
  then show ?thesis unfolding utf8_encode_def map_map comp_def by (rule map_idI)
qed

lemma utf8_lead_encode: "utf8_lead (map unat (utf8_encode s)) = code_points s"
proof -
  have "\<forall>c \<in> set cs. scalar_value c \<Longrightarrow> utf8_lead (concat (map utf8_bytes cs)) = cs" for cs
    by (induction cs) (simp_all add: utf8_lead_bytes)
  then show ?thesis using code_points_scalar by (simp add: unat_utf8_encode)
qed

lemma utf8_roundtrip:
  assumes "well_formed s" and "take 1 s \<noteq> [0xFEFF]"
  shows "utf8_decode (utf8_encode s) = s"
proof -
  have "take 1 (code_points s) \<noteq> [0xFEFF]"
  proof (cases s rule: code_points.cases)
    case (2 u)
    with assms show ?thesis by (auto simp: lone_unit_def word_eq_iff_unsigned [where ?'a = nat])
  next
    case (3 u v us)
    with assms show ?thesis
      by (auto simp: lone_unit_def surrogate_pair_def word_eq_iff_unsigned [where ?'a = nat])
  qed simp
  then show ?thesis
    using code_units_code_points [OF assms(1)]
    by (auto simp: utf8_decode_def utf8_lead_encode Let_def split: list.splits)
qed

lemma utf8_encode_inj:
  "well_formed s \<Longrightarrow> well_formed t \<Longrightarrow> utf8_encode s = utf8_encode t \<Longrightarrow> s = t"
  using utf8_lead_encode [of s] utf8_lead_encode [of t]
    code_units_code_points [of s] code_units_code_points [of t] by simp

text \<open>On ASCII the encoder is the identity, unit by unit.\<close>

lemma code_points_ascii: "\<forall>u \<in> set s. unat u < 128 \<Longrightarrow> code_points s = map unat s"
  by (induction s rule: code_points.induct) (auto simp: lone_unit_def is_high_def is_low_def)

lemma well_formed_ascii: "\<forall>u \<in> set s. unat u < 128 \<Longrightarrow> well_formed s"
  by (induction s rule: code_points.induct) (auto simp: is_high_def is_low_def)

lemma utf8_encode_ascii: "\<forall>u \<in> set s. unat u < 128 \<Longrightarrow> utf8_encode s = map (\<lambda>u. of_nat (unat u)) s"
proof -
  assume a: "\<forall>u \<in> set s. unat u < 128"
  then have "concat (map utf8_bytes (map unat s)) = map unat s"
    by (induction s) (auto simp: utf8_bytes_def)
  with a show ?thesis by (simp add: utf8_encode_def code_points_ascii)
qed

lemma length_utf8_ascii: "\<forall>u \<in> set s. unat u < 128 \<Longrightarrow> length (utf8_encode s) = length s"
  by (simp add: utf8_encode_ascii)

end
