(* ===== verification/Codec.thy ===== *)
theory Codec
  imports Text
begin

text \<open>
  The byte codecs of \<open>backend/src/crypto/orderCipher.ts\<close> (the frontend ships the same
  file): hexadecimal and base64url, both directions, on top of the platform's \<open>btoa\<close>
  and \<open>atob\<close> as the WHATWG standard defines them.  The interface every codec of the
  program promises (decoding an encoding returns the value) is the locale \<open>codec\<close>;
  its instances are interpreted here and, for scalars, in \<open>Scalars\<close>.
\<close>

section \<open>The contract of a codec\<close>

locale codec =
  fixes enc :: "'a \<Rightarrow> 'b"
    and dec :: "'b \<Rightarrow> error + 'a"
    and valid :: "'a \<Rightarrow> bool"
  assumes dec_enc: "valid x \<Longrightarrow> dec (enc x) = Inr x"
begin

lemma enc_inj: "valid x \<Longrightarrow> valid y \<Longrightarrow> enc x = enc y \<Longrightarrow> x = y"
  by (metis dec_enc sum.inject(2))

lemma enc_eq_iff: "valid x \<Longrightarrow> valid y \<Longrightarrow> enc x = enc y \<longleftrightarrow> x = y"
  by (auto dest: enc_inj)

lemma dec_ok_enc: "valid x \<Longrightarrow> is_ok (dec (enc x))"
  by (simp add: dec_enc)

lemma enc_map_inj:
  "list_all valid xs \<Longrightarrow> list_all valid ys \<Longrightarrow> map enc xs = map enc ys \<Longrightarrow> xs = ys"
proof (induction xs arbitrary: ys)
  case (Cons x xs)
  then show ?case by (cases ys) (auto dest: enc_inj)
qed simp

end

section \<open>Hexadecimal\<close>

definition hex_byte :: "byte \<Rightarrow> jsstring" where
  "hex_byte b = padStart 2 48 (nat_to_string 16 (unat b))"

definition bytesToHex :: "byte list \<Rightarrow> jsstring" where
  "bytesToHex bytes = concat (map hex_byte bytes)"

text \<open>The loop of \<open>hexToBytes\<close>: one byte per two units (\<open>parseInt(slice, 16)\<close>).\<close>

fun hex_pairs :: "jsstring \<Rightarrow> byte list" where
  "hex_pairs (a # b # s) = of_nat (hex_value [a, b]) # hex_pairs s"
| "hex_pairs s = []"

definition hexToBytes :: "jsstring \<Rightarrow> error + byte list" where
  "hexToBytes hex =
     (if \<not> (even (length hex) \<and> list_all is_hex hex) then Inl InvalidHex
      else Inr (hex_pairs hex))"

lemma byte_bound: "unat (b :: byte) < 256"
  using unsigned_less [of b, where ?'a = nat] by simp

lemma digit_unit_0: "digit_unit 0 = 48"
  by (simp add: digit_unit_def)

lemma is_hex_48: "is_hex 48"
  by (simp add: is_hex_def is_digit_def)

lemma length_hex_byte: "length (hex_byte b) = 2"
proof -
  have "length (radix_digits 16 (unat b)) \<le> 2"
    using byte_bound [of b] by (intro radix_digits_length_le) simp_all
  then show ?thesis by (simp add: hex_byte_def length_padStart nat_to_string_def)
qed

lemma hex_byte_hex: "list_all is_hex (hex_byte b)"
  using nat_to_string_hex by (auto simp: hex_byte_def padStart_def list_all_iff is_hex_48)

lemma hex_value_hex_byte: "hex_value (hex_byte b) = unat b"
  using hex_value_zeros [of _ "nat_to_string 16 (unat b)"]
  by (simp add: hex_byte_def padStart_def hex_value_nat_to_string digit_unit_0)

lemma length_bytesToHex: "length (bytesToHex bytes) = 2 * length bytes"
  by (induction bytes) (simp_all add: bytesToHex_def length_hex_byte)

lemma bytesToHex_hex: "list_all is_hex (bytesToHex bytes)"
  by (induction bytes) (simp_all add: bytesToHex_def hex_byte_hex)

lemma hex_pairs_bytesToHex: "hex_pairs (bytesToHex bytes) = bytes"
proof (induction bytes)
  case (Cons b bytes)
  obtain x y where xy: "hex_byte b = [x, y]"
    using length_hex_byte [of b] by (auto simp: length_Suc_conv numeral_2_eq_2)
  have "of_nat (hex_value [x, y]) = b"
    using hex_value_hex_byte [of b] xy by (metis of_nat_unat ucast_id)
  with Cons show ?case by (simp add: bytesToHex_def xy)
qed (simp add: bytesToHex_def)

lemma length_hex_pairs: "length (hex_pairs s) = length s div 2"
  by (induction s rule: hex_pairs.induct) auto

interpretation hex: codec bytesToHex hexToBytes "\<lambda>bytes. True"
  by unfold_locales
    (simp add: hexToBytes_def length_bytesToHex bytesToHex_hex hex_pairs_bytesToHex)

lemma hexToBytes_ok: "hexToBytes h = Inr bytes \<Longrightarrow>
  even (length h) \<and> list_all is_hex h \<and> 2 * length bytes = length h"
  by (auto simp: hexToBytes_def length_hex_pairs split: if_splits)

section \<open>\<open>btoa\<close> and \<open>atob\<close>\<close>

text \<open>A binary string is the list of its bytes; a sextet is a number below 64.\<close>

fun sextets :: "nat list \<Rightarrow> nat list" where
  "sextets (a # b # c # bs) =
     [a div 4, a mod 4 * 16 + b div 16, b mod 16 * 4 + c div 64, c mod 64] @ sextets bs"
| "sextets [a, b] = [a div 4, a mod 4 * 16 + b div 16, b mod 16 * 4]"
| "sextets [a] = [a div 4, a mod 4 * 16]"
| "sextets [] = []"

fun octets :: "nat list \<Rightarrow> nat list" where
  "octets (a # b # c # d # ss) =
     [a * 4 + b div 16, b mod 16 * 16 + c div 4, c mod 4 * 64 + d] @ octets ss"
| "octets [a, b, c] = [a * 4 + b div 16, b mod 16 * 16 + c div 4]"
| "octets [a, b] = [a * 4 + b div 16]"
| "octets ss = []"

definition b64_unit :: "nat \<Rightarrow> 16 word" where
  "b64_unit v = of_nat (if v < 26 then 65 + v else if v < 52 then 71 + v
     else if v < 62 then v - 4 else if v = 62 then 43 else 47)"

definition is_b64 :: "16 word \<Rightarrow> bool" where
  "is_b64 c \<longleftrightarrow> 65 \<le> c \<and> c \<le> 90 \<or> 97 \<le> c \<and> c \<le> 122 \<or> is_digit c \<or> c = 43 \<or> c = 47"

definition b64_value :: "16 word \<Rightarrow> nat" where
  "b64_value c = (if c = 43 then 62 else if c = 47 then 63 else if c \<le> 57 then unat c + 4
     else if c \<le> 90 then unat c - 65 else unat c - 71)"

definition btoa :: "byte list \<Rightarrow> jsstring" where
  "btoa bytes = map b64_unit (sextets (map unat bytes)) @ replicate ((3 - length bytes mod 3) mod 3) 61"

text \<open>
  Forgiving base64: ASCII white space goes, then at most two padding units if the
  length is a multiple of four; a remainder of one or a foreign unit is an error,
  spare low bits are ignored.
\<close>

definition atob_strip :: "jsstring \<Rightarrow> jsstring" where
  "atob_strip s =
     (if length s mod 4 \<noteq> 0 then s
      else if s \<noteq> [] \<and> last s = 61
      then (let s' = butlast s in if s' \<noteq> [] \<and> last s' = 61 then butlast s' else s')
      else s)"

definition atob :: "jsstring \<Rightarrow> error + byte list" where
  "atob s =
     (let t = atob_strip (filter (\<lambda>c. c \<notin> {9, 10, 12, 13, 32}) s) in
      if length t mod 4 = 1 \<or> \<not> list_all is_b64 t then Inl InvalidCharacterError
      else Inr (map of_nat (octets (map b64_value t))))"

section \<open>base64url\<close>

definition stripEnd :: "16 word \<Rightarrow> jsstring \<Rightarrow> jsstring" where
  "stripEnd c s = rev (dropWhile (\<lambda>d. d = c) (rev s))"

definition replace_all :: "16 word \<Rightarrow> 16 word \<Rightarrow> jsstring \<Rightarrow> jsstring" where
  "replace_all a b s = map (\<lambda>c. if c = a then b else c) s"

definition base64UrlEncode :: "byte list \<Rightarrow> jsstring" where
  "base64UrlEncode bytes = stripEnd 61 (replace_all 47 95 (replace_all 43 45 (btoa bytes)))"

definition is_b64url :: "16 word \<Rightarrow> bool" where
  "is_b64url c \<longleftrightarrow> 65 \<le> c \<and> c \<le> 90 \<or> 97 \<le> c \<and> c \<le> 122 \<or> is_digit c \<or> c = 95 \<or> c = 45"

definition base64UrlDecode :: "jsstring \<Rightarrow> error + byte list" where
  "base64UrlDecode s =
     (if \<not> list_all is_b64url s then Inl InvalidBase64url
      else atob (replace_all 95 47 (replace_all 45 43 s) @ replicate ((4 - length s mod 4) mod 4) 61))"

definition b64url_unit :: "nat \<Rightarrow> 16 word" where
  "b64url_unit v = (let c = b64_unit v in if c = 43 then 45 else if c = 47 then 95 else c)"

lemma b64_units:
  assumes "v < 64"
  shows "b64_value (b64_unit v) = v" "is_b64 (b64_unit v)" "b64_unit v \<notin> {9, 10, 12, 13, 32, 61}"
    "is_b64url (b64url_unit v)" "b64url_unit v \<noteq> 61"
    "(let c = b64url_unit v; d = (if c = 45 then 43 else c) in if d = 95 then 47 else d) = b64_unit v"
proof -
  have "\<forall>v \<in> set [0..<64]. b64_value (b64_unit v) = v \<and> is_b64 (b64_unit v)
      \<and> b64_unit v \<notin> {9, 10, 12, 13, 32, 61} \<and> is_b64url (b64url_unit v) \<and> b64url_unit v \<noteq> 61
      \<and> (let c = b64url_unit v; d = (if c = 45 then 43 else c) in if d = 95 then 47 else d) = b64_unit v"
    by code_simp
  with assms show "b64_value (b64_unit v) = v" "is_b64 (b64_unit v)"
    "b64_unit v \<notin> {9, 10, 12, 13, 32, 61}" "is_b64url (b64url_unit v)" "b64url_unit v \<noteq> 61"
    "(let c = b64url_unit v; d = (if c = 45 then 43 else c) in if d = 95 then 47 else d) = b64_unit v"
    by simp_all
qed

lemma sextets_less: "\<forall>b \<in> set bs. b < 256 \<Longrightarrow> v \<in> set (sextets bs) \<Longrightarrow> v < 64"
  by (induction bs rule: sextets.induct) auto

lemma octets_sextets: "\<forall>b \<in> set bs. b < 256 \<Longrightarrow> octets (sextets bs) = bs"
  by (induction bs rule: sextets.induct) auto

lemma length_sextets_mod:
  "length (sextets bs) mod 4 = (case length bs mod 3 of 0 \<Rightarrow> 0 | Suc 0 \<Rightarrow> 2 | _ \<Rightarrow> 3)"
proof (induction bs rule: sextets.induct)
  case (1 a b c bs)
  have "length (a # b # c # bs) mod 3 = length bs mod 3" by simp
  with 1 show ?case by simp
qed simp_all


lemma stripEnd_append:
  "list_all (\<lambda>d. d \<noteq> c) s \<Longrightarrow> stripEnd c (s @ replicate k c) = s"
proof -
  assume s: "list_all (\<lambda>d. d \<noteq> c) s"
  have "dropWhile (\<lambda>d. d = c) (replicate k c @ rev s) = dropWhile (\<lambda>d. d = c) (rev s)"
    by (induction k) simp_all
  also have "\<dots> = rev s" using s by (cases "rev s") (auto simp: list_all_iff)
  finally show ?thesis by (simp add: stripEnd_def)
qed

lemma replace_units:
  "replace_all 47 95 (replace_all 43 45 (map b64_unit vs @ replicate k 61))
     = map b64url_unit vs @ replicate k 61"
  by (simp add: replace_all_def b64url_unit_def Let_def)

lemma base64UrlEncode_sextets: "base64UrlEncode bytes = map b64url_unit (sextets (map unat bytes))"
proof -
  have "list_all (\<lambda>d. d \<noteq> 61) (map b64url_unit (sextets (map unat bytes)))"
    using sextets_less [of "map unat bytes"] b64_units(5) byte_bound by (auto simp: list_all_iff)
  then show ?thesis
    by (simp add: base64UrlEncode_def btoa_def replace_units stripEnd_append)
qed

lemma replace_back:
  assumes "\<forall>v \<in> set vs. v < 64"
  shows "replace_all 95 47 (replace_all 45 43 (map b64url_unit vs)) = map b64_unit vs"
  using assms b64_units(6) by (simp add: replace_all_def Let_def comp_def)

lemma atob_strip_pad:
  assumes "k \<le> 2" and "(length s + k) mod 4 = 0" and "list_all (\<lambda>c. c \<noteq> 61) s"
  shows "atob_strip (s @ replicate k 61) = s"
proof -
  have "\<not> (s \<noteq> [] \<and> last s = 61)" using assms(3) by (auto simp: list_all_iff)
  note not_pad = this
  consider "k = 0" | "k = 1" | "k = 2" using assms(1) by linarith
  then show ?thesis
  proof cases
    case 3
    then have "s @ replicate k 61 = (s @ [61]) @ [61]" by (simp add: numeral_2_eq_2)
    then show ?thesis using assms(2) 3 not_pad by (simp add: atob_strip_def del: append_assoc)
  qed (use assms(2) not_pad in \<open>auto simp: atob_strip_def\<close>)
qed

lemma base64UrlDecode_Encode: "base64UrlDecode (base64UrlEncode bytes) = Inr bytes"
proof -
  define vs where "vs = sextets (map unat bytes)"
  define k where "k = (4 - length vs mod 4) mod 4"
  have vs: "\<forall>v \<in> set vs. v < 64"
    using sextets_less [of "map unat bytes"] byte_bound by (auto simp: vs_def)
  have len: "length vs mod 4 \<noteq> 1" and k: "k \<le> 2" "(length vs + k) mod 4 = 0"
  proof -
    have "length vs mod 4 = 0 \<or> length vs mod 4 = 2 \<or> length vs mod 4 = 3"
      using length_sextets_mod [of "map unat bytes"] by (auto simp: vs_def split: nat.splits)
    moreover have "(length vs + k) mod 4 = (length vs mod 4 + k) mod 4"
      by (simp add: mod_add_left_eq)
    ultimately show "length vs mod 4 \<noteq> 1" "k \<le> 2" "(length vs + k) mod 4 = 0"
      by (auto simp: k_def)
  qed
  have ok: "list_all is_b64url (map b64url_unit vs)" "list_all is_b64 (map b64_unit vs)"
    "list_all (\<lambda>c. c \<noteq> 61) (map b64_unit vs)"
    using vs b64_units by (auto simp: list_all_iff)
  have flt: "filter (\<lambda>c. c \<notin> {9, 10, 12, 13, 32}) (map b64_unit vs @ replicate k 61)
      = map b64_unit vs @ replicate k 61"
    using vs b64_units(3) by (intro filter_True) auto
  have vals: "map b64_value (map b64_unit vs) = vs"
    using vs b64_units(1) by (simp add: map_idI)
  have "map of_nat (octets vs) = bytes"
    using octets_sextets [of "map unat bytes"] byte_bound by (simp add: vs_def comp_def)
  then have "atob (map b64_unit vs @ replicate k 61) = Inr bytes"
    using len ok vals
    by (simp only: atob_def flt atob_strip_pad [OF k(1) _ ok(3)] k(2) length_map Let_def) simp
  then show ?thesis
    using vs ok(1) by (simp add: base64UrlDecode_def base64UrlEncode_sextets replace_back
        flip: vs_def k_def)
qed

interpretation b64url: codec base64UrlEncode base64UrlDecode "\<lambda>bytes. True"
  by unfold_locales (rule base64UrlDecode_Encode)

lemma base64UrlEncode_units: "list_all is_b64url (base64UrlEncode bytes)"
  using sextets_less [of "map unat bytes"] b64_units(4) byte_bound
  by (auto simp: base64UrlEncode_sextets list_all_iff)

section \<open>UTF-8 as a codec\<close>

text \<open>The text codec of the platform loses lone surrogates and a leading byte order mark.\<close>

interpretation utf8: codec utf8_encode "\<lambda>bs. Inr (utf8_decode bs)"
  "\<lambda>s. well_formed s \<and> take 1 s \<noteq> [0xFEFF]"
  by unfold_locales (simp add: utf8_roundtrip)

end
