(* ===== verification/Modular.thy ===== *)
theory Modular
  imports Prelude
begin

text \<open>
  Arithmetic modulo a prime, over \<^typ>\<open>int\<close>: the facts about the scalar field of
  the curve that \<open>backend/src/crypto/threshold.ts\<close> relies on.  Nothing here is a
  definition of the program; the theory ends with Fermat's little theorem, which is
  why \<open>modInverse\<close> is an inverse, and with evaluation of a coefficient list
  (\<open>horner\<close>), the mathematical reading of the sharing polynomials.
\<close>

section \<open>Primes\<close>

definition prime_int :: "int \<Rightarrow> bool" where
  "prime_int p \<longleftrightarrow> 1 < p \<and> (\<forall>d \<in> {2..<p}. \<not> d dvd p)"

lemma prime_int_gt_1: "prime_int p \<Longrightarrow> 1 < p"
  by (simp add: prime_int_def)

lemma prime_int_divisor:
  assumes "prime_int p" and "0 < d" and "d dvd p"
  shows "d = 1 \<or> d = p"
proof -
  have "d \<le> p" using assms prime_int_gt_1 [OF assms(1)] by (simp add: zdvd_imp_le)
  moreover have "d \<notin> {2..<p}" using assms by (auto simp: prime_int_def)
  ultimately show ?thesis using assms(2) by auto
qed

lemma prime_int_coprime:
  assumes "prime_int p" and "\<not> p dvd a"
  shows "coprime p a"
proof -
  have "0 < gcd p a" using prime_int_gt_1 [OF assms(1)] by auto
  then have "gcd p a = 1 \<or> gcd p a = p"
    using prime_int_divisor [OF assms(1), of "gcd p a"] by simp
  moreover have "gcd p a \<noteq> p" using assms(2) by (metis gcd_dvd2)
  ultimately show ?thesis by (simp add: coprime_iff_gcd_eq_1)
qed

lemma prime_int_dvd_mult:
  "prime_int p \<Longrightarrow> p dvd a * b \<Longrightarrow> p dvd a \<or> p dvd b"
  using prime_int_coprime [of p a] coprime_dvd_mult_right_iff [of p a b] by blast

lemma prime_int_dvd_prod:
  assumes "prime_int p" and "finite A" and "p dvd prod f A"
  shows "\<exists>x \<in> A. p dvd f x"
  using assms(2,3)
proof (induction A rule: finite_induct)
  case empty
  then show ?case using prime_int_gt_1 [OF assms(1)] by auto
next
  case (insert x A)
  then show ?case using prime_int_dvd_mult [OF assms(1), of "f x" "prod f A"] by auto
qed

lemma not_dvd_range: "0 < x \<Longrightarrow> x < p \<Longrightarrow> \<not> p dvd (x :: int)"
  by (auto dest: zdvd_imp_le)

lemma mod_0_dvd: "(a :: int) mod p = 0 \<longleftrightarrow> p dvd a"
  by (simp add: dvd_eq_mod_eq_0)

section \<open>Congruence\<close>

abbreviation cgr :: "int \<Rightarrow> int \<Rightarrow> int \<Rightarrow> bool" where
  "cgr p a b \<equiv> a mod p = b mod p"

lemma cgr_dvd: "cgr p a b \<longleftrightarrow> p dvd a - b"
  by (rule mod_eq_dvd_iff)

lemma cgr_add: "cgr p a b \<Longrightarrow> cgr p c d \<Longrightarrow> cgr p (a + c) (b + d)"
  by (rule mod_add_cong)

lemma cgr_diff: "cgr p a b \<Longrightarrow> cgr p c d \<Longrightarrow> cgr p (a - c) (b - d)"
  by (rule mod_diff_cong)

lemma cgr_mult: "cgr p a b \<Longrightarrow> cgr p c d \<Longrightarrow> cgr p (a * c) (b * d)"
  by (rule mod_mult_cong)

lemma cgr_mult_left: "cgr p a b \<Longrightarrow> cgr p (c * a) (c * b)"
  by (rule cgr_mult) simp_all

lemma cgr_mult_right: "cgr p a b \<Longrightarrow> cgr p (a * c) (b * c)"
  by (rule cgr_mult) simp_all

lemma cgr_sum: "(\<And>x. x \<in> A \<Longrightarrow> cgr p (f x) (g x)) \<Longrightarrow> cgr p (sum f A) (sum g A)"
  by (metis (mono_tags, lifting) mod_sum_eq sum.cong)

lemma cgr_cancel:
  assumes "prime_int p" and "\<not> p dvd c" and "cgr p (c * a) (c * b)"
  shows "cgr p a b"
proof -
  have "p dvd c * (a - b)" using assms(3) by (simp add: cgr_dvd right_diff_distrib)
  then show ?thesis using prime_int_dvd_mult [OF assms(1)] assms(2) by (auto simp: cgr_dvd)
qed

lemma cgr_small: "0 \<le> a \<Longrightarrow> a < p \<Longrightarrow> 0 \<le> b \<Longrightarrow> b < p \<Longrightarrow> cgr p a b \<longleftrightarrow> a = (b :: int)"
  by simp

section \<open>Fermat's little theorem\<close>

lemma residue_mult_bij:
  assumes "prime_int p" and "\<not> p dvd a"
  shows "bij_betw (\<lambda>x. a * x mod p) {1..<p} {1..<p}"
proof -
  have p: "1 < p" using assms(1) by (rule prime_int_gt_1)
  have inj: "inj_on (\<lambda>x. a * x mod p) {1..<p}"
  proof (rule inj_onI)
    fix x y assume "x \<in> {1..<p}" "y \<in> {1..<p}" and "a * x mod p = a * y mod p"
    then show "x = y" using cgr_cancel [OF assms, of x y] by simp
  qed
  have "(\<lambda>x. a * x mod p) ` {1..<p} \<subseteq> {1..<p}"
  proof
    fix y assume "y \<in> (\<lambda>x. a * x mod p) ` {1..<p}"
    then obtain x where x: "1 \<le> x" "x < p" and y: "y = a * x mod p" by auto
    have "\<not> p dvd a * x"
      using prime_int_dvd_mult [OF assms(1), of a x] assms(2) x not_dvd_range [of x p] by auto
    then have "y \<noteq> 0" by (simp add: y mod_0_dvd)
    moreover have "0 \<le> y" "y < p" using p by (simp_all add: y)
    ultimately show "y \<in> {1..<p}" by auto
  qed
  then show ?thesis using inj
    by (simp add: bij_betw_def endo_inj_surj)
qed

lemma fermat_little:
  assumes "prime_int p" and "\<not> p dvd a"
  shows "a ^ nat (p - 1) mod p = 1"
proof -
  have p: "1 < p" using assms(1) by (rule prime_int_gt_1)
  let ?S = "{1..<p}"
  have card: "card ?S = nat (p - 1)" by simp
  have "(\<Prod>x \<in> ?S. x) = (\<Prod>x \<in> ?S. a * x mod p)"
    using prod.reindex_bij_betw [OF residue_mult_bij [OF assms], of "\<lambda>x. x"] by simp
  then have "cgr p (\<Prod>x \<in> ?S. x) (\<Prod>x \<in> ?S. a * x)"
    by (simp add: mod_prod_eq)
  then have "cgr p ((\<Prod>x \<in> ?S. x) * 1) ((\<Prod>x \<in> ?S. x) * a ^ nat (p - 1))"
    by (simp add: prod.distrib card mult.commute)
  moreover have "\<not> p dvd (\<Prod>x \<in> ?S. x)"
    using prime_int_dvd_prod [OF assms(1), of ?S "\<lambda>x. x"] not_dvd_range by auto
  ultimately have "cgr p 1 (a ^ nat (p - 1))" using cgr_cancel [OF assms(1)] by blast
  then show ?thesis using p by simp
qed

section \<open>Polynomials as coefficient lists\<close>

text \<open>\<open>horner cs x\<close> is \<open>\<Sum>k. cs ! k * x ^ k\<close>.\<close>

fun horner :: "int list \<Rightarrow> int \<Rightarrow> int" where
  "horner [] x = 0"
| "horner (c # cs) x = c + x * horner cs x"

text \<open>The quotient of \<open>horner cs x - horner cs x0\<close> by \<open>x - x0\<close> (synthetic division).\<close>

fun horner_quot :: "int list \<Rightarrow> int \<Rightarrow> int list" where
  "horner_quot [] x0 = []"
| "horner_quot [c] x0 = []"
| "horner_quot (c # d # cs) x0 = horner (d # cs) x0 # horner_quot (d # cs) x0"

lemma length_horner_quot: "length (horner_quot cs x0) = length cs - 1"
  by (induction cs x0 rule: horner_quot.induct) auto

lemma horner_division:
  "horner cs x = horner cs x0 + (x - x0) * horner (horner_quot cs x0) x"
proof (induction cs x0 rule: horner_quot.induct)
  case (3 c d cs x0)
  have "horner (c # d # cs) x
      = c + x * (horner (d # cs) x0 + (x - x0) * horner (horner_quot (d # cs) x0) x)"
    by (simp only: horner.simps(2) [of c "d # cs"] "3.IH")
  also have "\<dots> = c + x0 * horner (d # cs) x0
      + (x - x0) * (horner (d # cs) x0 + x * horner (horner_quot (d # cs) x0) x)"
    by (simp only: algebra_simps)
  finally show ?case by simp
qed simp_all

lemma horner_0: "horner cs 0 = (case cs of [] \<Rightarrow> 0 | c # _ \<Rightarrow> c)"
  by (cases cs) simp_all

fun horner_add :: "int list \<Rightarrow> int list \<Rightarrow> int list" where
  "horner_add [] ds = ds"
| "horner_add cs [] = cs"
| "horner_add (c # cs) (d # ds) = (c + d) # horner_add cs ds"

lemma horner_horner_add: "horner (horner_add cs ds) x = horner cs x + horner ds x"
  by (induction cs ds rule: horner_add.induct) (simp_all add: algebra_simps)

lemma length_horner_add: "length (horner_add cs ds) = max (length cs) (length ds)"
  by (induction cs ds rule: horner_add.induct) simp_all

lemma horner_cgr: "list_all2 (cgr p) cs ds \<Longrightarrow> cgr p (horner cs x) (horner ds x)"
  by (induction cs ds rule: list_all2_induct) (auto intro: cgr_add cgr_mult_left)

end
