(* ===== verification/Scalars.thy ===== *)
theory Scalars
  imports Codec Modular "HOL-Library.Signed_Division"
begin

text \<open>
  The scalar arithmetic of \<open>backend/src/crypto/threshold.ts\<close>: reduction modulo the
  group order, the 64-digit hex form of a scalar, inversion by Fermat and the Lagrange
  coefficients at zero.  The group order \<open>L = Point.Fn.ORDER\<close> comes from the curve
  library and is an argument of every definition; what the code relies on (it is a
  prime of at most 256 bits) is a hypothesis of the lemmas.

  JavaScript's \<open>%\<close> on a \<open>BigInt\<close> takes the sign of the dividend, which is \<open>smod\<close>.
\<close>

section \<open>Reduction and the hexadecimal form\<close>

definition modL :: "int \<Rightarrow> int \<Rightarrow> int" where
  "modL L a = (a smod L + L) smod L"

definition scalarToHex :: "int \<Rightarrow> jsstring" where
  "scalarToHex s = padStart 64 48 (int_to_string 16 s)"

definition hexToScalar :: "int \<Rightarrow> jsstring \<Rightarrow> error + int" where
  "hexToScalar L h =
     (if \<not> (length h = 64 \<and> list_all is_hex h) then Inl MalformedScalar
      else ebind (BigInt_hex h) (\<lambda>s. if s \<le> 0 \<or> s \<ge> L then Inl ScalarOutOfRange else Inr s))"

lemma smod_nonneg: "0 \<le> a \<Longrightarrow> 0 < b \<Longrightarrow> a smod b = a mod (b :: int)"
  by (cases "a = 0") (simp_all add: signed_modulo_int_def)

lemma smod_neg: "a < 0 \<Longrightarrow> 0 < b \<Longrightarrow> a smod b = - ((- a) mod (b :: int))"
  by (simp add: signed_modulo_int_def)

lemma smod_range: "0 < b \<Longrightarrow> - b < a smod b \<and> a smod b < (b :: int)"
  using pos_mod_bound [of b a] pos_mod_sign [of b a] pos_mod_bound [of b "- a"] pos_mod_sign [of b "- a"]
  by (cases "a < 0") (auto simp add: smod_neg smod_nonneg simp del: pos_mod_sign pos_mod_bound)

lemma smod_cgr: "0 < b \<Longrightarrow> cgr b (a smod b) a"
proof -
  assume "0 < b"
  then show ?thesis by (cases "a < 0") (simp_all add: smod_neg smod_nonneg mod_minus_eq)
qed

lemma modL_mod: "0 < L \<Longrightarrow> modL L a = a mod L"
proof -
  assume L: "0 < L"
  then have "0 \<le> a smod L + L" using smod_range [of L a] by simp
  then have "modL L a = (a smod L + L) mod L" using L by (simp add: modL_def smod_nonneg)
  also have "\<dots> = a mod L" using smod_cgr [OF L, of a] by simp
  finally show ?thesis .
qed

lemma modL_range: "0 < L \<Longrightarrow> 0 \<le> modL L a \<and> modL L a < L"
  by (simp add: modL_mod)

lemma modL_idem [simp]: "0 < L \<Longrightarrow> modL L (modL L a) = modL L a"
  by (simp add: modL_mod)

lemma scalarToHex_digits:
  assumes "0 \<le> s" and "s < 16 ^ 64"
  shows "length (scalarToHex s) = 64" "list_all is_hex (scalarToHex s)"
    "hex_value (scalarToHex s) = nat s"
proof -
  have "length (radix_digits 16 (nat s)) \<le> 64"
    using assms by (intro radix_digits_length_le) (simp_all add: nat_less_iff)
  then show "length (scalarToHex s) = 64"
    using assms by (simp add: scalarToHex_def length_padStart int_to_string_def nat_to_string_def)
  show "list_all is_hex (scalarToHex s)"
    using assms nat_to_string_hex
    by (auto simp: scalarToHex_def padStart_def int_to_string_def list_all_iff is_hex_48)
  show "hex_value (scalarToHex s) = nat s"
    using assms hex_value_zeros [of _ "nat_to_string 16 (nat s)"]
    by (simp add: scalarToHex_def padStart_def int_to_string_def hex_value_nat_to_string digit_unit_0)
qed

lemma hexToScalar_scalarToHex:
  assumes "0 < s" and "s < L" and "L \<le> 16 ^ 64"
  shows "hexToScalar L (scalarToHex s) = Inr s"
proof -
  have s: "0 \<le> s" "s < 16 ^ 64" using assms by linarith+
  have "scalarToHex s \<noteq> []" using scalarToHex_digits(1) [OF s] by auto
  then show ?thesis
    using scalarToHex_digits [OF s] assms by (simp add: hexToScalar_def BigInt_hex_digits)
qed

lemma hexToScalar_Inr:
  "hexToScalar L h = Inr s \<longleftrightarrow>
     length h = 64 \<and> list_all is_hex h \<and> s = int (hex_value h) \<and> 0 < s \<and> s < L"
proof -
  have "length h = 64 \<Longrightarrow> h \<noteq> []" by auto
  then show ?thesis by (auto simp: hexToScalar_def BigInt_hex_digits)
qed

lemma hexToScalar_range: "hexToScalar L h = Inr s \<Longrightarrow> 0 < s \<and> s < L"
  by (simp add: hexToScalar_Inr)

interpretation scalar: codec scalarToHex "hexToScalar L" "\<lambda>s. 0 < s \<and> s < L \<and> L \<le> 16 ^ 64" for L
  by unfold_locales (blast intro: hexToScalar_scalarToHex)

section \<open>\<open>modInverse\<close>\<close>

text \<open>The square-and-multiply loop of \<open>modInverse\<close>.\<close>

function inverse_loop :: "int \<Rightarrow> int \<Rightarrow> int \<Rightarrow> int \<Rightarrow> int" where
  "inverse_loop L result base e =
     (if e > 0
      then inverse_loop L (if e mod 2 = 1 then (result * base) smod L else result)
             ((base * base) smod L) (e div 2)
      else result)"
  by pat_completeness auto
termination
  by (relation "measure (\<lambda>(L, result, base, e). nat e)") auto

declare inverse_loop.simps [simp del]

definition modInverse :: "int \<Rightarrow> int \<Rightarrow> int" where
  "modInverse L a = inverse_loop L 1 (modL L a) (L - 2)"

lemma inverse_loop_power:
  assumes "1 < L" "0 \<le> result" "result < L" "0 \<le> base" "base < L"
  shows "cgr L (inverse_loop L result base e) (result * base ^ nat e)
    \<and> 0 \<le> inverse_loop L result base e \<and> inverse_loop L result base e < L"
  using assms
proof (induction L result base e rule: inverse_loop.induct)
  case (1 L result base e)
  show ?case
  proof (cases "0 < e")
    case False
    with 1 show ?thesis by (simp add: inverse_loop.simps [of L result base e])
  next
    case True
    let ?r = "if e mod 2 = 1 then (result * base) smod L else result"
    let ?b = "(base * base) smod L"
    have b: "?b = (base * base) mod L" and r: "?r = (if e mod 2 = 1 then (result * base) mod L else result)"
      using "1.prems" by (simp_all add: smod_nonneg)
    have "cgr L (inverse_loop L ?r ?b (e div 2)) (?r * ?b ^ nat (e div 2))
      \<and> 0 \<le> inverse_loop L ?r ?b (e div 2) \<and> inverse_loop L ?r ?b (e div 2) < L"
      using "1.prems" by (intro "1.IH" [OF True]) (simp_all add: r b)
    moreover have "cgr L (?r * ?b ^ nat (e div 2)) (result * base ^ nat e)"
    proof -
      have e: "nat e = 2 * nat (e div 2) + (if e mod 2 = 1 then 1 else 0)"
        using True by (auto simp: nat_eq_iff) presburger+
      have "cgr L (?b ^ nat (e div 2)) ((base * base) ^ nat (e div 2))"
        by (simp add: b power_mod)
      moreover have "cgr L ?r (result * base ^ (if e mod 2 = 1 then 1 else 0))"
        by (simp add: r)
      ultimately have "cgr L (?r * ?b ^ nat (e div 2))
          ((result * base ^ (if e mod 2 = 1 then 1 else 0)) * (base * base) ^ nat (e div 2))"
        by (intro cgr_mult)
      then show ?thesis
        by (simp only: e power_add power_mult power2_eq_square mult.assoc mult.commute mult.left_commute)
    qed
    ultimately show ?thesis
      using True by (simp add: inverse_loop.simps [of L result base e])
  qed
qed

lemma modInverse_range: "1 < L \<Longrightarrow> 0 \<le> modInverse L a \<and> modInverse L a < L"
  using inverse_loop_power [of L 1 "modL L a" "L - 2"] modL_range [of L a]
  by (simp add: modInverse_def)

lemma modInverse_inverse:
  assumes "prime_int L" and "\<not> L dvd a"
  shows "a * modInverse L a mod L = 1"
proof -
  have L: "1 < L" using assms(1) by (rule prime_int_gt_1)
  have "cgr L (modInverse L a) (modL L a ^ nat (L - 2))"
    using inverse_loop_power [of L 1 "modL L a" "L - 2"] modL_range [of L a] L
    by (simp add: modInverse_def)
  then have "cgr L (modInverse L a) (a ^ nat (L - 2))"
    using L by (simp add: modL_mod power_mod)
  then have "cgr L (a * modInverse L a) (a * a ^ nat (L - 2))" by (rule cgr_mult_left)
  also have "a * a ^ nat (L - 2) = a ^ nat (L - 1)"
  proof -
    have "nat (L - 1) = Suc (nat (L - 2))" using L by simp
    then show ?thesis by simp
  qed
  also have "a ^ nat (L - 1) mod L = 1" using assms by (rule fermat_little)
  finally show ?thesis using L by simp
qed


section \<open>Lagrange coefficients\<close>

text \<open>
  \<open>lagrangeAtZero\<close>: the loop over the index set carries numerator and denominator;
  the share's own index is skipped.
\<close>

definition lagrange_step :: "int \<Rightarrow> int \<Rightarrow> int \<times> int \<Rightarrow> int \<Rightarrow> int \<times> int" where
  "lagrange_step L i acc j =
     (if j = i then acc else (modL L (fst acc * j), modL L (snd acc * (j - i))))"

definition lagrangeAtZero :: "int \<Rightarrow> int \<Rightarrow> int list \<Rightarrow> int" where
  "lagrangeAtZero L i indices =
     (let (num, den) = foldl (lagrange_step L i) (1, 1) indices
      in modL L (num * modInverse L den))"

definition lag_num :: "int \<Rightarrow> int list \<Rightarrow> int" where
  "lag_num i xs = prod_list (map (\<lambda>j. if j = i then 1 else j) xs)"

definition lag_den :: "int \<Rightarrow> int list \<Rightarrow> int" where
  "lag_den i xs = prod_list (map (\<lambda>j. if j = i then 1 else j - i) xs)"

lemma lagrange_fold:
  assumes "1 < L"
  shows "foldl (lagrange_step L i) (modL L a, modL L b) xs
    = (modL L (a * lag_num i xs), modL L (b * lag_den i xs))"
proof (induction xs arbitrary: a b)
  case (Cons x xs)
  have L: "0 < L" using assms by simp
  have "lagrange_step L i (modL L a, modL L b) x
      = (modL L (if x = i then a else a * x), modL L (if x = i then b else b * (x - i)))"
    using L by (simp add: lagrange_step_def modL_mod mod_mult_left_eq)
  then have "foldl (lagrange_step L i) (modL L a, modL L b) (x # xs)
      = foldl (lagrange_step L i)
          (modL L (if x = i then a else a * x), modL L (if x = i then b else b * (x - i))) xs"
    by simp
  then show ?case by (simp only: Cons.IH) (simp add: lag_num_def lag_den_def mult.assoc)
qed (simp add: lag_num_def lag_den_def)

lemma modL_1: "1 < L \<Longrightarrow> modL L 1 = 1"
  by (simp add: modL_mod)

lemma lagrangeAtZero_eq:
  "1 < L \<Longrightarrow> lagrangeAtZero L i xs
     = modL L (modL L (lag_num i xs) * modInverse L (modL L (lag_den i xs)))"
  using lagrange_fold [of L i 1 1 xs] by (simp add: lagrangeAtZero_def modL_1)

lemma lagrangeAtZero_range: "1 < L \<Longrightarrow> 0 \<le> lagrangeAtZero L i xs \<and> lagrangeAtZero L i xs < L"
  by (simp add: lagrangeAtZero_eq modL_range)

text \<open>Indices that stay distinct modulo \<open>L\<close>; the code's are \<open>1..n\<close> with \<open>n < L\<close>.\<close>

definition distinct_mod :: "int \<Rightarrow> int list \<Rightarrow> bool" where
  "distinct_mod L xs \<longleftrightarrow> distinct (map (\<lambda>x. x mod L) xs)"

lemma distinct_mod_Cons:
  "distinct_mod L (x # xs) \<longleftrightarrow> (\<forall>y \<in> set xs. \<not> L dvd y - x) \<and> distinct_mod L xs"
proof -
  have "x mod L \<notin> (\<lambda>y. y mod L) ` set xs \<longleftrightarrow> (\<forall>y \<in> set xs. \<not> cgr L y x)"
    by (metis (no_types, lifting) image_iff)
  then show ?thesis by (simp add: distinct_mod_def cgr_dvd)
qed

lemma distinct_mod_swap: "distinct_mod L (x # y # zs) \<longleftrightarrow> distinct_mod L (y # x # zs)"
  by (auto simp: distinct_mod_def)

lemma distinct_mod_notin: "distinct_mod L (x # xs) \<Longrightarrow> x \<notin> set xs"
  by (auto simp: distinct_mod_Cons)

lemma lag_den_unit:
  "prime_int L \<Longrightarrow> distinct_mod L xs \<Longrightarrow> i \<in> set xs \<Longrightarrow> \<not> L dvd lag_den i xs"
proof -
  assume L: "prime_int L" and "distinct_mod L xs" and i: "i \<in> set xs"
  then have "\<forall>y \<in> set xs. y \<noteq> i \<longrightarrow> \<not> L dvd y - i"
    by (auto simp: distinct_mod_def distinct_map inj_on_def mod_eq_dvd_iff)
  then show ?thesis
  proof (induction xs)
    case Nil
    then show ?case using prime_int_gt_1 [OF L] by (simp add: lag_den_def)
  next
    case (Cons x xs)
    then show ?case
      using prime_int_dvd_mult [OF L, of "x - i" "lag_den i xs"]
      by (auto simp: lag_den_def)
  qed
qed

lemma lagrange_den:
  assumes "prime_int L" and "distinct_mod L xs" and "i \<in> set xs"
  shows "cgr L (lagrangeAtZero L i xs * lag_den i xs) (lag_num i xs)"
proof -
  have L: "1 < L" using assms(1) by (rule prime_int_gt_1)
  let ?d = "modL L (lag_den i xs)"
  have d: "\<not> L dvd ?d"
    using lag_den_unit [OF assms] L by (simp add: modL_mod dvd_mod_iff)
  have "cgr L (lagrangeAtZero L i xs) (lag_num i xs * modInverse L ?d)"
    using L by (simp add: lagrangeAtZero_eq modL_mod mod_mult_left_eq)
  moreover have "cgr L (lag_den i xs) ?d" using L by (simp add: modL_mod)
  ultimately have "cgr L (lagrangeAtZero L i xs * lag_den i xs) ((lag_num i xs * modInverse L ?d) * ?d)"
    by (rule cgr_mult)
  then have "cgr L (lagrangeAtZero L i xs * lag_den i xs) (lag_num i xs * (?d * modInverse L ?d))"
    by (simp only: mult.assoc mult.commute mult.left_commute)
  also have "cgr L (lag_num i xs * (?d * modInverse L ?d)) (lag_num i xs * 1)"
    using modInverse_inverse [OF assms(1) d] L by (intro cgr_mult_left) simp
  finally show ?thesis by simp
qed

lemma lagrange_nonzero:
  assumes "prime_int L" and "distinct_mod L xs" and "i \<in> set xs" and "\<forall>x \<in> set xs. \<not> L dvd x"
  shows "0 < lagrangeAtZero L i xs"
proof (rule ccontr)
  have L: "1 < L" using assms(1) by (rule prime_int_gt_1)
  assume "\<not> 0 < lagrangeAtZero L i xs"
  then have "lagrangeAtZero L i xs = 0" using lagrangeAtZero_range [OF L, of i xs] by simp
  then have "L dvd lag_num i xs" using lagrange_den [OF assms(1-3)] by (simp add: mod_0_dvd)
  with assms(4) have False
  proof (induction xs)
    case Nil
    then show ?case using L by (simp add: lag_num_def)
  next
    case (Cons x xs)
    then show ?case
      using prime_int_dvd_mult [OF assms(1), of x "lag_num i xs"]
      by (auto simp: lag_num_def split: if_splits)
  qed
  then show False .
qed

text \<open>The interpolation functional \<open>g \<mapsto> \<Sum>i. \<lambda>\<^sub>i * g i\<close>.\<close>

definition interp :: "int \<Rightarrow> int list \<Rightarrow> (int \<Rightarrow> int) \<Rightarrow> int" where
  "interp L xs g = sum_list (map (\<lambda>i. lagrangeAtZero L i xs * g i) xs)"

lemma interp_add: "interp L xs (\<lambda>x. g x + h x) = interp L xs g + interp L xs h"
  by (simp add: interp_def distrib_left sum_list_addf)

lemma interp_mult: "interp L xs (\<lambda>x. c * g x) = c * interp L xs g"
  by (simp add: interp_def sum_list_const_mult [symmetric] mult.left_commute)

lemma cgr_sum_list:
  "(\<And>x. x \<in> set xs \<Longrightarrow> cgr p (f x) (g x)) \<Longrightarrow> cgr p (sum_list (map f xs)) (sum_list (map g xs))"
  by (induction xs) (auto intro!: cgr_add)

lemma lagrange_Cons:
  assumes "prime_int L" and "distinct_mod L (x # ys)" and "i \<in> set ys"
  shows "cgr L (lagrangeAtZero L i (x # ys) * (x - i)) (x * lagrangeAtZero L i ys)"
proof -
  have ys: "distinct_mod L ys" and ne: "x \<noteq> i"
    using assms(2,3) distinct_mod_notin [OF assms(2)] by (auto simp: distinct_mod_Cons)
  have "cgr L (lagrangeAtZero L i (x # ys) * lag_den i (x # ys)) (lag_num i (x # ys))"
    using assms by (intro lagrange_den) simp_all
  then have "cgr L (lagrangeAtZero L i (x # ys) * (x - i) * lag_den i ys) (x * lag_num i ys)"
    using ne by (simp add: lag_den_def lag_num_def mult.assoc)
  also have "cgr L (x * lag_num i ys) (x * (lagrangeAtZero L i ys * lag_den i ys))"
    using lagrange_den [OF assms(1) ys assms(3)] by (intro cgr_mult_left) simp
  finally have "cgr L (lag_den i ys * (lagrangeAtZero L i (x # ys) * (x - i)))
      (lag_den i ys * (x * lagrangeAtZero L i ys))"
    by (simp only: mult.assoc mult.commute mult.left_commute)
  then show ?thesis by (rule cgr_cancel [OF assms(1) lag_den_unit [OF assms(1) ys assms(3)]])
qed

lemma interp_factor:
  assumes "prime_int L" and "distinct_mod L (x # ys)"
  shows "cgr L (interp L (x # ys) (\<lambda>i. (x - i) * h i)) (x * interp L ys h)"
proof -
  have "interp L (x # ys) (\<lambda>i. (x - i) * h i)
      = sum_list (map (\<lambda>i. (lagrangeAtZero L i (x # ys) * (x - i)) * h i) ys)"
    by (simp add: interp_def mult.assoc)
  also have "cgr L \<dots> (sum_list (map (\<lambda>i. (x * lagrangeAtZero L i ys) * h i) ys))"
    by (intro cgr_sum_list cgr_mult_right lagrange_Cons assms)
  also have "sum_list (map (\<lambda>i. (x * lagrangeAtZero L i ys) * h i) ys) = x * interp L ys h"
    by (simp add: interp_def sum_list_const_mult [symmetric] mult.assoc)
  finally show ?thesis .
qed

lemma interp_swap: "1 < L \<Longrightarrow> interp L (x # y # zs) g = interp L (y # x # zs) g"
  by (simp add: interp_def lagrangeAtZero_eq lag_num_def lag_den_def mult.left_commute)


section \<open>Interpolation at zero\<close>

text \<open>
  A polynomial of degree below the number of indices is determined at zero by its
  values on them: with \<open>g x = g x0 + (x - x0) * q x\<close> it is enough to treat a constant
  and a multiple of \<open>x0 - x\<close>, and the second reduces to one index less.
\<close>

lemma interp_cong: "(\<And>i. g i = h i) \<Longrightarrow> interp L xs g = interp L xs h"
  by (simp add: interp_def)

lemma interp_const: "interp L xs (\<lambda>x. c) = c * interp L xs (\<lambda>x. 1)"
  using interp_mult [of L xs c "\<lambda>x. 1"] by simp

lemma interp_one_step:
  assumes "prime_int L" and "distinct_mod L (x # ys)" and "cgr L (interp L ys (\<lambda>x. 1)) 1"
  shows "cgr L (x * interp L (x # ys) (\<lambda>x. 1) - interp L (x # ys) (\<lambda>x. x)) x"
proof -
  have "x * interp L (x # ys) (\<lambda>x. 1) - interp L (x # ys) (\<lambda>x. x)
      = interp L (x # ys) (\<lambda>i. (x - i) * 1)"
    using interp_add [of L "x # ys" "\<lambda>i. x" "\<lambda>i. - 1 * i"] interp_const [of L "x # ys" x]
      interp_mult [of L "x # ys" "- 1" "\<lambda>i. i"]
    by (simp add: algebra_simps)
  also have "cgr L (interp L (x # ys) (\<lambda>i. (x - i) * 1)) (x * interp L ys (\<lambda>i. 1))"
    using assms by (intro interp_factor)
  also have "cgr L (x * interp L ys (\<lambda>i. 1)) (x * 1)"
    using assms(3) by (rule cgr_mult_left)
  finally show ?thesis by simp
qed

lemma interp_single: "1 < L \<Longrightarrow> cgr L (interp L [x] g) (g x)"
  using modInverse_range [of L 1] inverse_loop_power [of L 1 1 "L - 2"]
  by (simp add: interp_def lagrangeAtZero_eq lag_num_def lag_den_def modL_1 modInverse_def)
    (simp add: modL_mod mod_mult_left_eq mult.commute)

lemma distinct_mod_sub: "distinct_mod L (x # y # zs) \<Longrightarrow> distinct_mod L (x # zs)"
  by (simp add: distinct_mod_Cons)

lemma interp_one:
  assumes "prime_int L" and "distinct_mod L xs" and "xs \<noteq> []"
  shows "cgr L (interp L xs (\<lambda>x. 1)) 1"
  using assms(2,3)
proof (induction "length xs" arbitrary: xs rule: less_induct)
  case less
  have L: "1 < L" using assms(1) by (rule prime_int_gt_1)
  show ?case
  proof (cases xs rule: remdups_adj.cases)
    case (2 x)
    then show ?thesis using interp_single [OF L, of x "\<lambda>x. 1"] by simp
  next
    case (3 x y zs)
    let ?one = "interp L xs (\<lambda>x. 1)" and ?id = "interp L xs (\<lambda>x. x)"
    have dx: "distinct_mod L (x # y # zs)" and dy: "distinct_mod L (y # x # zs)"
      using less.prems 3 by (simp_all add: distinct_mod_swap)
    have "cgr L (interp L (y # zs) (\<lambda>x. 1)) 1" "cgr L (interp L (x # zs) (\<lambda>x. 1)) 1"
      using less.hyps 3 dx distinct_mod_sub [OF dx] by (simp_all add: distinct_mod_Cons)
    then have "cgr L (x * ?one - ?id) x" "cgr L (y * ?one - ?id) y"
      using interp_one_step [OF assms(1) dx] interp_one_step [OF assms(1) dy] 3
      by (simp_all add: interp_swap [OF L, of x y])
    then have "cgr L ((x * ?one - ?id) - (y * ?one - ?id)) (x - y)" by (rule cgr_diff)
    then have "cgr L ((x - y) * ?one) ((x - y) * 1)" by (simp add: algebra_simps)
    moreover have "\<not> L dvd x - y"
      using dx by (simp add: distinct_mod_Cons dvd_diff_commute)
    ultimately show ?thesis using cgr_cancel [OF assms(1)] by blast
  qed (use less.prems in simp)
qed

theorem interpolation_at_zero:
  assumes "prime_int L" and "distinct_mod L xs" and "xs \<noteq> []" and "length cs \<le> length xs"
  shows "cgr L (interp L xs (horner cs)) (horner cs 0)"
  using assms(2-4)
proof (induction xs arbitrary: cs)
  case (Cons x ys)
  have L: "1 < L" using assms(1) by (rule prime_int_gt_1)
  let ?q = "horner_quot cs x"
  have split: "horner cs i = horner cs x + - 1 * ((x - i) * horner ?q i)" for i
    using horner_division [of cs i x] by (simp add: algebra_simps)
  have "interp L (x # ys) (horner cs)
      = interp L (x # ys) (\<lambda>i. horner cs x) - interp L (x # ys) (\<lambda>i. (x - i) * horner ?q i)"
    using interp_add [of L "x # ys" "\<lambda>i. horner cs x" "\<lambda>i. - 1 * ((x - i) * horner ?q i)"]
      interp_mult [of L "x # ys" "- 1" "\<lambda>i. (x - i) * horner ?q i"]
    by (subst interp_cong [OF split]) simp
  also have "cgr L \<dots> (horner cs x - x * horner ?q 0)"
  proof (rule cgr_diff)
    have "cgr L (interp L (x # ys) (\<lambda>x. 1)) 1"
      using interp_one [OF assms(1) Cons.prems(1)] by simp
    then show "cgr L (interp L (x # ys) (\<lambda>i. horner cs x)) (horner cs x)"
      using cgr_mult_left [of _ L 1 "horner cs x"] by (simp add: interp_const [of L _ "horner cs x"])
    have "cgr L (interp L ys (horner ?q)) (horner ?q 0)"
    proof (cases "ys = []")
      case True
      then have "?q = []" using Cons.prems(3) by (cases cs) (auto intro: horner_quot.elims)
      then show ?thesis using True by (simp add: interp_def)
    next
      case False
      then show ?thesis using Cons.IH [of ?q] Cons.prems
        by (simp add: distinct_mod_Cons length_horner_quot)
    qed
    then have "cgr L (x * interp L ys (horner ?q)) (x * horner ?q 0)" by (rule cgr_mult_left)
    then show "cgr L (interp L (x # ys) (\<lambda>i. (x - i) * horner ?q i)) (x * horner ?q 0)"
      using interp_factor [OF assms(1) Cons.prems(1), of "horner ?q"] by simp
  qed
  also have "horner cs x - x * horner ?q 0 = horner cs 0"
    using split [of 0] by simp
  finally show ?case .
qed simp

end
