(* ===== verification/Curve.thy ===== *)
theory Curve
  imports Scalars
begin

text \<open>
  The group ristretto255 as the program uses it.  \<open>Point\<close> is an object of
  \<open>@noble/curves\<close>, which is not part of the repository, so it is a parameter: a record
  of its operations, an argument of every definition that touches a point.  What the
  code relies on is the predicate \<open>curve_laws\<close>: the points form a cyclic group of
  prime order with generator \<open>BASE\<close>, \<open>multiply\<close> accepts the scalars \<open>1 \<le> k < L\<close> and
  \<open>multiplyUnsafe\<close> also \<open>0\<close>, and encodings are canonical 32-byte strings.
\<close>

section \<open>The interface\<close>

record 'p curve =
  grp_order :: int
  pt_ZERO :: 'p
  pt_BASE :: 'p
  pt_add :: "'p \<Rightarrow> 'p \<Rightarrow> 'p"
  pt_multiply :: "'p \<Rightarrow> int \<Rightarrow> error + 'p"
  pt_multiplyUnsafe :: "'p \<Rightarrow> int \<Rightarrow> error + 'p"
  pt_toBytes :: "'p \<Rightarrow> byte list"
  pt_fromBytes :: "byte list \<Rightarrow> error + 'p"
  pt_toHex :: "'p \<Rightarrow> jsstring"
  pt_fromHex :: "jsstring \<Rightarrow> error + 'p"

text \<open>The \<open>n\<close>-fold sum of a point.\<close>

definition nsmul :: "'p curve \<Rightarrow> nat \<Rightarrow> 'p \<Rightarrow> 'p" where
  "nsmul C n P = (pt_add C P ^^ n) (pt_ZERO C)"

definition group_laws :: "'p curve \<Rightarrow> bool" where
  "group_laws C \<longleftrightarrow>
     (\<forall>P Q S. pt_add C (pt_add C P Q) S = pt_add C P (pt_add C Q S)) \<and>
     (\<forall>P Q. pt_add C P Q = pt_add C Q P) \<and>
     (\<forall>P. pt_add C (pt_ZERO C) P = P) \<and>
     (\<forall>P. nsmul C (nat (grp_order C)) P = pt_ZERO C) \<and>
     (\<forall>P. \<exists>k. P = nsmul C k (pt_BASE C)) \<and>
     pt_BASE C \<noteq> pt_ZERO C"

definition multiply_laws :: "'p curve \<Rightarrow> bool" where
  "multiply_laws C \<longleftrightarrow>
     (\<forall>P k. pt_multiply C P k =
        (if 1 \<le> k \<and> k < grp_order C then Inr (nsmul C (nat k) P) else Inl InvalidScalar)) \<and>
     (\<forall>P k. pt_multiplyUnsafe C P k =
        (if 0 \<le> k \<and> k < grp_order C then Inr (nsmul C (nat k) P) else Inl InvalidScalar))"

definition encoding_laws :: "'p curve \<Rightarrow> bool" where
  "encoding_laws C \<longleftrightarrow>
     (\<forall>P. length (pt_toBytes C P) = 32 \<and> pt_fromBytes C (pt_toBytes C P) = Inr P) \<and>
     (\<forall>b P. pt_fromBytes C b = Inr P \<longrightarrow> pt_toBytes C P = b) \<and>
     (\<forall>P. pt_toHex C P = bytesToHex (pt_toBytes C P)) \<and>
     (\<forall>b. pt_fromHex C (bytesToHex b) = pt_fromBytes C b)"

definition curve_laws :: "'p curve \<Rightarrow> bool" where
  "curve_laws C \<longleftrightarrow> prime_int (grp_order C) \<and> grp_order C \<le> 16 ^ 64 \<and>
     group_laws C \<and> multiply_laws C \<and> encoding_laws C"

section \<open>Scalar multiplication over the integers\<close>

text \<open>\<open>smul C k P\<close> is \<open>k\<cdot>P\<close> for any integer \<open>k\<close>, read modulo the group order.\<close>

definition smul :: "'p curve \<Rightarrow> int \<Rightarrow> 'p \<Rightarrow> 'p" where
  "smul C k P = nsmul C (nat (k mod grp_order C)) P"

named_theorems curve

lemma curve_order: "curve_laws C \<Longrightarrow> prime_int (grp_order C)"
  by (simp add: curve_laws_def)

lemma curve_order_gt_1: "curve_laws C \<Longrightarrow> 1 < grp_order C"
  by (simp add: curve_order prime_int_gt_1)

lemma curve_order_le: "curve_laws C \<Longrightarrow> grp_order C \<le> 16 ^ 64"
  by (simp add: curve_laws_def)

lemma pt_add_assoc: "curve_laws C \<Longrightarrow> pt_add C (pt_add C P Q) S = pt_add C P (pt_add C Q S)"
  unfolding curve_laws_def group_laws_def by blast

lemma pt_add_commute: "curve_laws C \<Longrightarrow> pt_add C P Q = pt_add C Q P"
  unfolding curve_laws_def group_laws_def by blast

lemma pt_add_ZERO [curve]:
  "curve_laws C \<Longrightarrow> pt_add C (pt_ZERO C) P = P"
  "curve_laws C \<Longrightarrow> pt_add C P (pt_ZERO C) = P"
  unfolding curve_laws_def group_laws_def by metis+

lemma BASE_not_ZERO: "curve_laws C \<Longrightarrow> pt_BASE C \<noteq> pt_ZERO C"
  unfolding curve_laws_def group_laws_def by blast

lemma nsmul_order: "curve_laws C \<Longrightarrow> nsmul C (nat (grp_order C)) P = pt_ZERO C"
  unfolding curve_laws_def group_laws_def by blast

lemma nsmul_0: "nsmul C 0 P = pt_ZERO C"
  by (simp add: nsmul_def)

lemma nsmul_Suc: "nsmul C (Suc n) P = pt_add C P (nsmul C n P)"
  by (simp add: nsmul_def)

lemma nsmul_add: "curve_laws C \<Longrightarrow> nsmul C (m + n) P = pt_add C (nsmul C m P) (nsmul C n P)"
  by (induction m) (simp_all add: nsmul_0 nsmul_Suc pt_add_assoc curve)

lemma nsmul_mult: "curve_laws C \<Longrightarrow> nsmul C (m * n) P = nsmul C m (nsmul C n P)"
  by (induction m) (simp_all add: nsmul_0 nsmul_Suc nsmul_add)

lemma nsmul_ZERO: "curve_laws C \<Longrightarrow> nsmul C n (pt_ZERO C) = pt_ZERO C"
  by (induction n) (simp_all add: nsmul_0 nsmul_Suc curve)

lemma nsmul_mod: "curve_laws C \<Longrightarrow> nsmul C (n mod nat (grp_order C)) P = nsmul C n P"
proof -
  assume C: "curve_laws C"
  let ?L = "nat (grp_order C)"
  have "nsmul C n P = nsmul C (n div ?L * ?L + n mod ?L) P" by simp
  also have "\<dots> = pt_add C (nsmul C (n div ?L) (nsmul C ?L P)) (nsmul C (n mod ?L) P)"
    by (simp only: nsmul_add [OF C] nsmul_mult [OF C])
  also have "\<dots> = nsmul C (n mod ?L) P"
    using C by (simp add: nsmul_order nsmul_ZERO curve)
  finally show ?thesis by simp
qed

lemma smul_nat: "curve_laws C \<Longrightarrow> 0 \<le> k \<Longrightarrow> smul C k P = nsmul C (nat k) P"
  using nsmul_mod [of C "nat k" P] curve_order_gt_1 [of C] by (simp add: smul_def nat_mod_distrib)

lemma smul_cgr: "cgr (grp_order C) k m \<Longrightarrow> smul C k P = smul C m P"
  by (simp add: smul_def)

lemma smul_mod [curve]: "smul C (k mod grp_order C) P = smul C k P"
  by (simp add: smul_def)

lemma smul_0 [curve]: "smul C 0 P = pt_ZERO C"
  by (simp add: smul_def nsmul_0)

lemma smul_1 [curve]: "curve_laws C \<Longrightarrow> smul C 1 P = P"
  using curve_order_gt_1 [of C] by (simp add: smul_nat nsmul_def curve)

lemma smul_ZERO [curve]: "curve_laws C \<Longrightarrow> smul C k (pt_ZERO C) = pt_ZERO C"
  by (simp add: smul_def nsmul_ZERO)

lemma smul_add: "curve_laws C \<Longrightarrow> smul C (k + m) P = pt_add C (smul C k P) (smul C m P)"
proof -
  assume C: "curve_laws C"
  let ?L = "grp_order C"
  have "smul C (k + m) P = smul C (k mod ?L + m mod ?L) P"
    by (intro smul_cgr) (simp add: mod_add_eq)
  also have "\<dots> = nsmul C (nat (k mod ?L) + nat (m mod ?L)) P"
    using C curve_order_gt_1 [OF C] by (subst smul_nat) (simp_all add: nat_add_distrib)
  finally show ?thesis using C by (simp add: nsmul_add smul_def)
qed

lemma smul_smul: "curve_laws C \<Longrightarrow> smul C k (smul C m P) = smul C (k * m) P"
proof -
  assume C: "curve_laws C"
  let ?L = "grp_order C"
  have "smul C (k * m) P = smul C ((k mod ?L) * (m mod ?L)) P"
    by (intro smul_cgr) (simp add: mod_mult_eq)
  also have "\<dots> = nsmul C (nat (k mod ?L) * nat (m mod ?L)) P"
    using C curve_order_gt_1 [OF C] by (subst smul_nat) (simp_all add: nat_mult_distrib)
  finally show ?thesis using C by (simp add: nsmul_mult smul_def)
qed

lemma smul_add_point: "curve_laws C \<Longrightarrow> smul C k (pt_add C P Q) = pt_add C (smul C k P) (smul C k Q)"
proof -
  assume C: "curve_laws C"
  have "nsmul C n (pt_add C P Q) = pt_add C (nsmul C n P) (nsmul C n Q)" for n
  proof (induction n)
    case (Suc n)
    then show ?case
      using C by (simp add: nsmul_Suc pt_add_assoc) (metis pt_add_assoc pt_add_commute)
  qed (simp add: nsmul_0 curve C)
  then show ?thesis by (simp add: smul_def)
qed

lemma dlog: "curve_laws C \<Longrightarrow> \<exists>k. P = smul C k (pt_BASE C)"
proof -
  assume C: "curve_laws C"
  then obtain n where "P = nsmul C n (pt_BASE C)"
    unfolding curve_laws_def group_laws_def by blast
  then have "P = smul C (int n) (pt_BASE C)" using C by (simp add: smul_nat)
  then show ?thesis ..
qed

lemma smul_eq_ZERO:
  assumes C: "curve_laws C" and "smul C k P = pt_ZERO C" and "\<not> grp_order C dvd k"
  shows "P = pt_ZERO C"
proof -
  let ?L = "grp_order C"
  have "P = smul C (modInverse ?L k * k) P"
    using modInverse_inverse [OF curve_order [OF C] assms(3)] smul_1 [OF C, of P]
    by (metis mult.commute smul_mod)
  also have "\<dots> = smul C (modInverse ?L k) (smul C k P)" using C by (simp add: smul_smul)
  finally show ?thesis using assms(2) C by (simp add: smul_ZERO)
qed

lemma smul_inj:
  assumes C: "curve_laws C" and "P \<noteq> pt_ZERO C"
  shows "smul C k P = smul C m P \<longleftrightarrow> cgr (grp_order C) k m"
proof
  assume eq: "smul C k P = smul C m P"
  have "smul C (k - m) P = pt_add C (smul C k P) (smul C (- m) P)"
    using smul_add [OF C, of k "- m" P] by simp
  also have "\<dots> = smul C (m + - m) P" by (simp only: eq smul_add [OF C])
  finally have "smul C (k - m) P = pt_ZERO C" by (simp add: smul_0)
  then show "cgr (grp_order C) k m" using smul_eq_ZERO [OF C] assms(2) by (auto simp: cgr_dvd)
qed (rule smul_cgr)

lemma smul_BASE_inj:
  "curve_laws C \<Longrightarrow> smul C k (pt_BASE C) = smul C m (pt_BASE C) \<longleftrightarrow> cgr (grp_order C) k m"
  by (intro smul_inj BASE_not_ZERO)

lemma smul_nonzero:
  "curve_laws C \<Longrightarrow> P \<noteq> pt_ZERO C \<Longrightarrow> \<not> grp_order C dvd k \<Longrightarrow> smul C k P \<noteq> pt_ZERO C"
  using smul_eq_ZERO [of C k P] by argo

lemma multiply_smul:
  "curve_laws C \<Longrightarrow> pt_multiply C P k =
     (if 1 \<le> k \<and> k < grp_order C then Inr (smul C k P) else Inl InvalidScalar)"
  by (simp add: curve_laws_def multiply_laws_def smul_nat)

lemma multiply_ok [curve]:
  "curve_laws C \<Longrightarrow> 0 < k \<Longrightarrow> k < grp_order C \<Longrightarrow> pt_multiply C P k = Inr (smul C k P)"
  by (simp add: multiply_smul)

lemma multiplyUnsafe_ok [curve]:
  "curve_laws C \<Longrightarrow> 0 \<le> k \<Longrightarrow> k < grp_order C \<Longrightarrow> pt_multiplyUnsafe C P k = Inr (smul C k P)"
  by (simp add: curve_laws_def multiply_laws_def smul_nat)

lemma fromBytes_toBytes [curve]: "curve_laws C \<Longrightarrow> pt_fromBytes C (pt_toBytes C P) = Inr P"
  unfolding curve_laws_def encoding_laws_def by blast

lemma length_toBytes [curve]: "curve_laws C \<Longrightarrow> length (pt_toBytes C P) = 32"
  unfolding curve_laws_def encoding_laws_def by blast

lemma toBytes_fromBytes: "curve_laws C \<Longrightarrow> pt_fromBytes C b = Inr P \<Longrightarrow> pt_toBytes C P = b"
  unfolding curve_laws_def encoding_laws_def by blast

lemma toHex_bytes: "curve_laws C \<Longrightarrow> pt_toHex C P = bytesToHex (pt_toBytes C P)"
  unfolding curve_laws_def encoding_laws_def by blast

lemma fromHex_bytesToHex [curve]: "curve_laws C \<Longrightarrow> pt_fromHex C (bytesToHex b) = pt_fromBytes C b"
  unfolding curve_laws_def encoding_laws_def by blast

lemma fromHex_toHex [curve]: "curve_laws C \<Longrightarrow> pt_fromHex C (pt_toHex C P) = Inr P"
  by (simp add: toHex_bytes curve)

lemma toHex_inj: "curve_laws C \<Longrightarrow> pt_toHex C P = pt_toHex C Q \<longleftrightarrow> P = Q"
  by (metis fromHex_toHex sum.inject(2))

lemma toBytes_inj: "curve_laws C \<Longrightarrow> pt_toBytes C P = pt_toBytes C Q \<longleftrightarrow> P = Q"
  by (metis fromBytes_toBytes sum.inject(2))

text \<open>Sums of points along a list.\<close>

definition pt_sum :: "'p curve \<Rightarrow> 'p list \<Rightarrow> 'p" where
  "pt_sum C Ps = foldl (pt_add C) (pt_ZERO C) Ps"

lemma foldl_pt_add: "curve_laws C \<Longrightarrow> foldl (pt_add C) A Ps = pt_add C A (pt_sum C Ps)"
proof (induction Ps arbitrary: A)
  case (Cons P Ps)
  have "pt_sum C (P # Ps) = foldl (pt_add C) (pt_add C (pt_ZERO C) P) Ps" by (simp add: pt_sum_def)
  also have "\<dots> = pt_add C P (pt_sum C Ps)"
    by (simp only: Cons.IH [OF Cons.prems] pt_add_ZERO [OF Cons.prems])
  finally show ?case
    by (simp add: Cons.IH [OF Cons.prems] pt_add_assoc [OF Cons.prems])
qed (simp add: pt_sum_def curve)

lemma pt_sum_Nil [simp]: "pt_sum C [] = pt_ZERO C"
  by (simp add: pt_sum_def)

lemma pt_sum_Cons: "curve_laws C \<Longrightarrow> pt_sum C (P # Ps) = pt_add C P (pt_sum C Ps)"
  using foldl_pt_add [of C "pt_add C (pt_ZERO C) P" Ps] by (simp add: pt_sum_def curve)

lemma pt_sum_smul:
  "curve_laws C \<Longrightarrow> pt_sum C (map (\<lambda>x. smul C (f x) P) xs) = smul C (sum_list (map f xs)) P"
  by (induction xs) (simp_all add: pt_sum_Cons smul_add smul_0)

lemma smul_pt_sum:
  "curve_laws C \<Longrightarrow> smul C k (pt_sum C Ps) = pt_sum C (map (smul C k) Ps)"
  by (induction Ps) (simp_all add: pt_sum_Cons smul_add_point smul_ZERO)

end
