(* ===== verification/Platform.thy ===== *)
theory Platform
  imports Curve
begin

text \<open>
  The cryptography the program takes from its platform, as parameters: WebCrypto's HKDF
  and AES-GCM, and hash functions.  The laws say what the standards promise about
  decryption; no secrecy or collision freedom is assumed globally, a lemma that needs a
  collision not to happen says which one.
\<close>

record webcrypto =
  hkdf_sha256 :: "byte list \<Rightarrow> byte list \<Rightarrow> byte list \<Rightarrow> byte list"
  aes_gcm_encrypt :: "byte list \<Rightarrow> byte list \<Rightarrow> byte list \<Rightarrow> byte list \<Rightarrow> byte list"
  aes_gcm_decrypt :: "byte list \<Rightarrow> byte list \<Rightarrow> byte list \<Rightarrow> byte list \<Rightarrow> error + byte list"

text \<open>
  Arguments of the AES-GCM operations: key, nonce, additional data, text.  Decryption
  opens exactly the encryptions under the same key, nonce and additional data, and a
  ciphertext is 16 bytes longer than its plaintext.
\<close>

definition webcrypto_laws :: "webcrypto \<Rightarrow> bool" where
  "webcrypto_laws W \<longleftrightarrow>
     (\<forall>k n a p. aes_gcm_decrypt W k n a (aes_gcm_encrypt W k n a p) = Inr p) \<and>
     (\<forall>k n a c p. aes_gcm_decrypt W k n a c = Inr p \<longrightarrow> aes_gcm_encrypt W k n a p = c) \<and>
     (\<forall>k n a p. length (aes_gcm_encrypt W k n a p) = length p + 16)"

lemma gcm_decrypt_encrypt:
  "webcrypto_laws W \<Longrightarrow> aes_gcm_decrypt W k n a (aes_gcm_encrypt W k n a p) = Inr p"
  by (simp add: webcrypto_laws_def)

lemma gcm_encrypt_decrypt:
  "webcrypto_laws W \<Longrightarrow> aes_gcm_decrypt W k n a c = Inr p \<Longrightarrow> aes_gcm_encrypt W k n a p = c"
  by (simp add: webcrypto_laws_def)

lemma length_gcm_encrypt:
  "webcrypto_laws W \<Longrightarrow> length (aes_gcm_encrypt W k n a p) = length p + 16"
  by (simp add: webcrypto_laws_def)

text \<open>
  Little-endian reading of a byte string, the loop
  \<open>for (let i = bytes.length - 1; i >= 0; i--) n = (n << 8n) | BigInt(bytes[i])\<close>.
\<close>

definition le_value :: "byte list \<Rightarrow> int" where
  "le_value bytes = foldl (\<lambda>n b. n * 256 + uint b) 0 (rev bytes)"

lemma foldl_byte_nonneg: "0 \<le> n \<Longrightarrow> 0 \<le> foldl (\<lambda>n b. n * 256 + uint (b :: byte)) n bs"
  by (induction bs arbitrary: n) simp_all

lemma le_value_nonneg: "0 \<le> le_value bytes"
  by (simp add: le_value_def foldl_byte_nonneg)

end
