(* ===== verification/Instances.thy ===== *)
theory Instances
  imports Platform
begin

unbundle bit_operations_syntax

text \<open>
  Concrete values for the parameters of the model, on which the development's examples
  run: a group of prime order 101 with 32-byte encodings, an authenticated cipher that
  satisfies the laws of AES-GCM, and checksums in the place of hash functions.  They are
  witnesses that the hypotheses about the platform can hold together; no lemma about the
  program depends on them.
\<close>

section \<open>A group of order 101\<close>

typedef zp = "{0..<101 :: int}"
  by (rule exI [of _ 0]) simp

setup_lifting type_definition_zp

lift_definition zp_of :: "int \<Rightarrow> zp" is "\<lambda>x. x mod 101"
  by simp

lift_definition zp_int :: "zp \<Rightarrow> int" is "\<lambda>x. x" .

instantiation zp :: equal
begin

lift_definition equal_zp :: "zp \<Rightarrow> zp \<Rightarrow> bool" is "(=)" .

instance
  by standard (transfer, simp)

end

lemma zp_range: "0 \<le> zp_int x \<and> zp_int x < 101"
  by transfer simp

lemma zp_int_of: "zp_int (zp_of k) = k mod 101"
  by transfer simp

lemma zp_of_int: "zp_of (zp_int x) = x"
  by transfer simp

lemma zp_eq_iff: "x = y \<longleftrightarrow> zp_int x = zp_int y"
  by transfer simp

definition zp_add :: "zp \<Rightarrow> zp \<Rightarrow> zp" where
  "zp_add x y = zp_of (zp_int x + zp_int y)"

definition zp_toBytes :: "zp \<Rightarrow> byte list" where
  "zp_toBytes x = of_int (zp_int x) # replicate 31 0"

definition zp_fromBytes :: "byte list \<Rightarrow> error + zp" where
  "zp_fromBytes b =
     (case b of [] \<Rightarrow> Inl BadPointEncoding
      | c # cs \<Rightarrow> if uint c < 101 \<and> cs = replicate 31 0 then Inr (zp_of (uint c))
                 else Inl BadPointEncoding)"

definition sample_curve :: "zp curve" where
  "sample_curve = \<lparr>
     grp_order = 101, pt_ZERO = zp_of 0, pt_BASE = zp_of 1, pt_add = zp_add,
     pt_multiply = (\<lambda>x k. if 1 \<le> k \<and> k < 101 then Inr (zp_of (k * zp_int x)) else Inl InvalidScalar),
     pt_multiplyUnsafe = (\<lambda>x k. if 0 \<le> k \<and> k < 101 then Inr (zp_of (k * zp_int x)) else Inl InvalidScalar),
     pt_toBytes = zp_toBytes, pt_fromBytes = zp_fromBytes,
     pt_toHex = (\<lambda>x. bytesToHex (zp_toBytes x)),
     pt_fromHex = (\<lambda>h. ebind (hexToBytes h) zp_fromBytes)\<rparr>"

lemma sample_curve_simps [simp]:
  "grp_order sample_curve = 101" "pt_ZERO sample_curve = zp_of 0" "pt_BASE sample_curve = zp_of 1"
  "pt_add sample_curve = zp_add" "pt_toBytes sample_curve = zp_toBytes"
  "pt_fromBytes sample_curve = zp_fromBytes"
  "pt_toHex sample_curve x = bytesToHex (zp_toBytes x)"
  "pt_fromHex sample_curve h = ebind (hexToBytes h) zp_fromBytes"
  by (simp_all add: sample_curve_def)

lemma prime_101: "prime_int 101"
  by code_simp

lemma nsmul_sample: "nsmul sample_curve n x = zp_of (int n * zp_int x)"
proof (induction n)
  case (Suc n)
  then show ?case
    by (simp add: nsmul_def zp_add_def zp_eq_iff zp_int_of mod_add_right_eq algebra_simps)
qed (simp add: nsmul_def)

lemma sample_group_laws: "group_laws sample_curve"
proof -
  have "x = nsmul sample_curve (nat (zp_int x)) (zp_of 1)" for x
    using zp_range [of x] by (simp add: nsmul_sample zp_eq_iff zp_int_of)
  then have "\<exists>k. x = nsmul sample_curve k (zp_of 1)" for x by blast
  moreover have "zp_of 1 \<noteq> zp_of 0" by (simp add: zp_eq_iff zp_int_of)
  ultimately show ?thesis
    by (simp add: group_laws_def nsmul_sample zp_add_def zp_eq_iff zp_int_of
        mod_add_left_eq mod_add_right_eq add.assoc add.commute add.left_commute zp_range)
qed

lemma sample_encoding_laws: "encoding_laws sample_curve"
proof -
  have 1: "zp_fromBytes (zp_toBytes x) = Inr x" for x
  proof -
    have "uint (of_int (zp_int x) :: byte) = zp_int x"
      using zp_range [of x] by (simp add: uint_word_of_int)
    then show ?thesis
      using zp_range [of x] by (simp add: zp_fromBytes_def zp_toBytes_def zp_of_int)
  qed
  have 2: "zp_fromBytes b = Inr x \<Longrightarrow> zp_toBytes x = b" for b x
    by (auto simp: zp_fromBytes_def zp_toBytes_def zp_int_of split: list.splits if_splits)
  show ?thesis
    unfolding encoding_laws_def using 1 2
    by (simp add: hex.dec_enc) (simp add: zp_toBytes_def)
qed

lemma sample_curve_laws: "curve_laws sample_curve"
proof -
  have "multiply_laws sample_curve"
    by (simp add: multiply_laws_def nsmul_sample) (simp add: sample_curve_def)
  then show ?thesis
    using prime_101 sample_group_laws sample_encoding_laws by (simp add: curve_laws_def)
qed

lemma smul_sample: "smul sample_curve k x = zp_of (k * zp_int x)"
  by (simp add: smul_def nsmul_sample zp_eq_iff zp_int_of mod_mult_left_eq)

text \<open>A sample of 64 bytes with a given little-endian value below 256.\<close>

definition sample_draw :: "int \<Rightarrow> byte list" where
  "sample_draw k = of_int k # replicate 63 0"

lemma le_value_sample_draw: "0 \<le> k \<Longrightarrow> k < 256 \<Longrightarrow> le_value (sample_draw k) = k"
proof -
  have "foldl (\<lambda>n b. n * 256 + uint (b :: byte)) 0 (replicate m 0) = 0" for m
    by (induction m) simp_all
  then show "0 \<le> k \<Longrightarrow> k < 256 \<Longrightarrow> ?thesis"
    by (simp add: le_value_def sample_draw_def uint_word_of_int)
qed

lemma zp_of_eq_iff: "zp_of a = zp_of b \<longleftrightarrow> a mod 101 = b mod 101"
  by (simp add: zp_eq_iff zp_int_of)

lemma zp_add_of: "zp_add (zp_of a) (zp_of b) = zp_of (a + b)"
  by (simp add: zp_add_def zp_of_eq_iff zp_int_of mod_add_eq)

lemma smul_sample_of: "smul sample_curve k (zp_of a) = zp_of (k * a)"
  by (simp add: smul_sample zp_of_eq_iff zp_int_of mod_mult_right_eq)

lemma sample_hexToScalar: "0 < k \<Longrightarrow> k < 101 \<Longrightarrow> hexToScalar 101 (scalarToHex k) = Inr k"
  by (intro scalar.dec_enc) simp

section \<open>A cipher with the laws of AES-GCM\<close>

definition checksum :: "byte list \<Rightarrow> byte" where
  "checksum bs = foldl (\<lambda>a b. 31 * a + b) 7 bs"

definition sample_tag :: "byte list \<Rightarrow> byte list \<Rightarrow> byte list \<Rightarrow> byte list \<Rightarrow> byte list" where
  "sample_tag k n a p = replicate 16 (checksum (k @ n @ a @ p))"

definition sample_mask :: "byte list \<Rightarrow> byte list \<Rightarrow> byte list" where
  "sample_mask k p = map (\<lambda>b. b XOR checksum k) p"

definition sample_crypto :: webcrypto where
  "sample_crypto = \<lparr>
     hkdf_sha256 = (\<lambda>ikm salt info. map2 (\<lambda>a b. a + 3 * b) (take 32 ikm) (drop 32 ikm)),
     aes_gcm_encrypt = (\<lambda>k n a p. sample_mask k p @ sample_tag k n a p),
     aes_gcm_decrypt = (\<lambda>k n a c.
       if length c < 16 then Inl OperationError
       else (let p = sample_mask k (take (length c - 16) c) in
         if drop (length c - 16) c = sample_tag k n a p then Inr p else Inl OperationError))\<rparr>"

lemma sample_mask_mask [simp]: "sample_mask k (sample_mask k p) = p"
  by (simp add: sample_mask_def xor.assoc map_idI)

lemma length_sample_mask [simp]: "length (sample_mask k p) = length p"
  by (simp add: sample_mask_def)

lemma length_sample_tag [simp]: "length (sample_tag k n a p) = 16"
  by (simp add: sample_tag_def)

lemma sample_crypto_laws: "webcrypto_laws sample_crypto"
proof -
  have "aes_gcm_encrypt sample_crypto k n a p = c" if "aes_gcm_decrypt sample_crypto k n a c = Inr p"
    for k n a c p
  proof -
    from that have "p = sample_mask k (take (length c - 16) c)"
      and "drop (length c - 16) c = sample_tag k n a p"
      by (auto simp: sample_crypto_def Let_def split: if_splits)
    then show ?thesis
      by (simp add: sample_crypto_def) (metis append_take_drop_id sample_mask_mask)
  qed
  then show ?thesis
    by (simp add: webcrypto_laws_def) (simp add: sample_crypto_def Let_def)
qed

lemma checksum_state_inj:
  "foldl (\<lambda>a b. 31 * a + b) x bs = foldl (\<lambda>a b. 31 * a + (b :: byte)) y bs \<longleftrightarrow> x = y"
proof (induction bs arbitrary: x y)
  case (Cons b bs)
  have inv: "223 * (31 * x) = x" for x :: byte
  proof -
    have "223 * (31 * x) = (223 * 31) * x" by (rule mult.assoc [symmetric])
    also have "(223 * 31 :: byte) = 1" by simp
    finally show ?thesis by simp
  qed
  have "x = y" if "31 * x = 31 * y" for x y :: byte
    using inv [of x] inv [of y] that by simp
  with Cons show ?case by auto
qed simp

text \<open>One byte of additional data changed, the rest alike: the sample tag changes.\<close>

lemma sample_encrypt_aad:
  "b \<noteq> c \<Longrightarrow> aes_gcm_encrypt sample_crypto k n (a @ [b]) p \<noteq> aes_gcm_encrypt sample_crypto k n (a @ [c]) p'"
proof
  assume ne: "b \<noteq> c"
    and eq: "aes_gcm_encrypt sample_crypto k n (a @ [b]) p = aes_gcm_encrypt sample_crypto k n (a @ [c]) p'"
  then have "sample_mask k p = sample_mask k p' \<and> sample_tag k n (a @ [b]) p = sample_tag k n (a @ [c]) p'"
    by (simp add: sample_crypto_def append_eq_append_conv)
  then have "p = p'" "checksum (k @ n @ (a @ [b]) @ p) = checksum (k @ n @ (a @ [c]) @ p')"
    using sample_mask_mask by (metis, simp add: sample_tag_def replicate_eq_replicate)
  then show False
    using ne by (simp add: checksum_def checksum_state_inj)
qed

definition sample_sha512 :: "byte list \<Rightarrow> byte list" where
  "sample_sha512 bs = replicate 64 (checksum bs)"

definition sample_sha256 :: "byte list \<Rightarrow> byte list" where
  "sample_sha256 bs = replicate 32 (checksum bs)"

end
