(* ===== verification/OrderCipher.thy ===== *)
theory OrderCipher
  imports Instances
begin

text \<open>
  \<open>backend/src/crypto/orderCipher.ts\<close>, byte-identical in the frontend: the ElGamal key
  encapsulation and AES-GCM body that seal an order.  Randomness is explicit: \<open>draws\<close> is
  the sequence of 64-byte samples \<open>randomScalar\<close> reads, \<open>nonce\<close> the 12 bytes drawn for
  AES-GCM.  The lemmas show the wire format is read back as written, that decryption with
  the point \<open>y\<cdot>R\<close> inverts encryption to \<open>Y = y\<cdot>G\<close>, and that the user address is bound.
\<close>

section \<open>Definitions\<close>

definition CIPHER_PREFIX :: jsstring where
  "CIPHER_PREFIX = js ''ctp1.''"

definition POINT_BYTES :: nat where "POINT_BYTES = 32"
definition NONCE_BYTES :: nat where "NONCE_BYTES = 12"
definition TAG_BYTES :: nat where "TAG_BYTES = 16"

definition HKDF_SALT :: "byte list" where
  "HKDF_SALT = utf8_encode (js ''cipher-protocol'')"

definition HKDF_INFO :: "byte list" where
  "HKDF_INFO = utf8_encode (js ''cipher-protocol/order-cipher/v1'')"

record parsed_ciphertext =
  pc_R :: "byte list"
  pc_nonce :: "byte list"
  pc_body :: "byte list"

text \<open>The rejection loop of \<open>randomScalar\<close>, one 64-byte sample per round.\<close>

fun randomScalar :: "int \<Rightarrow> byte list list \<Rightarrow> error + int" where
  "randomScalar L [] = Inl OutOfRandomness"
| "randomScalar L (bytes # draws) =
     (let n = le_value bytes smod L in if n \<noteq> 0 then Inr n else randomScalar L draws)"

definition deriveAesKey :: "webcrypto \<Rightarrow> byte list \<Rightarrow> byte list \<Rightarrow> byte list" where
  "deriveAesKey W R K = hkdf_sha256 W (R @ K) HKDF_SALT HKDF_INFO"

definition aad :: "byte list \<Rightarrow> jsstring \<Rightarrow> byte list" where
  "aad R userAddress = R @ utf8_encode userAddress"

definition parsePoint :: "'p curve \<Rightarrow> jsstring \<Rightarrow> error + 'p" where
  "parsePoint C hex = ebind (pt_fromHex C hex) (\<lambda>point.
     if point = pt_ZERO C then Inl IdentityPoint else Inr point)"

definition encryptOrder ::
  "'p curve \<Rightarrow> webcrypto \<Rightarrow> byte list list \<Rightarrow> byte list \<Rightarrow> jsstring \<Rightarrow> jsstring \<Rightarrow> jsstring
     \<Rightarrow> error + jsstring" where
  "encryptOrder C W draws nonce plaintext groupPublicKeyHex userAddress =
     ebind (parsePoint C groupPublicKeyHex) (\<lambda>Y.
     ebind (randomScalar (grp_order C) draws) (\<lambda>r.
     ebind (pt_multiply C (pt_BASE C) r) (\<lambda>RP.
     ebind (pt_multiply C Y r) (\<lambda>KP.
       let R = pt_toBytes C RP; K = pt_toBytes C KP;
           key = deriveAesKey W R K;
           body = aes_gcm_encrypt W key nonce (aad R userAddress) (utf8_encode plaintext)
       in Inr (CIPHER_PREFIX @ base64UrlEncode (R @ nonce @ body))))))"

definition parseCiphertext :: "'p curve \<Rightarrow> jsstring \<Rightarrow> error + parsed_ciphertext" where
  "parseCiphertext C ciphertext =
     (if take (length CIPHER_PREFIX) ciphertext \<noteq> CIPHER_PREFIX then Inl UnsupportedVersion
      else ebind (base64UrlDecode (drop (length CIPHER_PREFIX) ciphertext)) (\<lambda>raw.
        if length raw < POINT_BYTES + NONCE_BYTES + TAG_BYTES then Inl CiphertextTooShort
        else (let R = take POINT_BYTES raw in
          ebind (parsePoint C (bytesToHex R)) (\<lambda>_. Inr \<lparr>
            pc_R = R,
            pc_nonce = take NONCE_BYTES (drop POINT_BYTES raw),
            pc_body = drop (POINT_BYTES + NONCE_BYTES) raw\<rparr>))))"

definition decryptWithSharedPoint ::
  "'p curve \<Rightarrow> webcrypto \<Rightarrow> jsstring \<Rightarrow> byte list \<Rightarrow> jsstring \<Rightarrow> error + jsstring" where
  "decryptWithSharedPoint C W ciphertext sharedPoint userAddress =
     ebind (parseCiphertext C ciphertext) (\<lambda>p.
       let key = deriveAesKey W (pc_R p) sharedPoint in
       ebind (aes_gcm_decrypt W key (pc_nonce p) (aad (pc_R p) userAddress) (pc_body p)) (\<lambda>plain.
         Inr (utf8_decode plain)))"

section \<open>Random scalars\<close>

lemma randomScalar_range: "0 < L \<Longrightarrow> randomScalar L draws = Inr n \<Longrightarrow> 0 < n \<and> n < L"
proof (induction L draws rule: randomScalar.induct)
  case (2 L bytes draws)
  have "0 \<le> le_value bytes smod L" "le_value bytes smod L < L"
    using "2.prems"(1) by (simp_all add: smod_nonneg le_value_nonneg)
  with 2 show ?case by (auto simp: Let_def split: if_splits)
qed simp

text \<open>The loop returns the first sample that is not \<open>0\<close> modulo \<open>L\<close>, and only that one.\<close>

lemma randomScalar_first:
  "0 < L \<Longrightarrow> randomScalar L draws =
     (case List.find (\<lambda>bytes. le_value bytes mod L \<noteq> 0) draws of
        None \<Rightarrow> Inl OutOfRandomness | Some bytes \<Rightarrow> Inr (le_value bytes mod L))"
  by (induction L draws rule: randomScalar.induct) (auto simp: Let_def smod_nonneg le_value_nonneg)

section \<open>Points and the wire format\<close>

lemma parsePoint_Inr: "parsePoint C hex = Inr P \<longleftrightarrow> pt_fromHex C hex = Inr P \<and> P \<noteq> pt_ZERO C"
  by (auto simp: parsePoint_def ebind_eq_Inr)

lemma parsePoint_toHex [curve]:
  "curve_laws C \<Longrightarrow> parsePoint C (pt_toHex C P) = (if P = pt_ZERO C then Inl IdentityPoint else Inr P)"
  by (simp add: parsePoint_def curve)

lemma parsePoint_bytes [curve]:
  "curve_laws C \<Longrightarrow> parsePoint C (bytesToHex (pt_toBytes C P))
     = (if P = pt_ZERO C then Inl IdentityPoint else Inr P)"
  by (simp add: parsePoint_def curve)

lemma parsePoint_bytesToHex:
  "curve_laws C \<Longrightarrow> parsePoint C (bytesToHex b) = Inr P \<longleftrightarrow> b = pt_toBytes C P \<and> P \<noteq> pt_ZERO C"
  using toBytes_fromBytes [of C b P] by (auto simp: parsePoint_Inr curve)

definition wire :: "byte list \<Rightarrow> byte list \<Rightarrow> byte list \<Rightarrow> jsstring" where
  "wire R nonce body = CIPHER_PREFIX @ base64UrlEncode (R @ nonce @ body)"

lemma parseCiphertext_wire:
  assumes "curve_laws C" and "P \<noteq> pt_ZERO C" and "length nonce = 12" and "16 \<le> length body"
  shows "parseCiphertext C (wire (pt_toBytes C P) nonce body)
    = Inr \<lparr>pc_R = pt_toBytes C P, pc_nonce = nonce, pc_body = body\<rparr>"
proof -
  have R: "length (pt_toBytes C P) = 32" using assms(1) by (simp add: curve)
  then show ?thesis
    using assms by (simp add: parseCiphertext_def wire_def b64url.dec_enc POINT_BYTES_def
        NONCE_BYTES_def TAG_BYTES_def Let_def curve)
qed

lemma parseCiphertext_Inr:
  assumes "curve_laws C" and "parseCiphertext C ct = Inr p"
  obtains P where "pc_R p = pt_toBytes C P" "P \<noteq> pt_ZERO C"
    "length (pc_nonce p) = 12" "16 \<le> length (pc_body p)"
    "base64UrlDecode (drop 5 ct) = Inr (pc_R p @ pc_nonce p @ pc_body p)"
proof -
  have pre: "length CIPHER_PREFIX = 5" by (simp add: CIPHER_PREFIX_def js_def)
  from assms(2) obtain raw P where raw: "base64UrlDecode (drop 5 ct) = Inr raw"
    and len: "60 \<le> length raw" and P: "parsePoint C (bytesToHex (take 32 raw)) = Inr P"
    and p: "p = \<lparr>pc_R = take 32 raw, pc_nonce = take 12 (drop 32 raw), pc_body = drop 44 raw\<rparr>"
    by (auto simp: parseCiphertext_def pre POINT_BYTES_def NONCE_BYTES_def TAG_BYTES_def Let_def
        ebind_eq_Inr not_less split: if_splits)
  have "take 12 (drop 32 raw) @ drop 44 raw = drop 32 raw"
    using append_take_drop_id [of 12 "drop 32 raw"] by (simp add: add.commute)
  then have "raw = take 32 raw @ take 12 (drop 32 raw) @ drop 44 raw" by simp
  moreover have "take 32 raw = pt_toBytes C P" "P \<noteq> pt_ZERO C"
    using P assms(1) by (simp_all add: parsePoint_bytesToHex)
  moreover have "16 \<le> length raw - 44" using len by simp
  ultimately show ?thesis using that [of P] raw len p by simp
qed

lemma decryptWithSharedPoint_Inr:
  "decryptWithSharedPoint C W ct K u = Inr m \<longleftrightarrow>
     (\<exists>p plain. parseCiphertext C ct = Inr p \<and> m = utf8_decode plain \<and>
        aes_gcm_decrypt W (deriveAesKey W (pc_R p) K) (pc_nonce p) (aad (pc_R p) u) (pc_body p)
          = Inr plain)"
  by (auto simp: decryptWithSharedPoint_def Let_def ebind_eq_Inr)

section \<open>Encryption\<close>

lemma encryptOrder_ok:
  assumes "curve_laws C" and "parsePoint C Yhex = Inr Y" and "randomScalar (grp_order C) draws = Inr r"
  shows "encryptOrder C W draws nonce m Yhex u =
    (let R = pt_toBytes C (smul C r (pt_BASE C)); K = pt_toBytes C (smul C r Y)
     in Inr (wire R nonce (aes_gcm_encrypt W (deriveAesKey W R K) nonce (aad R u) (utf8_encode m))))"
proof -
  have "0 < r" "r < grp_order C"
    using randomScalar_range [OF _ assms(3)] curve_order_gt_1 [OF assms(1)] by simp_all
  with assms show ?thesis by (simp add: encryptOrder_def wire_def Let_def curve)
qed

lemma encryptOrder_Inr:
  assumes "curve_laws C" and "encryptOrder C W draws nonce m Yhex u = Inr ct"
  obtains r Y where "0 < r" "r < grp_order C" "parsePoint C Yhex = Inr Y"
    "ct = wire (pt_toBytes C (smul C r (pt_BASE C))) nonce
       (aes_gcm_encrypt W (deriveAesKey W (pt_toBytes C (smul C r (pt_BASE C))) (pt_toBytes C (smul C r Y)))
          nonce (aad (pt_toBytes C (smul C r (pt_BASE C))) u) (utf8_encode m))"
proof -
  from assms(2) obtain Y r where Y: "parsePoint C Yhex = Inr Y"
    and r: "randomScalar (grp_order C) draws = Inr r"
    by (auto simp: encryptOrder_def ebind_eq_Inr)
  have "0 < r" "r < grp_order C"
    using randomScalar_range [OF _ r] curve_order_gt_1 [OF assms(1)] by simp_all
  then show ?thesis
    using that [OF _ _ Y, of r] encryptOrder_ok [OF assms(1) Y r, of W nonce m u] assms(2)
    by (simp add: Let_def)
qed

lemma not_dvd_scalar: "0 < r \<Longrightarrow> r < L \<Longrightarrow> \<not> L dvd (r :: int)"
  by (rule not_dvd_range)

text \<open>The parts of an encryption, as \<open>parseCiphertext\<close> returns them.\<close>

lemma parse_encryptOrder:
  assumes C: "curve_laws C" and W: "webcrypto_laws W" and n: "length nonce = 12"
    and ct: "encryptOrder C W draws nonce m Yhex u = Inr ct"
  obtains r Y where "0 < r" "r < grp_order C" "parsePoint C Yhex = Inr Y"
    "parseCiphertext C ct = Inr \<lparr>pc_R = pt_toBytes C (smul C r (pt_BASE C)), pc_nonce = nonce,
       pc_body = aes_gcm_encrypt W
         (deriveAesKey W (pt_toBytes C (smul C r (pt_BASE C))) (pt_toBytes C (smul C r Y)))
         nonce (aad (pt_toBytes C (smul C r (pt_BASE C))) u) (utf8_encode m)\<rparr>"
proof -
  obtain r Y where r: "0 < r" "r < grp_order C" and Y: "parsePoint C Yhex = Inr Y"
    and w: "ct = wire (pt_toBytes C (smul C r (pt_BASE C))) nonce
       (aes_gcm_encrypt W (deriveAesKey W (pt_toBytes C (smul C r (pt_BASE C))) (pt_toBytes C (smul C r Y)))
          nonce (aad (pt_toBytes C (smul C r (pt_BASE C))) u) (utf8_encode m))"
    using encryptOrder_Inr [OF C ct] .
  have "smul C r (pt_BASE C) \<noteq> pt_ZERO C"
    using r by (intro smul_nonzero C BASE_not_ZERO not_dvd_scalar)
  then show ?thesis
    using that [OF r Y] parseCiphertext_wire [OF C _ n] length_gcm_encrypt [OF W] by (simp add: w)
qed

lemma order_parses:
  assumes "curve_laws C" and "webcrypto_laws W" and "length nonce = 12"
    and "encryptOrder C W draws nonce m Yhex u = Inr ct"
  shows "\<exists>p R. parseCiphertext C ct = Inr p \<and> pc_R p = pt_toBytes C R \<and> R \<noteq> pt_ZERO C"
  using parse_encryptOrder [OF assms] parseCiphertext_Inr [OF assms(1)] by metis

text \<open>Decryption with \<open>y\<cdot>R\<close> opens what was encrypted to \<open>y\<cdot>G\<close>.\<close>

lemma decrypt_encrypt:
  assumes C: "curve_laws C" and W: "webcrypto_laws W" and n: "length nonce = 12"
    and ct: "encryptOrder C W draws nonce m Yhex u = Inr ct"
    and Y: "pt_fromHex C Yhex = Inr (smul C y (pt_BASE C))"
    and m: "well_formed m" "take 1 m \<noteq> [0xFEFF]"
    and p: "parseCiphertext C ct = Inr p" and R: "pc_R p = pt_toBytes C R"
  shows "decryptWithSharedPoint C W ct (pt_toBytes C (smul C y R)) u = Inr m"
proof -
  obtain r where p': "parseCiphertext C ct = Inr \<lparr>pc_R = pt_toBytes C (smul C r (pt_BASE C)),
       pc_nonce = nonce, pc_body = aes_gcm_encrypt W
         (deriveAesKey W (pt_toBytes C (smul C r (pt_BASE C)))
            (pt_toBytes C (smul C r (smul C y (pt_BASE C)))))
         nonce (aad (pt_toBytes C (smul C r (pt_BASE C))) u) (utf8_encode m)\<rparr>"
    using parse_encryptOrder [OF C W n ct] Y by (metis parsePoint_Inr sum.inject(2))
  with p R have "R = smul C r (pt_BASE C)" using C by (auto simp: toBytes_inj)
  then have "smul C y R = smul C r (smul C y (pt_BASE C))"
    using C by (simp add: smul_smul mult.commute)
  with p' show ?thesis
    using W m by (simp add: decryptWithSharedPoint_def gcm_decrypt_encrypt utf8_roundtrip)
qed

section \<open>Properties\<close>

text \<open>C15: Sealing an order and opening it are inverse.  A ciphertext produced by \<open>encryptOrder\<close>
  for the public key \<open>y\<cdot>G\<close> parses, and the point \<open>y\<cdot>R\<close> of its own ephemeral point \<open>R\<close> opens it
  for the same user address to exactly the text that was sealed, for every text without lone
  surrogates that does not start with a byte order mark.\<close>

theorem order_roundtrip:
  assumes "curve_laws C" and "webcrypto_laws W" and "length nonce = NONCE_BYTES"
    and "encryptOrder C W draws nonce m (pt_toHex C (smul C y (pt_BASE C))) u = Inr ct"
    and "well_formed m" and "take 1 m \<noteq> [0xFEFF]"
  shows "\<exists>p R. parseCiphertext C ct = Inr p \<and> pc_R p = pt_toBytes C R \<and> R \<noteq> pt_ZERO C \<and>
    decryptWithSharedPoint C W ct (pt_toBytes C (smul C y R)) u = Inr m"
proof -
  have n: "length nonce = 12" using assms(3) by (simp add: NONCE_BYTES_def)
  obtain r where r: "0 < r" "r < grp_order C" and p: "parseCiphertext C ct =
      Inr \<lparr>pc_R = pt_toBytes C (smul C r (pt_BASE C)), pc_nonce = nonce, pc_body = aes_gcm_encrypt W
         (deriveAesKey W (pt_toBytes C (smul C r (pt_BASE C)))
            (pt_toBytes C (smul C r (smul C y (pt_BASE C)))))
         nonce (aad (pt_toBytes C (smul C r (pt_BASE C))) u) (utf8_encode m)\<rparr>"
    using parse_encryptOrder [OF assms(1,2) n assms(4)] fromHex_toHex [OF assms(1)]
    by (metis parsePoint_Inr sum.inject(2))
  have "smul C r (pt_BASE C) \<noteq> pt_ZERO C"
    using r by (intro smul_nonzero assms(1) BASE_not_ZERO not_dvd_scalar)
  then show ?thesis
    using p decrypt_encrypt [OF assms(1,2) n assms(4) _ assms(5,6) p, of y "smul C r (pt_BASE C)"]
      fromHex_toHex [OF assms(1)] by auto
qed

text \<open>The sample platform: order text \<open>buy\<close>, group secret \<open>5\<close>, ephemeral scalar \<open>4\<close>.\<close>

lemma sample_wf: "well_formed (js ''buy'')" "take 1 (js ''buy'') \<noteq> [0xFEFF]"
  by (simp_all add: js_def is_high_def is_low_def)

lemma sample_encryptOrder_ok:
  "k mod 101 \<noteq> 0 \<Longrightarrow> \<exists>ct. encryptOrder sample_curve W [sample_draw 4] nonce m
     (pt_toHex sample_curve (smul sample_curve k (pt_BASE sample_curve))) u = Inr ct"
proof -
  assume "k mod 101 \<noteq> 0"
  then have "parsePoint sample_curve (pt_toHex sample_curve (smul sample_curve k (pt_BASE sample_curve)))
      = Inr (zp_of k)"
    using parsePoint_toHex [OF sample_curve_laws, of "zp_of k"] by (simp add: smul_sample_of zp_of_eq_iff)
  moreover have "randomScalar (grp_order sample_curve) [sample_draw 4] = Inr 4"
    by (simp add: le_value_sample_draw smod_nonneg)
  ultimately show ?thesis
    by (subst encryptOrder_ok [OF sample_curve_laws]) (simp_all add: Let_def)
qed

lemma sample_order:
  "\<exists>ct p R. encryptOrder sample_curve sample_crypto [sample_draw 4] (replicate 12 9) (js ''buy'')
        (pt_toHex sample_curve (smul sample_curve 5 (pt_BASE sample_curve))) (js ''GA'') = Inr ct \<and>
     parseCiphertext sample_curve ct = Inr p \<and> pc_R p = pt_toBytes sample_curve R"
proof -
  have "(5 :: int) mod 101 \<noteq> 0" by simp
  from sample_encryptOrder_ok [OF this]
  obtain ct where ct: "encryptOrder sample_curve sample_crypto [sample_draw 4] (replicate 12 9) (js ''buy'')
      (pt_toHex sample_curve (smul sample_curve 5 (pt_BASE sample_curve))) (js ''GA'') = Inr ct"
    by blast
  have "length (replicate 12 (9 :: byte)) = 12" by simp
  from parse_encryptOrder [OF sample_curve_laws sample_crypto_laws this ct] obtain p r
    where "parseCiphertext sample_curve ct = Inr p \<and> pc_R p = pt_toBytes sample_curve (smul sample_curve r (pt_BASE sample_curve))"
    by (metis parsed_ciphertext.select_convs(1))
  with ct show ?thesis by blast
qed

theorem order_roundtrip_witness:
  "\<exists>ct p R. encryptOrder sample_curve sample_crypto [sample_draw 4] (replicate 12 9) (js ''buy'')
        (pt_toHex sample_curve (smul sample_curve 5 (pt_BASE sample_curve))) (js ''GA'') = Inr ct \<and>
     parseCiphertext sample_curve ct = Inr p \<and> pc_R p = zp_toBytes R \<and>
     decryptWithSharedPoint sample_curve sample_crypto ct (zp_toBytes (smul sample_curve 5 R)) (js ''GA'')
       = Inr (js ''buy'')"
proof -
  obtain ct where ct: "encryptOrder sample_curve sample_crypto [sample_draw 4] (replicate 12 9) (js ''buy'')
      (pt_toHex sample_curve (smul sample_curve 5 (pt_BASE sample_curve))) (js ''GA'') = Inr ct"
    using sample_order by blast
  have n: "length (replicate 12 (9 :: byte)) = NONCE_BYTES" by (simp add: NONCE_BYTES_def)
  show ?thesis
    using ct order_roundtrip [OF sample_curve_laws sample_crypto_laws n ct sample_wf] by auto
qed

text \<open>C31: A ciphertext is bound to its user.  A sealed order opened with the right shared point
  but for another user address is presented to AES-GCM under different additional data; it is
  accepted only if AES-GCM has a tag collision there, that is, if some text encrypts under the
  other additional data to the very body that was sealed.\<close>

theorem order_bound_to_user:
  assumes "curve_laws C" and "webcrypto_laws W" and "length nonce = NONCE_BYTES"
    and ct: "encryptOrder C W draws nonce m (pt_toHex C (smul C y (pt_BASE C))) u = Inr ct"
    and p: "parseCiphertext C ct = Inr p" and R: "pc_R p = pt_toBytes C R"
    and users: "well_formed u" "well_formed u'" "u \<noteq> u'"
  shows "aad (pc_R p) u \<noteq> aad (pc_R p) u' \<and>
    (is_ok (decryptWithSharedPoint C W ct (pt_toBytes C (smul C y R)) u') \<longleftrightarrow>
     (\<exists>m'. aes_gcm_encrypt W (deriveAesKey W (pc_R p) (pt_toBytes C (smul C y R))) nonce (aad (pc_R p) u') m'
        = aes_gcm_encrypt W (deriveAesKey W (pc_R p) (pt_toBytes C (smul C y R))) nonce (aad (pc_R p) u)
            (utf8_encode m)))"
proof -
  let ?k = "deriveAesKey W (pc_R p) (pt_toBytes C (smul C y R))"
  have n: "length nonce = 12" using assms(3) by (simp add: NONCE_BYTES_def)
  obtain r where p': "parseCiphertext C ct = Inr \<lparr>pc_R = pt_toBytes C (smul C r (pt_BASE C)),
       pc_nonce = nonce, pc_body = aes_gcm_encrypt W
         (deriveAesKey W (pt_toBytes C (smul C r (pt_BASE C)))
            (pt_toBytes C (smul C r (smul C y (pt_BASE C)))))
         nonce (aad (pt_toBytes C (smul C r (pt_BASE C))) u) (utf8_encode m)\<rparr>"
    using parse_encryptOrder [OF assms(1,2) n ct] fromHex_toHex [OF assms(1)]
    by (metis parsePoint_Inr sum.inject(2))
  with p R have Rr: "R = smul C r (pt_BASE C)" using assms(1) by (auto simp: toBytes_inj)
  then have "smul C y R = smul C r (smul C y (pt_BASE C))"
    using assms(1) by (simp add: smul_smul mult.commute)
  with p p' R Rr have b: "pc_nonce p = nonce"
    "pc_body p = aes_gcm_encrypt W ?k nonce (aad (pc_R p) u) (utf8_encode m)"
    by auto
  have "is_ok (decryptWithSharedPoint C W ct (pt_toBytes C (smul C y R)) u') \<longleftrightarrow>
      (\<exists>m'. aes_gcm_decrypt W ?k nonce (aad (pc_R p) u') (pc_body p) = Inr m')"
    using p b by (simp add: decryptWithSharedPoint_def)
  also have "\<dots> \<longleftrightarrow> (\<exists>m'. aes_gcm_encrypt W ?k nonce (aad (pc_R p) u') m' = pc_body p)"
    using gcm_decrypt_encrypt [OF assms(2)] gcm_encrypt_decrypt [OF assms(2)] by metis
  finally show ?thesis
    using b users utf8_encode_inj [of u u'] by (auto simp: aad_def)
qed

text \<open>Sealed for \<open>GA\<close>, the order does not open for \<open>GB\<close>.\<close>

theorem order_bound_to_user_witness:
  "\<exists>ct p R. encryptOrder sample_curve sample_crypto [sample_draw 4] (replicate 12 9) (js ''buy'')
        (pt_toHex sample_curve (smul sample_curve 5 (pt_BASE sample_curve))) (js ''GA'') = Inr ct \<and>
     parseCiphertext sample_curve ct = Inr p \<and> pc_R p = zp_toBytes R \<and>
     \<not> is_ok (decryptWithSharedPoint sample_curve sample_crypto ct (zp_toBytes (smul sample_curve 5 R)) (js ''GB''))"
proof -
  obtain ct p R where ct: "encryptOrder sample_curve sample_crypto [sample_draw 4] (replicate 12 9) (js ''buy'')
      (pt_toHex sample_curve (smul sample_curve 5 (pt_BASE sample_curve))) (js ''GA'') = Inr ct"
    and p: "parseCiphertext sample_curve ct = Inr p" and r: "pc_R p = pt_toBytes sample_curve R"
    using sample_order by blast
  have n: "length (replicate 12 (9 :: byte)) = NONCE_BYTES" by (simp add: NONCE_BYTES_def)
  have u: "well_formed (js ''GA'')" "well_formed (js ''GB'')" "js ''GA'' \<noteq> js ''GB''"
    by (simp_all add: js_def is_high_def is_low_def)
  have a: "aad B (js ''GA'') = (B @ [71]) @ [65]" "aad B (js ''GB'') = (B @ [71]) @ [66]" for B
    by (simp_all add: aad_def js_def utf8_encode_ascii)
  show ?thesis
    using ct p r order_bound_to_user [OF sample_curve_laws sample_crypto_laws n ct p r u]
      sample_encrypt_aad [of 66 65] by (fastforce simp only: a sample_curve_simps)
qed

end
