(* ===== verification/Threshold.thy ===== *)
theory Threshold
  imports OrderCipher
begin

text \<open>
  \<open>backend/src/crypto/threshold.ts\<close>: a validator's decryption share with its
  Chaum-Pedersen proof (\<open>partialDecrypt\<close>), the coordinator's check of the proof
  (\<open>verifyDecryptionShare\<close>) and the combination of shares (\<open>combineShares\<close>).  The lemmas
  show completeness and soundness of the proof and that any \<open>t\<close> correct shares combine
  to \<open>y\<cdot>R\<close>.  SHA-512 is the parameter \<open>H\<close>.
\<close>

section \<open>Definitions\<close>

record key_share =
  ks_index :: int
  ks_secret :: jsstring
  ks_verificationKey :: jsstring

record decryption_share =
  ds_index :: int
  ds_share :: jsstring
  ds_c :: jsstring
  ds_z :: jsstring

definition DLEQ_DOMAIN :: "byte list" where
  "DLEQ_DOMAIN = utf8_encode (js ''cipher-protocol/dleq/v1'')"

definition challenge :: "'p curve \<Rightarrow> (byte list \<Rightarrow> byte list) \<Rightarrow> 'p list \<Rightarrow> int" where
  "challenge C H points =
     modL (grp_order C) (le_value (H (DLEQ_DOMAIN @ concat (map (pt_toBytes C) points))))"

definition partialDecrypt ::
  "'p curve \<Rightarrow> (byte list \<Rightarrow> byte list) \<Rightarrow> byte list list \<Rightarrow> key_share \<Rightarrow> byte list
     \<Rightarrow> error + decryption_share" where
  "partialDecrypt C H draws share R =
     (let L = grp_order C; G = pt_BASE C in
      ebind (hexToScalar L (ks_secret share)) (\<lambda>y.
      ebind (parsePoint C (bytesToHex R)) (\<lambda>Rp.
      ebind (pt_multiply C G y) (\<lambda>Yi.
      ebind (pt_multiply C Rp y) (\<lambda>Di.
      ebind (randomScalar L draws) (\<lambda>k.
      ebind (pt_multiply C G k) (\<lambda>A1.
      ebind (pt_multiply C Rp k) (\<lambda>A2.
        let c = challenge C H [G, Yi, Rp, Di, A1, A2];
            z = modL L (k + c * y)
        in Inr \<lparr>ds_index = ks_index share, ds_share = pt_toHex C Di,
                 ds_c = scalarToHex c, ds_z = scalarToHex z\<rparr>))))))))"

text \<open>\<open>z\<cdot>B - c\<cdot>P\<close>, as the check recomputes the prover's commitments.\<close>

definition dleq_commitment :: "'p curve \<Rightarrow> 'p \<Rightarrow> 'p \<Rightarrow> int \<Rightarrow> int \<Rightarrow> error + 'p" where
  "dleq_commitment C B P z c =
     (let cNeg = modL (grp_order C) (- c) in
      ebind (pt_multiply C B z) (\<lambda>zB.
      ebind (if cNeg = 0 then Inr (pt_ZERO C) else pt_multiply C P cNeg) (\<lambda>cP.
        Inr (pt_add C zB cP))))"

definition verifyDecryptionShare ::
  "'p curve \<Rightarrow> (byte list \<Rightarrow> byte list) \<Rightarrow> decryption_share \<Rightarrow> jsstring \<Rightarrow> byte list \<Rightarrow> bool" where
  "verifyDecryptionShare C H ds verificationKeyHex R =
     ecatch
       (ebind (parsePoint C verificationKeyHex) (\<lambda>Yi.
        ebind (parsePoint C (bytesToHex R)) (\<lambda>Rp.
        ebind (parsePoint C (ds_share ds)) (\<lambda>Di.
        ebind (BigInt_hex (ds_c ds)) (\<lambda>c.
        ebind (BigInt_hex (ds_z ds)) (\<lambda>z.
          if c \<ge> grp_order C \<or> z \<le> 0 \<or> z \<ge> grp_order C then Inr False
          else
            ebind (dleq_commitment C (pt_BASE C) Yi z c) (\<lambda>A1.
            ebind (dleq_commitment C Rp Di z c) (\<lambda>A2.
              Inr (challenge C H [pt_BASE C, Yi, Rp, Di, A1, A2] = c)))))))))
       False"

text \<open>
  The first \<open>threshold\<close> entries of a \<open>Map\<close> keyed by index: for a repeated index the last
  share counts, in the place of the first.
\<close>

definition unique_shares :: "decryption_share list \<Rightarrow> nat \<Rightarrow> decryption_share list" where
  "unique_shares shares threshold =
     take threshold (map snd (js_map (map (\<lambda>s. (ds_index s, s)) shares)))"

definition combineShares :: "'p curve \<Rightarrow> decryption_share list \<Rightarrow> nat \<Rightarrow> error + byte list" where
  "combineShares C shares threshold =
     (let unique = unique_shares shares threshold in
      if length unique < threshold then Inl (NeedShares threshold (length unique))
      else
        (let indices = map ds_index unique in
         ebind (efold (\<lambda>K s.
             ebind (parsePoint C (ds_share s)) (\<lambda>P.
             ebind (pt_multiply C P (lagrangeAtZero (grp_order C) (ds_index s) indices)) (\<lambda>Q.
               Inr (pt_add C K Q)))) (pt_ZERO C) unique)
           (\<lambda>K. Inr (pt_toBytes C K))))"

section \<open>The proof of equal discrete logarithms\<close>

lemma challenge_range: "curve_laws C \<Longrightarrow> 0 \<le> challenge C H ps \<and> challenge C H ps < grp_order C"
  using curve_order_gt_1 [of C] by (simp add: challenge_def modL_range)

lemma dleq_commitment_ok:
  assumes C: "curve_laws C" and "0 < z" "z < grp_order C"
  shows "dleq_commitment C B P z c = Inr (pt_add C (smul C z B) (smul C (- c) P))"
proof -
  have L: "0 < grp_order C" using curve_order_gt_1 [OF C] by simp
  have r: "0 \<le> modL (grp_order C) (- c)" "modL (grp_order C) (- c) < grp_order C"
    using modL_range [OF L] by simp_all
  have s: "smul C (modL (grp_order C) (- c)) P = smul C (- c) P"
    using L by (simp add: modL_mod smul_mod)
  show ?thesis
  proof (cases "modL (grp_order C) (- c) = 0")
    case True
    then show ?thesis using s assms by (simp add: dleq_commitment_def curve)
  next
    case False
    then show ?thesis using s r assms by (simp add: dleq_commitment_def curve)
  qed
qed

lemma BigInt_hex_scalarToHex:
  "0 \<le> s \<Longrightarrow> s < L \<Longrightarrow> L \<le> 16 ^ 64 \<Longrightarrow> BigInt_hex (scalarToHex s) = Inr s"
proof -
  assume s: "0 \<le> s" "s < L" "L \<le> 16 ^ 64"
  then have d: "length (scalarToHex s) = 64" "list_all is_hex (scalarToHex s)"
      "hex_value (scalarToHex s) = nat s"
    by (auto intro!: scalarToHex_digits)
  then have "scalarToHex s \<noteq> []" by auto
  then show ?thesis using d s by (simp add: BigInt_hex_digits)
qed

lemma hexToScalar_BigInt: "hexToScalar L h = Inr s \<Longrightarrow> BigInt_hex h = Inr s"
proof -
  assume h: "hexToScalar L h = Inr s"
  then have "h \<noteq> []" by (auto simp: hexToScalar_Inr)
  then show ?thesis using h by (simp add: hexToScalar_Inr BigInt_hex_digits)
qed

lemma BigInt_hex_nonneg: "BigInt_hex h = Inr s \<Longrightarrow> 0 \<le> s"
  by (auto simp: BigInt_hex_def Let_def split: if_splits)

text \<open>What a successful \<open>partialDecrypt\<close> returns.\<close>

lemma partialDecrypt_Inr:
  assumes C: "curve_laws C" and "partialDecrypt C H draws share R = Inr ds"
  obtains y Rp k where "hexToScalar (grp_order C) (ks_secret share) = Inr y" "R = pt_toBytes C Rp"
    "Rp \<noteq> pt_ZERO C" "0 < k" "k < grp_order C"
    "ds = (let c = challenge C H [pt_BASE C, smul C y (pt_BASE C), Rp, smul C y Rp,
             smul C k (pt_BASE C), smul C k Rp] in
       \<lparr>ds_index = ks_index share, ds_share = pt_toHex C (smul C y Rp), ds_c = scalarToHex c,
        ds_z = scalarToHex (modL (grp_order C) (k + c * y))\<rparr>)"
proof -
  from assms(2) obtain y Rp k where y: "hexToScalar (grp_order C) (ks_secret share) = Inr y"
    and Rp: "parsePoint C (bytesToHex R) = Inr Rp" and k: "randomScalar (grp_order C) draws = Inr k"
    by (auto simp: partialDecrypt_def Let_def ebind_eq_Inr)
  have "0 < k" "k < grp_order C" using randomScalar_range [OF _ k] curve_order_gt_1 [OF C] by simp_all
  moreover have "0 < y" "y < grp_order C" using hexToScalar_range [OF y] by simp_all
  ultimately show ?thesis
    using that [OF y, of Rp k] assms y Rp k
    by (simp add: partialDecrypt_def Let_def parsePoint_bytesToHex curve)
qed

lemma partialDecrypt_point:
  assumes C: "curve_laws C" and pd: "partialDecrypt C H draws share R = Inr ds"
    and y: "hexToScalar (grp_order C) (ks_secret share) = Inr y"
  shows "\<exists>Rp. R = pt_toBytes C Rp \<and> Rp \<noteq> pt_ZERO C \<and> ds_index ds = ks_index share \<and>
    ds_share ds = pt_toHex C (smul C y Rp)"
  using pd by (rule partialDecrypt_Inr [OF C]) (use y in \<open>auto simp: Let_def\<close>)

lemma partialDecrypt_ok:
  assumes C: "curve_laws C" and y: "hexToScalar (grp_order C) (ks_secret share) = Inr y"
    and R: "R = pt_toBytes C Rp" "Rp \<noteq> pt_ZERO C" and k: "randomScalar (grp_order C) draws = Inr k"
  shows "\<exists>ds. partialDecrypt C H draws share R = Inr ds"
proof -
  have "0 < k" "k < grp_order C" using randomScalar_range [OF _ k] curve_order_gt_1 [OF C] by simp_all
  moreover have "0 < y" "y < grp_order C" using hexToScalar_range [OF y] by simp_all
  ultimately show ?thesis using assms by (simp add: partialDecrypt_def Let_def curve)
qed

text \<open>An accepted share, in terms of the group.\<close>

lemma verifyDecryptionShare_iff:
  assumes C: "curve_laws C"
  shows "verifyDecryptionShare C H ds vk R \<longleftrightarrow>
    (\<exists>Yi Rp Di c z. parsePoint C vk = Inr Yi \<and> parsePoint C (bytesToHex R) = Inr Rp \<and>
       parsePoint C (ds_share ds) = Inr Di \<and> BigInt_hex (ds_c ds) = Inr c \<and> BigInt_hex (ds_z ds) = Inr z \<and>
       c < grp_order C \<and> 0 < z \<and> z < grp_order C \<and>
       challenge C H [pt_BASE C, Yi, Rp, Di, pt_add C (smul C z (pt_BASE C)) (smul C (- c) Yi),
         pt_add C (smul C z Rp) (smul C (- c) Di)] = c)"
    (is "_ \<longleftrightarrow> ?rhs")
proof
  assume ?rhs
  then show "verifyDecryptionShare C H ds vk R"
    by (auto simp: verifyDecryptionShare_def dleq_commitment_ok [OF C])
next
  assume "verifyDecryptionShare C H ds vk R"
  then show ?rhs
    unfolding verifyDecryptionShare_def ecatch_def
    by (auto simp: ebind_eq_Inr dleq_commitment_ok [OF C] not_le split: sum.splits if_splits)
qed

lemma dleq_honest:
  assumes C: "curve_laws C"
  shows "pt_add C (smul C (modL (grp_order C) (k + c * y)) B) (smul C (- c) (smul C y B)) = smul C k B"
proof -
  have "0 < grp_order C" using curve_order_gt_1 [OF C] by simp
  then have "pt_add C (smul C (modL (grp_order C) (k + c * y)) B) (smul C (- c) (smul C y B))
      = smul C (k + c * y + - c * y) B"
    by (simp only: modL_mod smul_mod smul_smul [OF C] smul_add [OF C])
  then show ?thesis by simp
qed


lemma toBytes_eq_iff: "curve_laws C \<Longrightarrow> bytesToHex b = pt_toHex C P \<longleftrightarrow> b = pt_toBytes C P"
  by (simp add: toHex_bytes hex.enc_eq_iff)

lemma secret_point_nonzero:
  assumes C: "curve_laws C" and y: "0 < y" "y < grp_order C" and P: "P \<noteq> pt_ZERO C"
  shows "smul C y P \<noteq> pt_ZERO C"
  using y by (intro smul_nonzero C P not_dvd_range)

section \<open>Combining shares\<close>

lemma unique_shares_indices:
  "map ds_index (unique_shares shares t)
     = take t (map fst (js_map (map (\<lambda>s. (ds_index s, s)) shares)))"
proof -
  let ?m = "js_map (map (\<lambda>s. (ds_index s, s)) shares)"
  have "\<forall>e \<in> set ?m. ds_index (snd e) = fst e"
    using set_js_map [of "map (\<lambda>s. (ds_index s, s)) shares"] by auto
  then have "map ds_index (map snd ?m) = map fst ?m" by simp
  then show ?thesis by (simp add: unique_shares_def take_map [symmetric] del: map_map)
qed

lemma distinct_unique_shares: "distinct (map ds_index (unique_shares shares t))"
  by (simp add: unique_shares_indices distinct_js_map)

lemma set_unique_shares: "set (unique_shares shares t) \<subseteq> set shares"
proof -
  have "snd ` set (js_map (map (\<lambda>s. (ds_index s, s)) shares)) \<subseteq> set shares"
    using set_js_map [of "map (\<lambda>s. (ds_index s, s)) shares"] by auto
  then show ?thesis using set_take_subset by (fastforce simp: unique_shares_def)
qed

lemma length_unique_shares:
  "length (unique_shares shares t) = min t (card (ds_index ` set shares))"
proof -
  let ?m = "js_map (map (\<lambda>s. (ds_index s, s)) shares)"
  have "length ?m = card (fst ` set ?m)"
    using distinct_card [OF distinct_js_map, of "map (\<lambda>s. (ds_index s, s)) shares"] by simp
  also have "fst ` set ?m = ds_index ` set shares"
    by (simp only: keys_js_map) (simp add: image_image)
  finally show ?thesis by (simp add: unique_shares_def min.commute)
qed

lemma combineShares_too_few:
  "card (ds_index ` set shares) < t \<Longrightarrow>
     combineShares C shares t = Inl (NeedShares t (card (ds_index ` set shares)))"
  by (simp add: combineShares_def Let_def length_unique_shares)

text \<open>The fold of \<open>combineShares\<close> over shares whose points are \<open>f(i)\<cdot>R\<close>.\<close>

lemma combine_fold:
  assumes C: "curve_laws C"
    and pts: "\<And>s. s \<in> set us \<Longrightarrow> parsePoint C (ds_share s) = Inr (smul C (f (ds_index s)) R)"
    and coeff: "\<And>s. s \<in> set us \<Longrightarrow> 0 < lam (ds_index s) \<and> lam (ds_index s) < grp_order C"
  shows "efold (\<lambda>K s. ebind (parsePoint C (ds_share s)) (\<lambda>P.
             ebind (pt_multiply C P (lam (ds_index s))) (\<lambda>Q. Inr (pt_add C K Q)))) A us
    = Inr (pt_add C A (smul C (sum_list (map (\<lambda>i. lam i * f i) (map ds_index us))) R))"
  using pts coeff
proof (induction us arbitrary: A)
  case Nil
  then show ?case using C by (simp add: curve)
next
  case (Cons s us)
  then show ?case
    using C by (simp add: curve smul_smul smul_add pt_add_assoc)
qed

lemma distinct_mod_small:
  "distinct xs \<Longrightarrow> \<forall>x \<in> set xs. 0 \<le> x \<and> x < L \<Longrightarrow> distinct_mod L xs"
  by (auto simp: distinct_mod_def distinct_map inj_on_def)

lemma combineShares_interp:
  assumes C: "curve_laws C" and t: "t \<le> card (ds_index ` set shares)"
    and pts: "\<And>s. s \<in> set shares \<Longrightarrow> parsePoint C (ds_share s) = Inr (smul C (f (ds_index s)) R)"
    and idx: "\<And>s. s \<in> set shares \<Longrightarrow> 0 < ds_index s \<and> ds_index s < grp_order C"
  shows "combineShares C shares t = Inr (pt_toBytes C
    (smul C (interp (grp_order C) (map ds_index (unique_shares shares t)) f) R))"
proof -
  let ?us = "unique_shares shares t"
  let ?xs = "map ds_index ?us"
  have sub: "s \<in> set ?us \<Longrightarrow> s \<in> set shares" for s using set_unique_shares by fastforce
  have dm: "distinct_mod (grp_order C) ?xs"
    using distinct_unique_shares idx sub by (intro distinct_mod_small) fastforce+
  have nz: "\<forall>x \<in> set ?xs. \<not> grp_order C dvd x"
    using idx sub not_dvd_range by fastforce
  have "0 < lagrangeAtZero (grp_order C) (ds_index s) ?xs \<and>
      lagrangeAtZero (grp_order C) (ds_index s) ?xs < grp_order C" if "s \<in> set ?us" for s
    using lagrange_nonzero [OF curve_order [OF C] dm _ nz, of "ds_index s"] that
      lagrangeAtZero_range [OF curve_order_gt_1 [OF C]] by simp
  then show ?thesis
    using combine_fold [OF C, of ?us f R "\<lambda>i. lagrangeAtZero (grp_order C) i ?xs" "pt_ZERO C"]
      pts sub t C
    by (simp add: combineShares_def Let_def length_unique_shares interp_def curve)
qed

text \<open>The point a set of correct shares determines.\<close>

lemma combineShares_poly:
  assumes C: "curve_laws C" and t: "0 < t" "t \<le> card (ds_index ` set shares)" and cs: "length cs \<le> t"
    and pts: "\<And>s. s \<in> set shares \<Longrightarrow> parsePoint C (ds_share s) = Inr (smul C (horner cs (ds_index s)) R)"
    and idx: "\<And>s. s \<in> set shares \<Longrightarrow> 0 < ds_index s \<and> ds_index s < grp_order C"
  shows "combineShares C shares t = Inr (pt_toBytes C (smul C (horner cs 0) R))"
proof -
  let ?us = "unique_shares shares t"
  let ?xs = "map ds_index ?us"
  have len: "length ?xs = t" using t by (simp add: length_unique_shares)
  have "distinct_mod (grp_order C) ?xs"
    using distinct_unique_shares idx set_unique_shares by (intro distinct_mod_small) fastforce+
  then have "cgr (grp_order C) (interp (grp_order C) ?xs (horner cs)) (horner cs 0)"
    using len t cs by (intro interpolation_at_zero curve_order C) auto
  then show ?thesis
    using combineShares_interp [OF C t(2) pts idx] smul_cgr by metis
qed

section \<open>Properties\<close>

text \<open>Facts about the sample parameters, for the examples below each property.\<close>

lemma sample_parsePoint:
  "a mod 101 \<noteq> 0 \<Longrightarrow> parsePoint sample_curve (bytesToHex (zp_toBytes (zp_of a))) = Inr (zp_of a)"
  using parsePoint_bytes [OF sample_curve_laws, of "zp_of a"] by (simp add: zp_of_eq_iff)

lemma sample_randomScalar:
  "0 < k \<Longrightarrow> k < 101 \<Longrightarrow> randomScalar 101 (sample_draw k # draws) = Inr k"
  by (simp add: le_value_sample_draw smod_nonneg)

lemma sample_BigInt: "0 \<le> k \<Longrightarrow> k < 101 \<Longrightarrow> BigInt_hex (scalarToHex k) = Inr k"
  by (rule BigInt_hex_scalarToHex [of _ 101]) simp_all

lemma sample_challenge: "challenge sample_curve (\<lambda>_. [b]) Ps = uint b mod 101"
  by (simp add: challenge_def le_value_def modL_mod)

lemma sample_toHex_eq_0: "scalarToHex k = scalarToHex 0 \<Longrightarrow> 0 \<le> k \<Longrightarrow> k < 101 \<Longrightarrow> k = 0"
  using scalarToHex_digits(3) [of k] scalarToHex_digits(3) [of 0] by simp

lemma partialDecrypt_complete:
  assumes C: "curve_laws C" and ds: "partialDecrypt C H draws share R = Inr ds"
    and y: "hexToScalar (grp_order C) (ks_secret share) = Inr y"
    and R: "R = pt_toBytes C Rp"
  shows "ds_index ds = ks_index share \<and> ds_share ds = pt_toHex C (smul C y Rp) \<and>
    (verifyDecryptionShare C H ds (pt_toHex C (smul C y (pt_BASE C))) R \<longleftrightarrow> ds_z ds \<noteq> scalarToHex 0)"
proof -
  let ?L = "grp_order C"
  obtain k where Rp: "Rp \<noteq> pt_ZERO C" and k: "0 < k" "k < ?L"
    and d: "ds = (let c = challenge C H [pt_BASE C, smul C y (pt_BASE C), Rp, smul C y Rp,
             smul C k (pt_BASE C), smul C k Rp] in
       \<lparr>ds_index = ks_index share, ds_share = pt_toHex C (smul C y Rp), ds_c = scalarToHex c,
        ds_z = scalarToHex (modL ?L (k + c * y))\<rparr>)"
    using partialDecrypt_Inr [OF C ds] y R C by (metis sum.inject(2) toBytes_inj)
  define c where "c = challenge C H [pt_BASE C, smul C y (pt_BASE C), Rp, smul C y Rp,
             smul C k (pt_BASE C), smul C k Rp]"
  define z where "z = modL ?L (k + c * y)"
  have yr: "0 < y" "y < ?L" using hexToScalar_range [OF y] by simp_all
  have c: "0 \<le> c" "c < ?L" using challenge_range [OF C] by (simp_all add: c_def)
  have z: "0 \<le> z" "z < ?L" using modL_range curve_order_gt_1 [OF C] by (simp_all add: z_def)
  have L: "?L \<le> 16 ^ 64" using C by (rule curve_order_le)
  have pts: "smul C y Rp \<noteq> pt_ZERO C" "smul C y (pt_BASE C) \<noteq> pt_ZERO C"
    using secret_point_nonzero [OF C yr] Rp BASE_not_ZERO [OF C] by simp_all
  have A: "pt_add C (smul C z (pt_BASE C)) (smul C (- c) (smul C y (pt_BASE C))) = smul C k (pt_BASE C)"
    "pt_add C (smul C z Rp) (smul C (- c) (smul C y Rp)) = smul C k Rp"
    unfolding z_def by (rule dleq_honest [OF C])+
  have "BigInt_hex (scalarToHex c) = Inr c" "BigInt_hex (scalarToHex z) = Inr z"
    using BigInt_hex_scalarToHex L c z by blast+
  moreover have "scalarToHex z = scalarToHex 0 \<longleftrightarrow> z = 0"
    using scalarToHex_digits(3) [of z] scalarToHex_digits(3) [of 0] z L by auto
  ultimately show ?thesis
    using d pts Rp z c A
    by (auto simp: verifyDecryptionShare_iff [OF C] R Let_def parsePoint_toHex [OF C]
        parsePoint_bytes [OF C] simp flip: c_def z_def)
qed

text \<open>Completeness of the decryption-share proof.  The share a validator computes with its
  secret \<open>y\<close> carries the point \<open>y\<cdot>R\<close> under its own index and passes the check against
  \<open>Y = y\<cdot>G\<close>, except in the one case the check excludes: a response \<open>z\<close> that is \<open>0\<close>.\<close>

theorem partialDecrypt_accepted:
  assumes C: "curve_laws C" and ds: "partialDecrypt C H draws share R = Inr ds"
    and y: "hexToScalar (grp_order C) (ks_secret share) = Inr y"
    and R: "R = pt_toBytes C Rp"
  shows "ds_index ds = ks_index share \<and> ds_share ds = pt_toHex C (smul C y Rp) \<and>
    (verifyDecryptionShare C H ds (pt_toHex C (smul C y (pt_BASE C))) R \<longleftrightarrow> ds_z ds \<noteq> scalarToHex 0)"
  using assms by (rule partialDecrypt_complete)

text \<open>Secret \<open>5\<close>, \<open>R = 3\<cdot>G\<close>, commitment \<open>4\<close> and challenge \<open>7\<close>: the share carries \<open>15\<cdot>G\<close> and is accepted.\<close>

theorem partialDecrypt_accepted_witness:
  "\<exists>ds. partialDecrypt sample_curve (\<lambda>_. [7]) [sample_draw 4]
        \<lparr>ks_index = 2, ks_secret = scalarToHex 5, ks_verificationKey = []\<rparr> (zp_toBytes (zp_of 3)) = Inr ds \<and>
     ds_index ds = 2 \<and> ds_share ds = bytesToHex (zp_toBytes (zp_of 15)) \<and>
     verifyDecryptionShare sample_curve (\<lambda>_. [7]) ds (bytesToHex (zp_toBytes (zp_of 5))) (zp_toBytes (zp_of 3))"
proof -
  let ?ks = "\<lparr>ks_index = 2, ks_secret = scalarToHex 5, ks_verificationKey = []\<rparr>"
  have y: "hexToScalar (grp_order sample_curve) (ks_secret ?ks) = Inr 5"
    by (simp add: sample_hexToScalar)
  obtain ds where ds: "partialDecrypt sample_curve (\<lambda>_. [7]) [sample_draw 4] ?ks (zp_toBytes (zp_of 3)) = Inr ds"
    using partialDecrypt_ok [OF sample_curve_laws y, of "zp_toBytes (zp_of 3)" "zp_of 3" "[sample_draw 4]" 4]
      sample_randomScalar [of 4] by (auto simp: zp_of_eq_iff)
  have "ds_z ds = scalarToHex 39"
  proof -
    have "randomScalar 101 [sample_draw 4] = Inr 4" by (rule sample_randomScalar) simp_all
    then show ?thesis
      using ds y sample_parsePoint [of 3] multiply_ok [OF sample_curve_laws]
      by (auto simp: partialDecrypt_def Let_def sample_challenge modL_mod)
  qed
  then have "ds_z ds \<noteq> scalarToHex 0" using sample_toHex_eq_0 [of 39] by auto
  then show ?thesis
    using ds partialDecrypt_accepted [OF sample_curve_laws ds y, of "zp_of 3"]
    by (simp add: smul_sample_of)
qed



text \<open>C10: Threshold decryption works with any qualified set of shares.  If the secret shares lie
  on a polynomial of degree below \<open>t\<close> (\<open>cs\<close> has at most \<open>t\<close> coefficients) and each decryption
  share of a list carries \<open>f(i)\<cdot>R\<close> for its index \<open>i\<close>, then whatever validators answered, in
  whatever order, with whatever repetitions, as soon as \<open>t\<close> distinct indices are among them
  \<open>combineShares\<close> returns the encoding of \<open>f(0)\<cdot>R\<close>; with fewer it throws.\<close>

theorem combineShares_threshold:
  assumes "curve_laws C" and "0 < t" and "length cs \<le> t"
    and "\<And>s. s \<in> set shares \<Longrightarrow> parsePoint C (ds_share s) = Inr (smul C (horner cs (ds_index s)) R)"
    and "\<And>s. s \<in> set shares \<Longrightarrow> 0 < ds_index s \<and> ds_index s < grp_order C"
  shows "combineShares C shares t =
    (if t \<le> card (ds_index ` set shares) then Inr (pt_toBytes C (smul C (horner cs 0) R))
     else Inl (NeedShares t (card (ds_index ` set shares))))"
  using combineShares_poly [OF assms(1,2) _ assms(3-5)] combineShares_too_few [of shares t C]
  by simp

text \<open>Three of the shares \<open>f(i)\<cdot>3\<close> of \<open>f(x) = 5 + 7x\<close>, one of them twice, out of order, combine to \<open>15\<cdot>G\<close>.\<close>

definition sample_share :: "int \<Rightarrow> decryption_share" where
  "sample_share i = \<lparr>ds_index = i, ds_share = bytesToHex (zp_toBytes (zp_of ((5 + 7 * i) * 3))),
     ds_c = [], ds_z = []\<rparr>"

theorem combineShares_threshold_witness:
  "combineShares sample_curve [sample_share 4, sample_share 1, sample_share 4] 2 = Inr (zp_toBytes (zp_of 15)) \<and>
   combineShares sample_curve [sample_share 4, sample_share 4] 2 = Inl (NeedShares 2 1)"
proof -
  have pt: "parsePoint sample_curve (ds_share (sample_share i))
      = Inr (smul sample_curve (horner [5, 7] (ds_index (sample_share i))) (zp_of 3))" if "i = 1 \<or> i = 4" for i
  proof -
    have "((5 + 7 * i) * 3) mod 101 \<noteq> 0" using that by auto
    then show ?thesis
      by (simp add: sample_share_def sample_parsePoint smul_sample_of mult.commute)
  qed
  have len: "0 < (2 :: nat)" "length [5, 7 :: int] \<le> 2" by simp_all
  have idx: "ds_index (sample_share i) = i" for i by (simp add: sample_share_def)
  have p0: "pt_toBytes sample_curve (smul sample_curve (horner [5, 7] 0) (zp_of 3)) = zp_toBytes (zp_of 15)"
    by (simp add: smul_sample_of)
  have pts: "parsePoint sample_curve (ds_share s)
      = Inr (smul sample_curve (horner [5, 7] (ds_index s)) (zp_of 3))"
    and rng: "0 < ds_index s \<and> ds_index s < grp_order sample_curve"
    if "s \<in> {sample_share 1, sample_share 4}" for s
    using that pt [of 1] pt [of 4] idx by auto
  have card: "card {4, 1, 4 :: int} = 2" "card {4 :: int} = 1" by (simp_all add: card_insert_if)
  have "combineShares sample_curve [sample_share 4, sample_share 1, sample_share 4] 2 =
      Inr (pt_toBytes sample_curve (smul sample_curve (horner [5, 7] 0) (zp_of 3)))"
  proof -
    have "ds_index ` set [sample_share 4, sample_share 1, sample_share 4] = {4, 1, 4}"
      by (simp only: list.set image_insert image_empty idx)
    then show ?thesis
      using combineShares_threshold [OF sample_curve_laws len,
          of "[sample_share 4, sample_share 1, sample_share 4]" "zp_of 3"] pts rng card(1)
      by (metis (no_types, lifting) insert_commute insert_absorb2 list.set order_refl)
  qed
  moreover have "combineShares sample_curve [sample_share 4, sample_share 4] 2 = Inl (NeedShares 2 1)"
  proof -
    have "ds_index ` set [sample_share 4, sample_share 4] = {4}"
      by (simp only: list.set image_insert image_empty idx insert_absorb2)
    then show ?thesis
      using combineShares_threshold [OF sample_curve_laws len,
          of "[sample_share 4, sample_share 4]" "zp_of 3"] pts rng card(2)
      by (metis (no_types, lifting) insert_commute insert_absorb2 insertI1 insertI2 list.set
          numeral_le_one_iff semiring_norm(69))
  qed
  ultimately show ?thesis using p0 by simp
qed

end
