(* ===== verification/Dkg.thy ===== *)
theory Dkg
  imports Threshold
begin

text \<open>
  \<open>backend/src/crypto/dkg.ts\<close>: the Joint-Feldman key generation with complaints.  First the
  public computation every participant and auditor repeats (\<open>evalCommitments\<close>,
  \<open>shareMatches\<close>, \<open>computePublicResult\<close>), then one participant's side of the four
  rounds (\<open>deal\<close>, \<open>receive\<close>, \<open>respond\<close>, \<open>finalize\<close>) as functions on the participant's state.
  The lemmas show that a result that is computed at all is a sharing of one group secret of
  degree below the threshold, whoever cheated, and that finalized participants hold its shares.
\<close>

section \<open>Messages\<close>

text \<open>\<open>commitments\<close> is \<open>None\<close> where the received value is not an array.\<close>

record dealer_broadcast =
  db_dealer :: int
  db_commitments :: "jsstring list option"

record encrypted_share =
  es_dealer :: int
  es_recipient :: int
  es_ciphertext :: jsstring

record complaint =
  cp_complainer :: int
  cp_dealer :: int

record reveal =
  rv_dealer :: int
  rv_recipient :: int
  rv_share :: jsstring

record dkg_transcript =
  tr_broadcasts :: "dealer_broadcast list"
  tr_complaints :: "complaint list"
  tr_reveals :: "reveal list"

record dkg_public_result =
  pr_threshold :: nat
  pr_qualified :: "int list"
  pr_groupPublicKey :: jsstring
  pr_verificationKeys :: "(int \<times> jsstring) list"

section \<open>The public computation\<close>

definition shareContext :: "jsstring \<Rightarrow> int \<Rightarrow> int \<Rightarrow> jsstring" where
  "shareContext sessionId dealer recipient =
     js ''cipher-protocol/dkg/'' @ sessionId @ js ''/'' @ int_to_string 10 dealer @ js ''->''
       @ int_to_string 10 recipient"

text \<open>The loop of \<open>evalCommitments\<close> over the pair \<open>(acc, power)\<close>.\<close>

definition evalCommitments :: "'p curve \<Rightarrow> 'p list \<Rightarrow> int \<Rightarrow> error + 'p" where
  "evalCommitments C commitments j =
     ebind (efold (\<lambda>(acc, power) P.
         ebind (pt_multiplyUnsafe C P power) (\<lambda>Q.
           Inr (pt_add C acc Q, modL (grp_order C) (power * j))))
       (pt_ZERO C, 1) commitments)
     (\<lambda>(acc, power). Inr acc)"

definition parseCommitments :: "'p curve \<Rightarrow> dealer_broadcast option \<Rightarrow> nat \<Rightarrow> 'p list option" where
  "parseCommitments C b threshold =
     (case b of None \<Rightarrow> None
      | Some b' \<Rightarrow> (case db_commitments b' of None \<Rightarrow> None
        | Some cs \<Rightarrow>
            if length cs \<noteq> threshold then None
            else (case emap (parsePoint C) cs of Inl _ \<Rightarrow> None | Inr Ps \<Rightarrow> Some Ps)))"

definition shareMatches :: "'p curve \<Rightarrow> jsstring \<Rightarrow> 'p list \<Rightarrow> int \<Rightarrow> bool" where
  "shareMatches C shareHex commitments recipient =
     ecatch
       (ebind (hexToScalar (grp_order C) shareHex) (\<lambda>s.
        ebind (pt_multiply C (pt_BASE C) s) (\<lambda>P.
        ebind (evalCommitments C commitments recipient) (\<lambda>Q. Inr (P = Q)))))
       False"

text \<open>The map \<open>commitmentsBy\<close>: a dealer with two broadcasts equivocates and is left out.\<close>

definition commitmentsBy ::
  "'p curve \<Rightarrow> dkg_transcript \<Rightarrow> int list \<Rightarrow> nat \<Rightarrow> (int \<times> 'p list) list" where
  "commitmentsBy C tr participants threshold =
     foldl (\<lambda>m dealer.
         let own = filter (\<lambda>b. db_dealer b = dealer) (tr_broadcasts tr);
             parsed = (if length own = 1 then parseCommitments C (Some (hd own)) threshold else None)
         in case parsed of None \<Rightarrow> m | Some Ps \<Rightarrow> AList.update dealer Ps m)
       [] participants"

definition is_qualified ::
  "'p curve \<Rightarrow> dkg_transcript \<Rightarrow> int list \<Rightarrow> (int \<times> 'p list) list \<Rightarrow> int \<Rightarrow> bool" where
  "is_qualified C tr participants by dealer =
     (case map_of by dealer of None \<Rightarrow> False
      | Some Cs \<Rightarrow>
          let against = filter (\<lambda>c. cp_dealer c = dealer \<and> cp_complainer c \<in> set participants)
                (tr_complaints tr)
          in list_all (\<lambda>c.
               list_ex (\<lambda>r. rv_dealer r = dealer \<and> rv_recipient r = cp_complainer c \<and>
                   shareMatches C (rv_share r) Cs (cp_complainer c)) (tr_reveals tr)) against)"

definition computePublicResult ::
  "'p curve \<Rightarrow> dkg_transcript \<Rightarrow> int list \<Rightarrow> nat \<Rightarrow> error + dkg_public_result" where
  "computePublicResult C tr participants threshold =
     (let by = commitmentsBy C tr participants threshold;
          qualified = filter (is_qualified C tr participants by) participants in
      if length qualified < threshold then Inl (TooFewQualified (length qualified) threshold)
      else
        ebind (efold (\<lambda>Y d. case map_of by d of Some (P # Ps) \<Rightarrow> Inr (pt_add C Y P) | _ \<Rightarrow> Inl TypeError)
          (pt_ZERO C) qualified) (\<lambda>Y.
        if Y = pt_ZERO C then Inl GroupKeyIdentity
        else
          ebind (efold (\<lambda>keys j.
              ebind (efold (\<lambda>Yj d. case map_of by d of
                    None \<Rightarrow> Inl TypeError
                  | Some Cs \<Rightarrow> ebind (evalCommitments C Cs j) (\<lambda>Q. Inr (pt_add C Yj Q)))
                (pt_ZERO C) qualified) (\<lambda>Yj.
              Inr (AList.update j (pt_toHex C Yj) keys))) [] participants) (\<lambda>keys.
          Inr \<lparr>pr_threshold = threshold, pr_qualified = qualified,
               pr_groupPublicKey = pt_toHex C Y, pr_verificationKeys = keys\<rparr>)))"

section \<open>One participant\<close>

record dkg_faults =
  df_corruptSharesTo :: "int list"
  df_lieOnReveal :: bool

record dkg_participant =
  dp_transportSecret :: int
  dp_transportPublicKey :: jsstring
  dp_coeffs :: "int list"
  dp_received :: "(int \<times> jsstring) list"
  dp_index :: int
  dp_threshold :: nat
  dp_participants :: "int list"
  dp_sessionId :: jsstring
  dp_faults :: dkg_faults

text \<open>
  The constructor; the field initializers run before its checks.  \<open>tdraws\<close> are the random
  samples of the transport secret, \<open>cdraws k\<close> those of coefficient \<open>k\<close>.
\<close>

definition newParticipant ::
  "'p curve \<Rightarrow> byte list list \<Rightarrow> (nat \<Rightarrow> byte list list) \<Rightarrow> int \<Rightarrow> nat \<Rightarrow> int list \<Rightarrow> jsstring \<Rightarrow> dkg_faults
     \<Rightarrow> error + dkg_participant" where
  "newParticipant C tdraws cdraws index threshold participants sessionId faults =
     ebind (randomScalar (grp_order C) tdraws) (\<lambda>ts.
     ebind (pt_multiply C (pt_BASE C) ts) (\<lambda>tp.
     if index \<notin> set participants then Inl NotAParticipant
     else if threshold < 1 \<or> threshold > length participants then Inl InvalidThreshold
     else
       ebind (emap (\<lambda>k. randomScalar (grp_order C) (cdraws k)) [0..<threshold]) (\<lambda>coeffs.
         Inr \<lparr>dp_transportSecret = ts, dp_transportPublicKey = pt_toHex C tp, dp_coeffs = coeffs,
              dp_received = [], dp_index = index, dp_threshold = threshold,
              dp_participants = participants, dp_sessionId = sessionId, dp_faults = faults\<rparr>)))"

text \<open>\<open>f(x)\<close>, by \<open>reduceRight\<close>.\<close>

definition dp_f :: "'p curve \<Rightarrow> dkg_participant \<Rightarrow> int \<Rightarrow> int" where
  "dp_f C p x = foldr (\<lambda>a acc. modL (grp_order C) (acc * x + a)) (dp_coeffs p) 0"

text \<open>Round 1; \<open>edraws j\<close> and \<open>enonce j\<close> are the randomness of the encryption to \<open>j\<close>.\<close>

definition deal ::
  "'p curve \<Rightarrow> webcrypto \<Rightarrow> (int \<Rightarrow> byte list list) \<Rightarrow> (int \<Rightarrow> byte list) \<Rightarrow> dkg_participant
     \<Rightarrow> (int \<times> jsstring) list \<Rightarrow> error + (dealer_broadcast \<times> encrypted_share list)" where
  "deal C W edraws enonce p transportKeys =
     ebind (emap (\<lambda>a. ebind (pt_multiply C (pt_BASE C) a) (\<lambda>P. Inr (pt_toHex C P))) (dp_coeffs p)) (\<lambda>cs.
     ebind (emap (\<lambda>j.
         let s = dp_f C p j;
             s' = (if j \<in> set (df_corruptSharesTo (dp_faults p)) then modL (grp_order C) (s + 1) else s)
         in case map_of transportKeys j of
              None \<Rightarrow> Inl TypeError
            | Some key \<Rightarrow>
                ebind (encryptOrder C W (edraws j) (enonce j) (scalarToHex s') key
                    (shareContext (dp_sessionId p) (dp_index p) j)) (\<lambda>ct.
                Inr \<lparr>es_dealer = dp_index p, es_recipient = j, es_ciphertext = ct\<rparr>))
       (dp_participants p)) (\<lambda>shares.
     Inr (\<lparr>db_dealer = dp_index p, db_commitments = Some cs\<rparr>, shares)))"

text \<open>Opening one encrypted share; any exception is caught and gives \<open>null\<close>.\<close>

definition openShare :: "'p curve \<Rightarrow> webcrypto \<Rightarrow> dkg_participant \<Rightarrow> int \<Rightarrow> jsstring \<Rightarrow> jsstring option" where
  "openShare C W p dealer ciphertext =
     ecatch
       (ebind (parseCiphertext C ciphertext) (\<lambda>pc.
        ebind (pt_fromBytes C (pc_R pc)) (\<lambda>R.
        ebind (pt_multiply C R (dp_transportSecret p)) (\<lambda>K.
        ebind (decryptWithSharedPoint C W ciphertext (pt_toBytes C K)
            (shareContext (dp_sessionId p) dealer (dp_index p))) (\<lambda>s.
          Inr (Some s))))))
       None"

text \<open>
  Round 2, the loop over the dealers.  The method updates \<open>received\<close> as it goes, also when it
  throws later, so the state is returned beside the result.
\<close>

fun receive_from ::
  "'p curve \<Rightarrow> webcrypto \<Rightarrow> dealer_broadcast list \<Rightarrow> encrypted_share list \<Rightarrow> dkg_participant
     \<Rightarrow> complaint list \<Rightarrow> int list \<Rightarrow> dkg_participant \<times> (error + complaint list)" where
  "receive_from C W broadcasts shares p complaints [] = (p, Inr complaints)"
| "receive_from C W broadcasts shares p complaints (dealer # dealers) =
     (let commitments = parseCommitments C (List.find (\<lambda>b. db_dealer b = dealer) broadcasts) (dp_threshold p);
          msg = List.find (\<lambda>s. es_dealer s = dealer \<and> es_recipient s = dp_index p) shares
      in case (commitments, msg) of
           (Some Cs, None) \<Rightarrow> (p, Inl (NoShareFrom dealer))
         | (None, _) \<Rightarrow> receive_from C W broadcasts shares p complaints dealers
         | (Some Cs, Some m) \<Rightarrow>
             (case openShare C W p dealer (es_ciphertext m) of
                Some share \<Rightarrow>
                  if share \<noteq> [] \<and> shareMatches C share Cs (dp_index p)
                  then receive_from C W broadcasts shares
                    (p\<lparr>dp_received := AList.update dealer share (dp_received p)\<rparr>) complaints dealers
                  else receive_from C W broadcasts shares p
                    (complaints @ [\<lparr>cp_complainer = dp_index p, cp_dealer = dealer\<rparr>]) dealers
              | None \<Rightarrow> receive_from C W broadcasts shares p
                    (complaints @ [\<lparr>cp_complainer = dp_index p, cp_dealer = dealer\<rparr>]) dealers))"

definition receive ::
  "'p curve \<Rightarrow> webcrypto \<Rightarrow> dealer_broadcast list \<Rightarrow> encrypted_share list \<Rightarrow> dkg_participant
     \<Rightarrow> dkg_participant \<times> (error + complaint list)" where
  "receive C W broadcasts shares p = receive_from C W broadcasts shares p [] (dp_participants p)"

text \<open>Round 3.\<close>

definition respond :: "'p curve \<Rightarrow> dkg_participant \<Rightarrow> complaint list \<Rightarrow> reveal list" where
  "respond C p complaints =
     map (\<lambda>c.
         let s = (if df_lieOnReveal (dp_faults p) then modL (grp_order C) (dp_f C p (cp_complainer c) + 7)
                  else dp_f C p (cp_complainer c))
         in \<lparr>rv_dealer = dp_index p, rv_recipient = cp_complainer c, rv_share = scalarToHex s\<rparr>)
       (filter (\<lambda>c. cp_dealer c = dp_index p) complaints)"

text \<open>Round 4: the share taken for one qualified dealer, and the method.\<close>

definition share_from :: "dkg_participant \<Rightarrow> dkg_transcript \<Rightarrow> int \<Rightarrow> jsstring option" where
  "share_from p tr dealer =
     (case map_of (dp_received p) dealer of
        Some s \<Rightarrow> Some s
      | None \<Rightarrow> map_option rv_share
          (List.find (\<lambda>r. rv_dealer r = dealer \<and> rv_recipient r = dp_index p) (tr_reveals tr)))"

definition sum_shares :: "'p curve \<Rightarrow> dkg_participant \<Rightarrow> dkg_transcript \<Rightarrow> int list \<Rightarrow> error + int" where
  "sum_shares C p tr dealers =
     efold (\<lambda>y dealer. case share_from p tr dealer of
           None \<Rightarrow> Inl (NoValidShareFrom dealer)
         | Some s \<Rightarrow>
             if s = [] then Inl (NoValidShareFrom dealer)
             else ebind (hexToScalar (grp_order C) s) (\<lambda>n. Inr (modL (grp_order C) (y + n))))
       0 dealers"

definition finalize ::
  "'p curve \<Rightarrow> dkg_participant \<Rightarrow> dkg_transcript \<Rightarrow> error + (key_share \<times> dkg_public_result)" where
  "finalize C p tr =
     ebind (computePublicResult C tr (dp_participants p) (dp_threshold p)) (\<lambda>result.
     ebind (sum_shares C p tr (pr_qualified result)) (\<lambda>y.
     if y = 0 \<or> y \<ge> grp_order C then Inl DegenerateKeyShare
     else
       ebind (pt_multiply C (pt_BASE C) y) (\<lambda>P.
       let verificationKey = pt_toHex C P in
       if map_of (pr_verificationKeys result) (dp_index p) \<noteq> Some verificationKey
       then Inl InconsistentKeyShare
       else Inr (\<lparr>ks_index = dp_index p, ks_secret = scalarToHex y,
                  ks_verificationKey = verificationKey\<rparr>, result))))"

section \<open>Commitments to polynomials\<close>

text \<open>\<open>commit C cs\<close>: the points \<open>a\<^sub>k\<cdot>G\<close> of a coefficient list.  Every list of points is one.\<close>

definition commit :: "'p curve \<Rightarrow> int list \<Rightarrow> 'p list" where
  "commit C cs = map (\<lambda>a. smul C a (pt_BASE C)) cs"

lemma length_commit [simp]: "length (commit C cs) = length cs"
  by (simp add: commit_def)

lemma commit_surj: "curve_laws C \<Longrightarrow> \<exists>cs. Ps = commit C cs"
proof (induction Ps)
  case (Cons P Ps)
  then obtain cs where "Ps = commit C cs" by blast
  moreover obtain a where "P = smul C a (pt_BASE C)" using dlog [OF Cons.prems] by blast
  ultimately have "P # Ps = commit C (a # cs)" by (simp add: commit_def)
  then show ?case ..
qed (simp add: commit_def)

lemma evalCommitments_fold:
  assumes C: "curve_laws C" and "0 \<le> pw" "pw < grp_order C"
  shows "\<exists>pw'. efold (\<lambda>(acc, pw) P.
         ebind (pt_multiplyUnsafe C P pw) (\<lambda>Q.
           Inr (pt_add C acc Q, modL (grp_order C) (pw * j)))) (A, pw) (commit C cs)
    = Inr (pt_add C A (smul C (pw * horner cs j) (pt_BASE C)), pw')"
  using assms(2,3)
proof (induction cs arbitrary: A pw)
  case Nil
  then show ?case using C by (simp add: commit_def curve)
next
  case (Cons a cs)
  have L: "0 < grp_order C" using curve_order_gt_1 [OF C] by simp
  let ?p = "modL (grp_order C) (pw * j)" and ?A = "pt_add C A (smul C (pw * a) (pt_BASE C))"
  have p: "0 \<le> ?p" "?p < grp_order C" using modL_range [OF L] by simp_all
  have "smul C (?p * horner cs j) (pt_BASE C) = smul C (pw * j * horner cs j) (pt_BASE C)"
    using L by (intro smul_cgr) (simp add: modL_mod mod_mult_left_eq)
  then have "pt_add C ?A (smul C (?p * horner cs j) (pt_BASE C))
      = pt_add C A (smul C (pw * horner (a # cs) j) (pt_BASE C))"
    using C by (simp add: pt_add_assoc distrib_left mult.assoc flip: smul_add)
  then show ?case
    using Cons.IH [OF p, of ?A] Cons.prems C by (simp add: commit_def curve smul_smul)
qed

lemma evalCommitments_commit [curve]:
  "curve_laws C \<Longrightarrow> evalCommitments C (commit C cs) j = Inr (smul C (horner cs j) (pt_BASE C))"
  using evalCommitments_fold [of C 1 j "pt_ZERO C" cs] curve_order_gt_1 [of C]
  by (auto simp: evalCommitments_def curve)

text \<open>A share passes exactly when it is the value of the committed polynomial modulo \<open>L\<close>.\<close>

lemma shareMatches_commit:
  assumes "curve_laws C"
  shows "shareMatches C h (commit C cs) j \<longleftrightarrow>
    (\<exists>s. hexToScalar (grp_order C) h = Inr s \<and> cgr (grp_order C) s (horner cs j))"
proof (cases "hexToScalar (grp_order C) h")
  case (Inr s)
  then show ?thesis
    using assms hexToScalar_range [OF Inr]
    by (simp add: shareMatches_def curve smul_BASE_inj)
qed (simp add: shareMatches_def)

lemma parseCommitments_Some:
  "parseCommitments C b t = Some Ps \<longleftrightarrow>
     (\<exists>b' cs. b = Some b' \<and> db_commitments b' = Some cs \<and> length cs = t \<and> emap (parsePoint C) cs = Inr Ps)"
  by (auto simp: parseCommitments_def split: option.splits sum.splits)

lemma parseCommitments_length: "parseCommitments C b t = Some Ps \<Longrightarrow> length Ps = t"
  by (auto simp: parseCommitments_Some dest: length_emap)

text \<open>The polynomial of a participant is read by Horner's rule.\<close>

lemma dp_f_horner:
  assumes "0 < grp_order C"
  shows "dp_f C p x = horner (dp_coeffs p) x mod grp_order C"
proof -
  have "foldr (\<lambda>a acc. modL (grp_order C) (acc * x + a)) cs 0 = horner cs x mod grp_order C" for cs
    using assms
    by (induction cs) (simp_all add: modL_mod mod_add_left_eq mod_mult_left_eq mod_add_eq
        mult.commute add.commute, metis mod_add_right_eq mod_mult_right_eq)
  then show ?thesis by (simp add: dp_f_def)
qed

section \<open>The public result\<close>

text \<open>What the map \<open>commitmentsBy\<close> holds for a dealer.\<close>

definition dealt :: "'p curve \<Rightarrow> dkg_transcript \<Rightarrow> nat \<Rightarrow> int \<Rightarrow> 'p list option" where
  "dealt C tr t d =
     (let own = filter (\<lambda>b. db_dealer b = d) (tr_broadcasts tr) in
      if length own = 1 then parseCommitments C (Some (hd own)) t else None)"

lemma commitmentsBy_lookup:
  "map_of (commitmentsBy C tr ps t) d = (if d \<in> set ps then dealt C tr t d else None)"
proof -
  have "map_of (foldl (\<lambda>m dealer. case dealt C tr t dealer of None \<Rightarrow> m
          | Some Ps \<Rightarrow> AList.update dealer Ps m) m ps) d
      = (if d \<in> set ps \<and> dealt C tr t d \<noteq> None then dealt C tr t d else map_of m d)" for m
    by (induction ps arbitrary: m) (auto simp: update_conv split: option.splits)
  then show ?thesis
    by (auto simp: commitmentsBy_def dealt_def Let_def)
qed

lemma dealt_length: "dealt C tr t d = Some Ps \<Longrightarrow> length Ps = t"
  by (auto simp: dealt_def Let_def parseCommitments_length split: if_splits)

text \<open>The coefficients a dealer committed to, when its broadcast is well formed.\<close>

lemma dealt_polynomials:
  assumes "curve_laws C"
  shows "\<exists>F. \<forall>d. dealt C tr t d = (if dealt C tr t d = None then None else Some (commit C (F d)))"
proof -
  have "\<exists>cs. dealt C tr t d = (if dealt C tr t d = None then None else Some (commit C cs))" for d
    using commit_surj [OF assms] by (cases "dealt C tr t d") auto
  then show ?thesis by metis
qed

lemma efold_sum_points:
  assumes "curve_laws C" and "\<And>d. d \<in> set ds \<Longrightarrow> g d = Inr (smul C (f d) (pt_BASE C))"
  shows "efold (\<lambda>Y d. ebind (g d) (\<lambda>P. Inr (pt_add C Y P))) A ds
    = Inr (pt_add C A (smul C (\<Sum>d\<leftarrow>ds. f d) (pt_BASE C)))"
  using assms(2)
proof (induction ds arbitrary: A)
  case (Cons d ds)
  then show ?case using assms(1) by (simp add: pt_add_assoc flip: smul_add)
qed (use assms(1) in \<open>simp add: curve\<close>)

lemma efold_fun_cong:
  "(\<And>acc x. x \<in> set xs \<Longrightarrow> f acc x = g acc x) \<Longrightarrow> efold f acc xs = efold g acc xs"
proof (induction xs arbitrary: acc)
  case (Cons x xs)
  then show ?case by (cases "g acc x") simp_all
qed simp

lemma efold_update_keys:
  "(\<And>j. j \<in> set ids \<Longrightarrow> g j = Inr (h j)) \<Longrightarrow>
     \<exists>m'. efold (\<lambda>m j. ebind (g j) (\<lambda>P. Inr (AList.update j P m))) m ids = Inr m' \<and>
       (\<forall>j. map_of m' j = (if j \<in> set ids then Some (h j) else map_of m j))"
proof (induction ids arbitrary: m)
  case (Cons j ids)
  then have "g i = Inr (h i)" if "i \<in> set ids" for i using that by simp
  from Cons.IH [OF this, of "AList.update j (h j) m"]
  obtain m' where m': "efold (\<lambda>m j. ebind (g j) (\<lambda>P. Inr (AList.update j P m)))
      (AList.update j (h j) m) ids = Inr m'"
    "\<And>i. map_of m' i = (if i \<in> set ids then Some (h i) else map_of (AList.update j (h j) m) i)"
    by blast
  have "map_of m' i = (if i \<in> set (j # ids) then Some (h i) else map_of m i)" for i
    by (simp add: m'(2) update_conv)
  then show ?case using m'(1) Cons.prems by simp
qed simp

text \<open>
  Whoever cheated, a computed result commits to one polynomial per qualified dealer: the
  group key is the sum of their values at \<open>0\<close>, each verification key the sum at its index.
\<close>

lemma computePublicResult_polynomials:
  assumes C: "curve_laws C" and ok: "computePublicResult C tr ps t = Inr res"
  obtains F where "pr_threshold res = t" "0 < t" "t \<le> length (pr_qualified res)"
    "pr_qualified res = filter (is_qualified C tr ps (commitmentsBy C tr ps t)) ps"
    "\<forall>d \<in> set (pr_qualified res). dealt C tr t d = Some (commit C (F d)) \<and> length (F d) = t"
    "pr_groupPublicKey res = pt_toHex C (smul C (\<Sum>d\<leftarrow>pr_qualified res. horner (F d) 0) (pt_BASE C))"
    "smul C (\<Sum>d\<leftarrow>pr_qualified res. horner (F d) 0) (pt_BASE C) \<noteq> pt_ZERO C"
    "\<forall>j. map_of (pr_verificationKeys res) j =
       (if j \<in> set ps then Some (pt_toHex C (smul C (\<Sum>d\<leftarrow>pr_qualified res. horner (F d) j) (pt_BASE C)))
        else None)"
proof -
  let ?by = "commitmentsBy C tr ps t"
  let ?q = "filter (is_qualified C tr ps ?by) ps"
  let ?G = "pt_BASE C"
  obtain F where F: "\<And>d. dealt C tr t d = (if dealt C tr t d = None then None else Some (commit C (F d)))"
    using dealt_polynomials [OF C] by metis
  have by_F: "map_of ?by d = Some (commit C (F d))" "dealt C tr t d = Some (commit C (F d))" "length (F d) = t"
    if "d \<in> set ?q" for d
  proof -
    have "map_of ?by d \<noteq> None" "d \<in> set ps" using that by (auto simp: is_qualified_def split: option.splits)
    then show d: "dealt C tr t d = Some (commit C (F d))" using F [of d]
      by (auto simp: commitmentsBy_lookup split: if_splits)
    then show "map_of ?by d = Some (commit C (F d))" using \<open>d \<in> set ps\<close> by (simp add: commitmentsBy_lookup)
    show "length (F d) = t" using dealt_length [OF d] by simp
  qed
  let ?addY = "\<lambda>Y d. case map_of ?by d of Some (P # Ps) \<Rightarrow> Inr (pt_add C Y P) | _ \<Rightarrow> Inl TypeError"
  let ?key = "\<lambda>j. efold (\<lambda>Yj d. case map_of ?by d of None \<Rightarrow> Inl TypeError
      | Some Cs \<Rightarrow> ebind (evalCommitments C Cs j) (\<lambda>Q. Inr (pt_add C Yj Q))) (pt_ZERO C) ?q"
  from ok obtain Y keys where len: "t \<le> length ?q" and Y: "efold ?addY (pt_ZERO C) ?q = Inr Y"
    and Y0: "Y \<noteq> pt_ZERO C"
    and keys: "efold (\<lambda>keys j. ebind (?key j) (\<lambda>Yj. Inr (AList.update j (pt_toHex C Yj) keys))) [] ps = Inr keys"
    and res: "res = \<lparr>pr_threshold = t, pr_qualified = ?q, pr_groupPublicKey = pt_toHex C Y, pr_verificationKeys = keys\<rparr>"
    by (auto simp: computePublicResult_def Let_def ebind_eq_Inr not_less split: if_splits)
  have t: "0 < t"
  proof (rule ccontr)
    assume "\<not> 0 < t"
    then have "?q = []"
    proof (cases ?q)
      case (Cons d ds)
      then have "F d = []" using by_F(3) [of d] \<open>\<not> 0 < t\<close> by simp
      then have "?addY (pt_ZERO C) d = Inl TypeError" using by_F(1) [of d] Cons by (simp add: commit_def)
      then show ?thesis using Y Cons by simp
    qed simp
    then show False using Y Y0 by simp
  qed
  have "?addY A d = ebind (Inr (smul C (horner (F d) 0) ?G)) (\<lambda>P. Inr (pt_add C A P))" if "d \<in> set ?q" for A d
    using by_F [OF that] t by (cases "F d") (simp_all add: commit_def)
  then have "efold ?addY (pt_ZERO C) ?q = Inr (pt_add C (pt_ZERO C) (smul C (\<Sum>d\<leftarrow>?q. horner (F d) 0) ?G))"
    by (subst efold_fun_cong, assumption) (rule efold_sum_points [OF C], simp)
  then have Y_eq: "Y = smul C (\<Sum>d\<leftarrow>?q. horner (F d) 0) ?G" using Y C by (simp add: curve)
  have key: "?key j = Inr (smul C (\<Sum>d\<leftarrow>?q. horner (F d) j) ?G)" for j
  proof -
    have "?key j = efold (\<lambda>Yj d. ebind (evalCommitments C (commit C (F d)) j) (\<lambda>Q. Inr (pt_add C Yj Q))) (pt_ZERO C) ?q"
      by (rule efold_fun_cong) (use by_F(1) in simp)
    also have "\<dots> = Inr (pt_add C (pt_ZERO C) (smul C (\<Sum>d\<leftarrow>?q. horner (F d) j) ?G))"
      by (rule efold_sum_points [OF C]) (rule evalCommitments_commit [OF C])
    finally show ?thesis using C by (simp add: curve)
  qed
  have "ebind (?key j) (\<lambda>Yj. Inr (AList.update j (pt_toHex C Yj) keys)) =
      ebind (Inr (pt_toHex C (smul C (\<Sum>d\<leftarrow>?q. horner (F d) j) ?G))) (\<lambda>h. Inr (AList.update j h keys))" for j keys
    by (simp only: key ebind_simps)
  then have "efold (\<lambda>keys j. ebind (Inr (pt_toHex C (smul C (\<Sum>d\<leftarrow>?q. horner (F d) j) ?G)))
      (\<lambda>h. Inr (AList.update j h keys))) [] ps = (Inr keys :: error + (int \<times> jsstring) list)"
    using keys by simp
  then have "map_of keys j = (if j \<in> set ps then Some (pt_toHex C (smul C (\<Sum>d\<leftarrow>?q. horner (F d) j) ?G)) else None)" for j
    using efold_update_keys [where ?'b = error, of ps "\<lambda>j. Inr (pt_toHex C (smul C (\<Sum>d\<leftarrow>?q. horner (F d) j) ?G))"
        "\<lambda>j. pt_toHex C (smul C (\<Sum>d\<leftarrow>?q. horner (F d) j) ?G)" "[]"] by auto
  then show ?thesis
    using that [of F] res t len Y_eq Y0 by_F by simp
qed

text \<open>The sum of the qualified dealers' polynomials.\<close>

definition group_poly :: "(int \<Rightarrow> int list) \<Rightarrow> int list \<Rightarrow> int list" where
  "group_poly F ds = foldr (\<lambda>d. horner_add (F d)) ds []"

lemma horner_group_poly: "horner (group_poly F ds) x = (\<Sum>d\<leftarrow>ds. horner (F d) x)"
  by (induction ds) (simp_all add: group_poly_def horner_horner_add)

lemma length_group_poly: "(\<And>d. d \<in> set ds \<Longrightarrow> length (F d) = t) \<Longrightarrow> length (group_poly F ds) \<le> t"
  by (induction ds) (simp_all add: group_poly_def length_horner_add)

lemma sum_list_remove1: "d \<in> set ds \<Longrightarrow> (\<Sum>e\<leftarrow>ds. g e) = g d + (\<Sum>e\<leftarrow>remove1 d ds. (g e :: int))"
  by (induction ds) auto

lemma cgr_sum_all_but_one:
  assumes "d \<in> set ds" and "distinct ds"
    and "cgr L (\<Sum>e\<leftarrow>ds. f e) (\<Sum>e\<leftarrow>ds. g e)" and "\<And>e. e \<in> set ds - {d} \<Longrightarrow> cgr L (f e) (g e)"
  shows "cgr L (f d) (g d)"
proof -
  have "cgr L (\<Sum>e\<leftarrow>remove1 d ds. f e) (\<Sum>e\<leftarrow>remove1 d ds. g e)"
    using assms(2,4) by (intro cgr_sum_list) simp
  from cgr_diff [OF assms(3) this] show ?thesis
    by (simp add: sum_list_remove1 [OF assms(1)])
qed

section \<open>What a finalized participant holds\<close>

lemma sum_shares_Inr:
  assumes L: "0 < grp_order C"
  shows "sum_shares C p tr ds = Inr y \<Longrightarrow> 0 \<le> y \<and> y < grp_order C \<and>
    (\<exists>f. (\<forall>d \<in> set ds. \<exists>s. share_from p tr d = Some s \<and> hexToScalar (grp_order C) s = Inr (f d)) \<and>
       cgr (grp_order C) y (\<Sum>d\<leftarrow>ds. f d))"
proof (induction ds arbitrary: y rule: rev_induct)
  case Nil
  then show ?case using L by (simp add: sum_shares_def)
next
  case (snoc d ds)
  let ?L = "grp_order C"
  from snoc.prems obtain y' s n where y': "sum_shares C p tr ds = Inr y'"
    and s: "share_from p tr d = Some s" and n: "hexToScalar ?L s = Inr n" and y: "y = modL ?L (y' + n)"
    by (auto simp: sum_shares_def efold_append ebind_eq_Inr split: option.splits if_splits)
  from snoc.IH [OF y'] obtain f where
    f: "\<forall>d \<in> set ds. \<exists>s. share_from p tr d = Some s \<and> hexToScalar ?L s = Inr (f d)"
    and c: "cgr ?L y' (\<Sum>d\<leftarrow>ds. f d)" by blast
  have fd: "d \<in> set ds \<Longrightarrow> f d = n" using f s n by auto
  let ?f = "f(d := n)"
  have "(\<Sum>x\<leftarrow>ds. ?f x) = (\<Sum>x\<leftarrow>ds. f x)"
    using fd by (intro arg_cong [where f = sum_list] map_cong) auto
  then have "cgr ?L y (\<Sum>x\<leftarrow>ds @ [d]. ?f x)"
    using c L y by (simp add: modL_mod) (metis mod_add_left_eq)
  moreover have "\<forall>x \<in> set (ds @ [d]). \<exists>s. share_from p tr x = Some s \<and> hexToScalar ?L s = Inr (?f x)"
    using f s n by auto
  ultimately show ?case using modL_range [OF L, of "y' + n"] y by blast
qed

lemma finalize_Inr:
  assumes C: "curve_laws C" and "finalize C p tr = Inr (ks, res)"
  obtains y where "computePublicResult C tr (dp_participants p) (dp_threshold p) = Inr res"
    "sum_shares C p tr (pr_qualified res) = Inr y" "0 < y" "y < grp_order C"
    "ks_index ks = dp_index p" "ks_secret ks = scalarToHex y"
    "ks_verificationKey ks = pt_toHex C (smul C y (pt_BASE C))"
    "map_of (pr_verificationKeys res) (dp_index p) = Some (pt_toHex C (smul C y (pt_BASE C)))"
proof -
  from assms(2) obtain y where r: "computePublicResult C tr (dp_participants p) (dp_threshold p) = Inr res"
    and y: "sum_shares C p tr (pr_qualified res) = Inr y" "y \<noteq> 0" "\<not> grp_order C \<le> y"
    and rest: "ebind (pt_multiply C (pt_BASE C) y) (\<lambda>P.
       if map_of (pr_verificationKeys res) (dp_index p) \<noteq> Some (pt_toHex C P) then Inl InconsistentKeyShare
       else Inr (\<lparr>ks_index = dp_index p, ks_secret = scalarToHex y,
                  ks_verificationKey = pt_toHex C P\<rparr>, res)) = Inr (ks, res)"
    by (auto simp: finalize_def Let_def ebind_eq_Inr split: if_splits)
  have L: "0 < grp_order C" using curve_order_gt_1 [OF C] by simp
  have "0 < y" "y < grp_order C" using sum_shares_Inr [OF L y(1)] y by auto
  then show ?thesis using that [OF r y(1)] rest C by (auto simp: curve split: if_splits)
qed

text \<open>
  A key share that \<open>finalize\<close> returns is the value at the participant's index of the
  polynomial the public result commits to.
\<close>

lemma finalize_share:
  assumes C: "curve_laws C" and fin: "finalize C p tr = Inr (ks, res)"
    and vk: "\<And>j. map_of (pr_verificationKeys res) j =
       (if j \<in> set ps then Some (pt_toHex C (smul C (horner cs j) (pt_BASE C))) else None)"
  shows "\<exists>y. hexToScalar (grp_order C) (ks_secret ks) = Inr y \<and> cgr (grp_order C) y (horner cs (ks_index ks))
    \<and> ks_index ks = dp_index p \<and> dp_index p \<in> set ps"
proof -
  obtain y where y: "0 < y" "y < grp_order C" "ks_index ks = dp_index p" "ks_secret ks = scalarToHex y"
    "map_of (pr_verificationKeys res) (dp_index p) = Some (pt_toHex C (smul C y (pt_BASE C)))"
    using finalize_Inr [OF C fin] .
  then have "dp_index p \<in> set ps" "smul C y (pt_BASE C) = smul C (horner cs (dp_index p)) (pt_BASE C)"
    using vk [of "dp_index p"] toHex_inj [OF C] by (auto split: if_splits)
  then show ?thesis
    using y hexToScalar_scalarToHex [OF y(1,2) curve_order_le [OF C]] by (simp add: smul_BASE_inj [OF C])
qed

lemma public_result_shares_one_secret_lemma:
  assumes "curve_laws C" and "computePublicResult C tr ps t = Inr res"
  shows "\<exists>cs. length cs \<le> t \<and> 0 < t \<and> t \<le> length (pr_qualified res) \<and> \<not> grp_order C dvd horner cs 0 \<and>
    pr_groupPublicKey res = pt_toHex C (smul C (horner cs 0) (pt_BASE C)) \<and>
    (\<forall>j. map_of (pr_verificationKeys res) j =
       (if j \<in> set ps then Some (pt_toHex C (smul C (horner cs j) (pt_BASE C))) else None))"
proof -
  obtain F where F: "pr_threshold res = t" "0 < t" "t \<le> length (pr_qualified res)"
    "pr_qualified res = filter (is_qualified C tr ps (commitmentsBy C tr ps t)) ps"
    "\<forall>d \<in> set (pr_qualified res). dealt C tr t d = Some (commit C (F d)) \<and> length (F d) = t"
    "pr_groupPublicKey res = pt_toHex C (smul C (\<Sum>d\<leftarrow>pr_qualified res. horner (F d) 0) (pt_BASE C))"
    "smul C (\<Sum>d\<leftarrow>pr_qualified res. horner (F d) 0) (pt_BASE C) \<noteq> pt_ZERO C"
    "\<forall>j. map_of (pr_verificationKeys res) j =
       (if j \<in> set ps then Some (pt_toHex C (smul C (\<Sum>d\<leftarrow>pr_qualified res. horner (F d) j) (pt_BASE C)))
        else None)"
    using computePublicResult_polynomials [OF assms] .
  let ?cs = "group_poly F (pr_qualified res)"
  have "\<not> grp_order C dvd horner ?cs 0"
    using F(7) smul_cgr [of "horner ?cs 0" C 0] by (auto simp: horner_group_poly curve dvd_eq_mod_eq_0)
  moreover have "length ?cs \<le> t" using F(5) by (intro length_group_poly) simp
  ultimately show ?thesis
    using F(2,3,6,8) by (intro exI [of _ ?cs]) (simp add: horner_group_poly)
qed

section \<open>The rounds\<close>

lemma deal_Inr:
  assumes C: "curve_laws C" and "deal C W edraws enonce p keys = Inr (b, shares)"
  shows "b = \<lparr>db_dealer = dp_index p, db_commitments = Some (map (pt_toHex C) (commit C (dp_coeffs p)))\<rparr> \<and>
    (\<forall>a \<in> set (dp_coeffs p). 0 < a \<and> a < grp_order C) \<and>
    list_all2 (\<lambda>j m. \<exists>key ct. map_of keys j = Some key \<and>
        m = \<lparr>es_dealer = dp_index p, es_recipient = j, es_ciphertext = ct\<rparr> \<and>
        encryptOrder C W (edraws j) (enonce j)
          (scalarToHex (if j \<in> set (df_corruptSharesTo (dp_faults p)) then modL (grp_order C) (dp_f C p j + 1)
             else dp_f C p j)) key (shareContext (dp_sessionId p) (dp_index p) j) = Inr ct)
      (dp_participants p) shares"
proof -
  from assms(2) obtain cs where
    cs: "emap (\<lambda>a. ebind (pt_multiply C (pt_BASE C) a) (\<lambda>P. Inr (pt_toHex C P))) (dp_coeffs p) = Inr cs"
    and b: "b = \<lparr>db_dealer = dp_index p, db_commitments = Some cs\<rparr>"
    and ss: "list_all2 (\<lambda>j m. (case map_of keys j of None \<Rightarrow> Inl TypeError
            | Some key \<Rightarrow>
                ebind (encryptOrder C W (edraws j) (enonce j)
                   (scalarToHex (if j \<in> set (df_corruptSharesTo (dp_faults p)) then modL (grp_order C) (dp_f C p j + 1)
                     else dp_f C p j)) key
                    (shareContext (dp_sessionId p) (dp_index p) j)) (\<lambda>ct.
                Inr \<lparr>es_dealer = dp_index p, es_recipient = j, es_ciphertext = ct\<rparr>)) = Inr m) (dp_participants p) shares"
    by (auto simp: deal_def ebind_eq_Inr Let_def emap_eq_Inr)
  have "list_all2 (\<lambda>a h. 0 < a \<and> a < grp_order C \<and> h = pt_toHex C (smul C a (pt_BASE C))) (dp_coeffs p) cs"
    using cs unfolding emap_eq_Inr
    by (rule list_all2_mono) (auto simp: ebind_eq_Inr multiply_smul [OF C] split: if_splits)
  then have "cs = map (pt_toHex C) (commit C (dp_coeffs p)) \<and> (\<forall>a \<in> set (dp_coeffs p). 0 < a \<and> a < grp_order C)"
    unfolding commit_def by (induction rule: list_all2_induct) auto
  moreover have "list_all2 (\<lambda>j m. \<exists>key ct. map_of keys j = Some key \<and>
        m = \<lparr>es_dealer = dp_index p, es_recipient = j, es_ciphertext = ct\<rparr> \<and>
        encryptOrder C W (edraws j) (enonce j)
          (scalarToHex (if j \<in> set (df_corruptSharesTo (dp_faults p)) then modL (grp_order C) (dp_f C p j + 1)
             else dp_f C p j)) key (shareContext (dp_sessionId p) (dp_index p) j) = Inr ct)
      (dp_participants p) shares"
    using ss by (rule list_all2_mono) (auto simp: ebind_eq_Inr split: option.splits)
  ultimately show ?thesis using b by simp
qed

lemma parse_dealt_commitments:
  assumes C: "curve_laws C" and "\<forall>a \<in> set cs. 0 < a \<and> a < grp_order C"
  shows "parseCommitments C (Some \<lparr>db_dealer = i, db_commitments = Some (map (pt_toHex C) (commit C cs))\<rparr>) (length cs)
    = Some (commit C cs)"
proof -
  have "emap (parsePoint C) (map (pt_toHex C) (commit C cs)) = Inr (commit C cs)"
    using assms(2)
  proof (induction cs)
    case (Cons a cs)
    have "smul C a (pt_BASE C) \<noteq> pt_ZERO C"
      using Cons.prems by (intro smul_nonzero C BASE_not_ZERO not_dvd_range) auto
    then show ?case using Cons C by (simp add: commit_def curve)
  qed (simp add: commit_def)
  then show ?thesis by (auto simp: parseCommitments_Some)
qed

lemma dp_f_range: "curve_laws C \<Longrightarrow> 0 \<le> dp_f C p x \<and> dp_f C p x < grp_order C"
  using curve_order_gt_1 [of C] by (simp add: dp_f_horner)

text \<open>The true share passes the check of its recipient unless it is \<open>0\<close>.\<close>

lemma true_share_matches:
  assumes C: "curve_laws C"
  shows "shareMatches C (scalarToHex (dp_f C p j)) (commit C (dp_coeffs p)) j \<longleftrightarrow> dp_f C p j \<noteq> 0"
proof -
  have L: "0 < grp_order C" using curve_order_gt_1 [OF C] by simp
  have r: "0 \<le> dp_f C p j" "dp_f C p j < grp_order C" using dp_f_range [OF C] by simp_all
  show ?thesis
  proof (cases "dp_f C p j = 0")
    case True
    have "int (hex_value (scalarToHex 0)) = 0" using scalarToHex_digits(3) [of 0] by simp
    then show ?thesis using True by (auto simp: shareMatches_commit [OF C] hexToScalar_Inr)
  next
    case False
    then have "hexToScalar (grp_order C) (scalarToHex (dp_f C p j)) = Inr (dp_f C p j)"
      using r by (intro hexToScalar_scalarToHex curve_order_le C) simp_all
    then show ?thesis using False L by (simp add: shareMatches_commit [OF C]) (simp add: dp_f_horner)
  qed
qed

text \<open>A scalar's hex form is text the UTF-8 codec keeps.\<close>

lemma scalarToHex_text:
  assumes "0 \<le> s" and "s < 16 ^ 64"
  shows "well_formed (scalarToHex s) \<and> take 1 (scalarToHex s) \<noteq> [0xFEFF]"
proof -
  have h: "list_all is_hex (scalarToHex s)" using scalarToHex_digits [OF assms] by blast
  have a: "unat u < 128 \<and> u \<noteq> 0xFEFF" if "is_hex u" for u
    using that by (auto simp: is_hex_def is_digit_def word_le_nat_alt)
  have "\<forall>u \<in> set (scalarToHex s). unat u < 128" using h a by (auto simp: list_all_iff)
  moreover have "take 1 (scalarToHex s) \<noteq> [0xFEFF]" using h a by (cases "scalarToHex s") auto
  ultimately show ?thesis by (simp add: well_formed_ascii)
qed

lemma openShare_ok:
  assumes C: "curve_laws C" and W: "webcrypto_laws W" and n: "length nonce = 12"
    and ts: "0 < dp_transportSecret q" "dp_transportSecret q < grp_order C"
    and key: "key = pt_toHex C (smul C (dp_transportSecret q) (pt_BASE C))"
    and ct: "encryptOrder C W draws nonce m key (shareContext (dp_sessionId q) d (dp_index q)) = Inr ct"
    and m: "well_formed m" "take 1 m \<noteq> [0xFEFF]"
  shows "openShare C W q d ct = Some m"
proof -
  obtain pc R where pc: "parseCiphertext C ct = Inr pc" "pc_R pc = pt_toBytes C R"
    using order_parses [OF C W n ct] by blast
  have "decryptWithSharedPoint C W ct (pt_toBytes C (smul C (dp_transportSecret q) R))
      (shareContext (dp_sessionId q) d (dp_index q)) = Inr m"
    by (rule decrypt_encrypt [OF C W n ct _ m pc]) (simp add: key C curve)
  then show ?thesis using pc ts C by (simp add: openShare_def curve)
qed

text \<open>What \<open>receive\<close> makes of one dealer: the commitments, the message and the verified share.\<close>

definition commitments_of :: "'p curve \<Rightarrow> dealer_broadcast list \<Rightarrow> dkg_participant \<Rightarrow> int \<Rightarrow> 'p list option" where
  "commitments_of C bs p d = parseCommitments C (List.find (\<lambda>b. db_dealer b = d) bs) (dp_threshold p)"

definition message_of :: "encrypted_share list \<Rightarrow> dkg_participant \<Rightarrow> int \<Rightarrow> encrypted_share option" where
  "message_of ss p d = List.find (\<lambda>s. es_dealer s = d \<and> es_recipient s = dp_index p) ss"

definition delivered ::
  "'p curve \<Rightarrow> webcrypto \<Rightarrow> dealer_broadcast list \<Rightarrow> encrypted_share list \<Rightarrow> dkg_participant \<Rightarrow> int \<Rightarrow> jsstring option" where
  "delivered C W bs ss p d =
     (case (commitments_of C bs p d, message_of ss p d) of
        (Some Cs, Some m) \<Rightarrow> (case openShare C W p d (es_ciphertext m) of
            None \<Rightarrow> None
          | Some s \<Rightarrow> if s \<noteq> [] \<and> shareMatches C s Cs (dp_index p) then Some s else None)
      | _ \<Rightarrow> None)"

definition missing :: "'p curve \<Rightarrow> dealer_broadcast list \<Rightarrow> encrypted_share list \<Rightarrow> dkg_participant \<Rightarrow> int \<Rightarrow> bool" where
  "missing C bs ss p d \<longleftrightarrow> commitments_of C bs p d \<noteq> None \<and> message_of ss p d = None"

lemma openShare_received [simp]: "openShare C W (p\<lparr>dp_received := r\<rparr>) d ct = openShare C W p d ct"
  by (simp add: openShare_def)

lemma delivered_received [simp]:
  "commitments_of C bs (p\<lparr>dp_received := r\<rparr>) d = commitments_of C bs p d"
  "message_of ss (p\<lparr>dp_received := r\<rparr>) d = message_of ss p d"
  "delivered C W bs ss (p\<lparr>dp_received := r\<rparr>) d = delivered C W bs ss p d"
  "missing C bs ss (p\<lparr>dp_received := r\<rparr>) d = missing C bs ss p d"
  by (simp_all add: commitments_of_def message_of_def delivered_def missing_def cong: option.case_cong)

lemma receive_from_step:
  "receive_from C W bs ss p cps (d # ds) =
     (if missing C bs ss p d then (p, Inl (NoShareFrom d))
      else case delivered C W bs ss p d of
        Some s \<Rightarrow> receive_from C W bs ss (p\<lparr>dp_received := AList.update d s (dp_received p)\<rparr>) cps ds
      | None \<Rightarrow> receive_from C W bs ss p
          (cps @ (if commitments_of C bs p d = None then [] else [\<lparr>cp_complainer = dp_index p, cp_dealer = d\<rparr>])) ds)"
  by (simp add: missing_def delivered_def commitments_of_def message_of_def split: option.splits)

lemma receive_from_result:
  "snd (receive_from C W bs ss p cps ds) =
     (case List.find (missing C bs ss p) ds of
        Some d \<Rightarrow> Inl (NoShareFrom d)
      | None \<Rightarrow> Inr (cps @ map (\<lambda>d. \<lparr>cp_complainer = dp_index p, cp_dealer = d\<rparr>)
          (filter (\<lambda>d. commitments_of C bs p d \<noteq> None \<and> delivered C W bs ss p d = None) ds)))"
proof (induction ds arbitrary: p cps)
  case (Cons d ds)
  have "delivered C W bs ss p d = Some s \<Longrightarrow> commitments_of C bs p d \<noteq> None" for s
    by (auto simp: delivered_def split: option.splits)
  then show ?case
    by (simp only: receive_from_step) (auto simp: Cons.IH split: option.splits)
qed simp

lemma receive_from_received:
  "map_of (dp_received (fst (receive_from C W bs ss p cps ds))) d =
     (if d \<in> set (takeWhile (\<lambda>d. \<not> missing C bs ss p d) ds) \<and> delivered C W bs ss p d \<noteq> None
      then delivered C W bs ss p d else map_of (dp_received p) d)"
proof (induction ds arbitrary: p cps)
  case (Cons e ds)
  show ?case
    by (simp only: receive_from_step) (auto simp: Cons.IH update_conv split: option.splits)
qed simp

end
