(* ===== verification/KeyGeneration.thy ===== *)
theory KeyGeneration
  imports Dkg
begin

text \<open>
  The properties of the key generation of \<open>backend/src/crypto/dkg.ts\<close>, and of threshold
  decryption with the keys it produces, on top of the definitions and lemmas of \<open>Dkg\<close>; with
  a concrete two-party key generation on which they are instantiated.
\<close>

section \<open>A sample key generation\<close>

text \<open>A key generation of two dealers with \<open>f\<^sub>1(x) = 3 + x\<close> and \<open>f\<^sub>2(x) = 4 + 2x\<close>, threshold two.\<close>

definition sample_transcript :: "complaint list \<Rightarrow> reveal list \<Rightarrow> dkg_transcript" where
  "sample_transcript cps rvs = \<lparr>
     tr_broadcasts = [
       \<lparr>db_dealer = 1, db_commitments = Some (map (\<lambda>a. bytesToHex (zp_toBytes (zp_of a))) [3, 1])\<rparr>,
       \<lparr>db_dealer = 2, db_commitments = Some (map (\<lambda>a. bytesToHex (zp_toBytes (zp_of a))) [4, 2])\<rparr>],
     tr_complaints = cps, tr_reveals = rvs\<rparr>"

definition sample_participant :: "int \<Rightarrow> (int \<times> jsstring) list \<Rightarrow> dkg_participant" where
  "sample_participant i received = \<lparr>dp_transportSecret = 9, dp_transportPublicKey = bytesToHex (zp_toBytes (zp_of 9)),
     dp_coeffs = (if i = 1 then [3, 1] else [4, 2]), dp_received = received, dp_index = i, dp_threshold = 2,
     dp_participants = [1, 2], dp_sessionId = js ''s'', dp_faults = \<lparr>df_corruptSharesTo = [], df_lieOnReveal = False\<rparr>\<rparr>"

definition sample_result :: dkg_public_result where
  "sample_result = \<lparr>pr_threshold = 2, pr_qualified = [1, 2],
     pr_groupPublicKey = bytesToHex (zp_toBytes (zp_of 7)),
     pr_verificationKeys = [(1, bytesToHex (zp_toBytes (zp_of 10))), (2, bytesToHex (zp_toBytes (zp_of 13)))]\<rparr>"

lemma sample_commitmentsBy:
  "commitmentsBy sample_curve (sample_transcript cps rvs) [1, 2] 2 = [(1, [zp_of 3, zp_of 1]), (2, [zp_of 4, zp_of 2])]"
  by (simp add: commitmentsBy_def sample_transcript_def parseCommitments_def sample_parsePoint)

lemma sample_eval: "evalCommitments sample_curve [zp_of a, zp_of b] j = Inr (zp_of (a + j * b))"
  using evalCommitments_commit [OF sample_curve_laws, of "[a, b]" j]
  by (simp add: commit_def smul_sample_of)

lemma sample_matches:
  "0 < s \<Longrightarrow> s < 101 \<Longrightarrow> shareMatches sample_curve (scalarToHex s) [zp_of a, zp_of b] j \<longleftrightarrow> (a + j * b) mod 101 = s"
  using shareMatches_commit [OF sample_curve_laws, of "scalarToHex s" "[a, b]" j]
  by (auto simp: commit_def smul_sample_of sample_hexToScalar)

text \<open>With every complaint answered the result is the same.\<close>

lemma sample_public_result:
  assumes "\<And>d. d \<in> {1, 2} \<Longrightarrow> is_qualified sample_curve (sample_transcript cps rvs) [1, 2]
      [(1, [zp_of 3, zp_of 1]), (2, [zp_of 4, zp_of 2])] d"
  shows "computePublicResult sample_curve (sample_transcript cps rvs) [1, 2] 2 = Inr sample_result"
proof -
  have "filter (is_qualified sample_curve (sample_transcript cps rvs) [1, 2]
      [(1, [zp_of 3, zp_of 1]), (2, [zp_of 4, zp_of 2])]) [1, 2] = [1, 2]"
    using assms by simp
  then show ?thesis
    by (simp only: computePublicResult_def sample_commitmentsBy Let_def)
      (simp add: sample_eval zp_add_of zp_of_eq_iff sample_result_def)
qed

lemma sample_result_plain: "computePublicResult sample_curve (sample_transcript [] []) [1, 2] 2 = Inr sample_result"
  by (rule sample_public_result) (auto simp: is_qualified_def sample_transcript_def)

lemma sample_result_simps:
  "pr_qualified sample_result = [1, 2]"
  "map_of (pr_verificationKeys sample_result) 1 = Some (bytesToHex (zp_toBytes (zp_of 10)))"
  "map_of (pr_verificationKeys sample_result) 2 = Some (bytesToHex (zp_toBytes (zp_of 13)))"
  "pr_groupPublicKey sample_result = bytesToHex (zp_toBytes (zp_of 7))"
  by (simp_all add: sample_result_def)

lemma sample_participant_simps [simp]:
  "dp_index (sample_participant i r) = i" "dp_received (sample_participant i r) = r"
  "dp_participants (sample_participant i r) = [1, 2]" "dp_threshold (sample_participant i r) = 2"
  by (simp_all add: sample_participant_def)

lemma scalarToHex_nonempty: "scalarToHex s \<noteq> []"
proof -
  have "length (scalarToHex s) \<ge> 64" by (simp add: scalarToHex_def length_padStart)
  then show ?thesis by auto
qed

lemma sample_finalize:
  "finalize sample_curve (sample_participant 1 [(1, scalarToHex 4), (2, scalarToHex 6)]) (sample_transcript [] [])
     = Inr (\<lparr>ks_index = 1, ks_secret = scalarToHex 10, ks_verificationKey = bytesToHex (zp_toBytes (zp_of 10))\<rparr>, sample_result)"
  "finalize sample_curve (sample_participant 2 [(1, scalarToHex 5), (2, scalarToHex 8)]) (sample_transcript [] [])
     = Inr (\<lparr>ks_index = 2, ks_secret = scalarToHex 13, ks_verificationKey = bytesToHex (zp_toBytes (zp_of 13))\<rparr>, sample_result)"
proof -
  have "sum_shares sample_curve (sample_participant 1 [(1, scalarToHex 4), (2, scalarToHex 6)]) tr [1, 2] = Inr 10"
    "sum_shares sample_curve (sample_participant 2 [(1, scalarToHex 5), (2, scalarToHex 8)]) tr [1, 2] = Inr 13" for tr
    by (simp_all add: sum_shares_def share_from_def sample_hexToScalar scalarToHex_nonempty modL_mod)
  then show "finalize sample_curve (sample_participant 1 [(1, scalarToHex 4), (2, scalarToHex 6)]) (sample_transcript [] [])
     = Inr (\<lparr>ks_index = 1, ks_secret = scalarToHex 10, ks_verificationKey = bytesToHex (zp_toBytes (zp_of 10))\<rparr>, sample_result)"
    "finalize sample_curve (sample_participant 2 [(1, scalarToHex 5), (2, scalarToHex 8)]) (sample_transcript [] [])
     = Inr (\<lparr>ks_index = 2, ks_secret = scalarToHex 13, ks_verificationKey = bytesToHex (zp_toBytes (zp_of 13))\<rparr>, sample_result)"
    by (simp_all add: finalize_def sample_result_plain sample_result_simps
        multiply_smul [OF sample_curve_laws] smul_sample_of)
qed

text \<open>Dealer 1 answers participant 2 with the scalar 50 before the true share 5.\<close>

definition two_reveals :: dkg_transcript where
  "two_reveals = sample_transcript [\<lparr>cp_complainer = 2, cp_dealer = 1\<rparr>]
     [\<lparr>rv_dealer = 1, rv_recipient = 2, rv_share = scalarToHex 50\<rparr>,
      \<lparr>rv_dealer = 1, rv_recipient = 2, rv_share = scalarToHex 5\<rparr>]"

lemma two_reveals_result: "computePublicResult sample_curve two_reveals [1, 2] 2 = Inr sample_result"
  unfolding two_reveals_def
  by (rule sample_public_result) (auto simp: is_qualified_def sample_transcript_def sample_matches)

abbreviation sample_keys :: "(int \<times> jsstring) list" where
  "sample_keys \<equiv> [(1, bytesToHex (zp_toBytes (zp_of 9))), (2, bytesToHex (zp_toBytes (zp_of 9)))]"

lemma sample_deal:
  "\<exists>b ss. deal sample_curve W (\<lambda>_. [sample_draw 4]) (\<lambda>_. replicate 12 9) (sample_participant 1 []) sample_keys = Inr (b, ss)"
proof -
  have "(9 :: int) mod 101 \<noteq> 0" by simp
  from sample_encryptOrder_ok [OF this]
  have e: "\<exists>ct. encryptOrder sample_curve W [sample_draw 4] (replicate 12 9) m (bytesToHex (zp_toBytes (zp_of 9))) u = Inr ct" for m u
    by (simp add: smul_sample_of)
  obtain c1 where c1: "encryptOrder sample_curve W [sample_draw 4] (replicate 12 9) (scalarToHex (dp_f sample_curve (sample_participant 1 []) 1))
      (bytesToHex (zp_toBytes (zp_of 9))) (shareContext (js ''s'') 1 1) = Inr c1"
    using e by blast
  obtain c2 where c2: "encryptOrder sample_curve W [sample_draw 4] (replicate 12 9) (scalarToHex (dp_f sample_curve (sample_participant 1 []) 2))
      (bytesToHex (zp_toBytes (zp_of 9))) (shareContext (js ''s'') 1 2) = Inr c2"
    using e by blast
  have s: "dp_sessionId (sample_participant 1 []) = js ''s''" "df_corruptSharesTo (dp_faults (sample_participant 1 [])) = []"
    "dp_coeffs (sample_participant 1 []) = [3, 1]" by (simp_all add: sample_participant_def)
  show ?thesis
    by (simp add: deal_def s c1 c2 multiply_smul [OF sample_curve_laws])
qed

section \<open>Properties\<close>

text \<open>C9: Whoever cheated, key generation that yields a public result shares one group secret.
  There is a polynomial of at most \<open>threshold\<close> coefficients whose value at \<open>0\<close>, not a
  multiple of the group order, is the discrete logarithm of the group key, and whose value at
  every participant's index is the discrete logarithm of that participant's verification key;
  at least \<open>threshold\<close> dealers contributed.  No assumption is made on any message of the
  transcript.\<close>

theorem public_result_shares_one_secret:
  assumes "curve_laws C" and "computePublicResult C tr ps t = Inr res"
  shows "\<exists>cs. length cs \<le> t \<and> 0 < t \<and> t \<le> length (pr_qualified res) \<and> \<not> grp_order C dvd horner cs 0 \<and>
    pr_groupPublicKey res = pt_toHex C (smul C (horner cs 0) (pt_BASE C)) \<and>
    (\<forall>j. map_of (pr_verificationKeys res) j =
       (if j \<in> set ps then Some (pt_toHex C (smul C (horner cs j) (pt_BASE C))) else None))"
  by (rule public_result_shares_one_secret_lemma [OF assms])

theorem public_result_shares_one_secret_witness:
  "\<exists>cs. length cs \<le> 2 \<and> pr_groupPublicKey sample_result = bytesToHex (zp_toBytes (smul sample_curve (horner cs 0) (zp_of 1))) \<and>
     map_of (pr_verificationKeys sample_result) 2 = Some (bytesToHex (zp_toBytes (smul sample_curve (horner cs 2) (zp_of 1))))"
  using public_result_shares_one_secret [OF sample_curve_laws sample_result_plain]
  by (elim exE conjE) (auto simp del: One_nat_def)

text \<open>C1: Threshold decryption end to end.  An order is sealed to the group key of a key generation
  that produced a result.  Then any list of decryption shares, computed by participants that
  finalized on the same transcript, with \<open>t\<close> distinct indices among them, combines to a point
  that opens the order for its user to exactly the text that was sealed: any \<open>t\<close> validators
  suffice, whichever dealers misbehaved during key generation.\<close>

theorem any_t_validators_open_the_order:
  assumes C: "curve_laws C" and W: "webcrypto_laws W"
    and res: "computePublicResult C tr ps t = Inr res"
    and idx: "\<forall>j \<in> set ps. 0 < j \<and> j < grp_order C"
    and ct: "length nonce = NONCE_BYTES" "encryptOrder C W draws nonce m (pr_groupPublicKey res) u = Inr ct"
      "well_formed m" "take 1 m \<noteq> [0xFEFF]"
    and pc: "parseCiphertext C ct = Inr pc"
    and shares: "\<forall>ds \<in> set shares. \<exists>p ks res' H kdraws. dp_participants p = ps \<and> dp_threshold p = t \<and>
       finalize C p tr = Inr (ks, res') \<and> partialDecrypt C H kdraws ks (pc_R pc) = Inr ds"
    and enough: "t \<le> card (ds_index ` set shares)"
  shows "\<exists>K. combineShares C shares t = Inr K \<and> decryptWithSharedPoint C W ct K u = Inr m"
proof -
  obtain cs where cs: "length cs \<le> t" "0 < t"
    and Y: "pr_groupPublicKey res = pt_toHex C (smul C (horner cs 0) (pt_BASE C))"
    and vk: "\<forall>j. map_of (pr_verificationKeys res) j =
       (if j \<in> set ps then Some (pt_toHex C (smul C (horner cs j) (pt_BASE C))) else None)"
    using public_result_shares_one_secret_lemma [OF C res] by (elim exE conjE) (rule that)
  have n: "length nonce = 12" using ct(1) by (simp add: NONCE_BYTES_def)
  obtain R where R: "pc_R pc = pt_toBytes C R" "R \<noteq> pt_ZERO C" using parseCiphertext_Inr [OF C pc] by metis
  have point: "parsePoint C (ds_share ds) = Inr (smul C (horner cs (ds_index ds)) R) \<and>
      0 < ds_index ds \<and> ds_index ds < grp_order C" if "ds \<in> set shares" for ds
  proof -
    obtain p ks res' H kdraws where p: "dp_participants p = ps" "dp_threshold p = t"
      and fin: "finalize C p tr = Inr (ks, res')" and pd: "partialDecrypt C H kdraws ks (pc_R pc) = Inr ds"
      using shares \<open>ds \<in> set shares\<close> by blast
    have "res' = res" using fin p res by (auto simp: finalize_def Let_def ebind_eq_Inr split: if_splits)
    then obtain y where y: "hexToScalar (grp_order C) (ks_secret ks) = Inr y"
      "cgr (grp_order C) y (horner cs (ks_index ks))" "ks_index ks = dp_index p" "dp_index p \<in> set ps"
      using finalize_share [OF C fin, of ps cs] vk by auto
    obtain Rp where Rp: "pc_R pc = pt_toBytes C Rp"
      and d: "ds_index ds = ks_index ks" "ds_share ds = pt_toHex C (smul C y Rp)"
      using partialDecrypt_point [OF C pd y(1)] by blast
    have "smul C y R \<noteq> pt_ZERO C"
      using secret_point_nonzero [OF C _ _ R(2)] hexToScalar_range [OF y(1)] by simp
    then show ?thesis
      using d y idx Rp R C smul_cgr [OF y(2), of R]
      by (auto simp: parsePoint_toHex toBytes_inj)
  qed
  have "combineShares C shares t = Inr (pt_toBytes C (smul C (horner cs 0) R))"
    using point by (intro combineShares_poly C cs enough) simp_all
  moreover have "decryptWithSharedPoint C W ct (pt_toBytes C (smul C (horner cs 0) R)) u = Inr m"
    using decrypt_encrypt [OF C W n ct(2) _ ct(3,4) pc R(1)] Y C by (simp add: curve)
  ultimately show ?thesis by blast
qed

text \<open>Sealed to the group key \<open>7\<cdot>G\<close> of the sample key generation, opened by its two validators.\<close>

theorem any_t_validators_open_the_order_witness:
  "\<exists>ct pc s1 s2 K.
     encryptOrder sample_curve sample_crypto [sample_draw 4] (replicate 12 9) (js ''buy'')
       (pr_groupPublicKey sample_result) (js ''GA'') = Inr ct \<and>
     parseCiphertext sample_curve ct = Inr pc \<and>
     partialDecrypt sample_curve sample_sha512 [sample_draw 3]
       \<lparr>ks_index = 1, ks_secret = scalarToHex 10, ks_verificationKey = bytesToHex (zp_toBytes (zp_of 10))\<rparr> (pc_R pc) = Inr s1 \<and>
     partialDecrypt sample_curve sample_sha512 [sample_draw 3]
       \<lparr>ks_index = 2, ks_secret = scalarToHex 13, ks_verificationKey = bytesToHex (zp_toBytes (zp_of 13))\<rparr> (pc_R pc) = Inr s2 \<and>
     combineShares sample_curve [s2, s1] 2 = Inr K \<and>
     decryptWithSharedPoint sample_curve sample_crypto ct K (js ''GA'') = Inr (js ''buy'')"
proof -
  let ?k1 = "\<lparr>ks_index = 1, ks_secret = scalarToHex 10, ks_verificationKey = bytesToHex (zp_toBytes (zp_of 10))\<rparr>"
  let ?k2 = "\<lparr>ks_index = 2, ks_secret = scalarToHex 13, ks_verificationKey = bytesToHex (zp_toBytes (zp_of 13))\<rparr>"
  have Y: "pr_groupPublicKey sample_result = pt_toHex sample_curve (smul sample_curve 7 (pt_BASE sample_curve))"
    by (simp add: sample_result_simps smul_sample_of)
  have "(7 :: int) mod 101 \<noteq> 0" by simp
  from sample_encryptOrder_ok [OF this, of sample_crypto "replicate 12 9" "js ''buy''" "js ''GA''"]
  obtain ct where ct: "encryptOrder sample_curve sample_crypto [sample_draw 4] (replicate 12 9) (js ''buy'')
       (pr_groupPublicKey sample_result) (js ''GA'') = Inr ct" unfolding Y by blast
  have n: "length (replicate 12 (9 :: byte)) = NONCE_BYTES" "length (replicate 12 (9 :: byte)) = 12"
    by (simp_all add: NONCE_BYTES_def)
  obtain pc R where pc: "parseCiphertext sample_curve ct = Inr pc" "pc_R pc = pt_toBytes sample_curve R" "R \<noteq> pt_ZERO sample_curve"
    using order_parses [OF sample_curve_laws sample_crypto_laws n(2) ct] by blast
  have dr: "randomScalar (grp_order sample_curve) [sample_draw 3] = Inr 3"
    using sample_randomScalar [of 3 "[]"] by simp
  obtain s1 where s1: "partialDecrypt sample_curve sample_sha512 [sample_draw 3] ?k1 (pc_R pc) = Inr s1"
    using partialDecrypt_ok [OF sample_curve_laws _ pc(2,3) dr, of ?k1 10] sample_hexToScalar [of 10] by auto
  obtain s2 where s2: "partialDecrypt sample_curve sample_sha512 [sample_draw 3] ?k2 (pc_R pc) = Inr s2"
    using partialDecrypt_ok [OF sample_curve_laws _ pc(2,3) dr, of ?k2 13] sample_hexToScalar [of 13] by auto
  have i: "ds_index s1 = 1" "ds_index s2 = 2"
    using partialDecrypt_point [OF sample_curve_laws s1, of 10] partialDecrypt_point [OF sample_curve_laws s2, of 13]
      sample_hexToScalar [of 10] sample_hexToScalar [of 13] by auto
  have held: "\<forall>ds \<in> set [s2, s1]. \<exists>p ks res' H kdraws. dp_participants p = [1, 2] \<and> dp_threshold p = 2 \<and>
       finalize sample_curve p (sample_transcript [] []) = Inr (ks, res') \<and>
       partialDecrypt sample_curve H kdraws ks (pc_R pc) = Inr ds"
  proof -
    have "\<exists>p ks res' H kdraws. dp_participants p = [1, 2] \<and> dp_threshold p = 2 \<and>
       finalize sample_curve p (sample_transcript [] []) = Inr (ks, res') \<and>
       partialDecrypt sample_curve H kdraws ks (pc_R pc) = Inr s1"
      using sample_finalize(1) s1 sample_participant_simps(3,4) by blast
    moreover have "\<exists>p ks res' H kdraws. dp_participants p = [1, 2] \<and> dp_threshold p = 2 \<and>
       finalize sample_curve p (sample_transcript [] []) = Inr (ks, res') \<and>
       partialDecrypt sample_curve H kdraws ks (pc_R pc) = Inr s2"
      using sample_finalize(2) s2 sample_participant_simps(3,4) by blast
    ultimately show ?thesis by simp
  qed
  have idx: "\<forall>j \<in> set [1, 2 :: int]. 0 < j \<and> j < grp_order sample_curve" by simp
  have enough: "2 \<le> card (ds_index ` set [s2, s1])" using i by simp
  show ?thesis
    using any_t_validators_open_the_order [OF sample_curve_laws sample_crypto_laws sample_result_plain idx n(1) ct
        sample_wf pc(1) held enough] ct pc(1) s1 s2 by blast
qed

text \<open>C28: No one can frame an honest dealer.  If a dealer's only broadcast is the one \<open>deal\<close> returned,
  and what \<open>respond\<close> returns for the complaints on the transcript is among its reveals, then
  the dealer is qualified, however many complaints were made and whoever made them, provided
  no complaining participant's true share is \<open>0\<close> (the one value \<open>shareMatches\<close> cannot accept).\<close>

theorem honest_dealer_qualified:
  assumes C: "curve_laws C" and dealt: "deal C W edraws enonce p keys = Inr (b, ss)"
    and only: "filter (\<lambda>b. db_dealer b = dp_index p) (tr_broadcasts tr) = [b]"
    and honest: "\<not> df_lieOnReveal (dp_faults p)" "length (dp_coeffs p) = t"
    and answered: "set (respond C p (tr_complaints tr)) \<subseteq> set (tr_reveals tr)"
    and nonzero: "\<forall>c \<in> set (tr_complaints tr). cp_dealer c = dp_index p \<and> cp_complainer c \<in> set ps
       \<longrightarrow> dp_f C p (cp_complainer c) \<noteq> 0"
    and res: "computePublicResult C tr ps t = Inr res" and p: "dp_index p \<in> set ps"
  shows "dp_index p \<in> set (pr_qualified res)"
proof -
  have b: "b = \<lparr>db_dealer = dp_index p, db_commitments = Some (map (pt_toHex C) (commit C (dp_coeffs p)))\<rparr>"
    "\<forall>a \<in> set (dp_coeffs p). 0 < a \<and> a < grp_order C"
    using deal_Inr [OF C dealt] by blast+
  have "dealt C tr t (dp_index p) = Some (commit C (dp_coeffs p))"
    using only parse_dealt_commitments [OF C b(2)] honest(2) b(1) by (simp add: dealt_def)
  then have byF: "map_of (commitmentsBy C tr ps t) (dp_index p) = Some (commit C (dp_coeffs p))"
    using p by (simp add: commitmentsBy_lookup)
  have "list_ex (\<lambda>r. rv_dealer r = dp_index p \<and> rv_recipient r = cp_complainer c \<and>
      shareMatches C (rv_share r) (commit C (dp_coeffs p)) (cp_complainer c)) (tr_reveals tr)"
    if "c \<in> set (tr_complaints tr)" "cp_dealer c = dp_index p" "cp_complainer c \<in> set ps" for c
  proof -
    let ?r = "\<lparr>rv_dealer = dp_index p, rv_recipient = cp_complainer c, rv_share = scalarToHex (dp_f C p (cp_complainer c))\<rparr>"
    have "?r \<in> set (tr_reveals tr)" using answered that honest(1) by (auto simp: respond_def)
    moreover have "shareMatches C (scalarToHex (dp_f C p (cp_complainer c))) (commit C (dp_coeffs p)) (cp_complainer c)"
      using true_share_matches [OF C] nonzero that by blast
    ultimately show ?thesis unfolding list_ex_iff by (intro bexI [of _ ?r]) simp_all
  qed
  then have "is_qualified C tr ps (commitmentsBy C tr ps t) (dp_index p)"
    using byF by (auto simp: is_qualified_def list_all_iff)
  moreover obtain F where "pr_qualified res = filter (is_qualified C tr ps (commitmentsBy C tr ps t)) ps"
    using computePublicResult_polynomials [OF C res] by metis
  ultimately show ?thesis using p by simp
qed

text \<open>Participant 2 complains about dealer 1 and dealer 1 answers: it stays qualified.\<close>

theorem honest_dealer_qualified_witness:
  "\<exists>b ss. deal sample_curve sample_crypto (\<lambda>_. [sample_draw 4]) (\<lambda>_. replicate 12 9) (sample_participant 1 []) sample_keys
       = Inr (b, ss) \<and> b \<in> set (tr_broadcasts two_reveals) \<and> tr_complaints two_reveals \<noteq> [] \<and> 1 \<in> set (pr_qualified sample_result)"
proof -
  let ?p = "sample_participant 1 []"
  obtain b ss where d: "deal sample_curve sample_crypto (\<lambda>_. [sample_draw 4]) (\<lambda>_. replicate 12 9) ?p sample_keys = Inr (b, ss)"
    using sample_deal by blast
  have p: "dp_coeffs ?p = [3, 1]" "\<not> df_lieOnReveal (dp_faults ?p)" by (simp_all add: sample_participant_def)
  have b: "b = \<lparr>db_dealer = 1, db_commitments = Some (map (\<lambda>a. bytesToHex (zp_toBytes (zp_of a))) [3, 1])\<rparr>"
    using deal_Inr [OF sample_curve_laws d] p by (simp add: commit_def smul_sample_of)
  then have only: "filter (\<lambda>b. db_dealer b = dp_index ?p) (tr_broadcasts two_reveals) = [b]"
    by (simp add: two_reveals_def sample_transcript_def)
  have f: "dp_f sample_curve ?p 2 = 5" by (simp add: dp_f_def p modL_mod)
  have answered: "set (respond sample_curve ?p (tr_complaints two_reveals)) \<subseteq> set (tr_reveals two_reveals)"
    by (simp add: two_reveals_def sample_transcript_def respond_def p f)
  have "dp_index ?p \<in> set (pr_qualified sample_result)"
    by (rule honest_dealer_qualified [OF sample_curve_laws d only p(2) _ answered _ two_reveals_result])
      (simp_all add: p two_reveals_def sample_transcript_def f)
  moreover have "b \<in> set (tr_broadcasts two_reveals)" "tr_complaints two_reveals \<noteq> []"
    using b by (simp_all add: two_reveals_def sample_transcript_def)
  ultimately show ?thesis using d by simp
qed

text \<open>Shares reach their recipient.  Of the shares a dealer without injected faults deals, the one
  for participant \<open>q\<close>, encrypted to \<open>q\<close>'s transport key in the same session, is opened by \<open>q\<close> to
  the dealer's polynomial at \<open>q\<close>'s index, and passes \<open>q\<close>'s check against the dealt commitments
  exactly when that value is not \<open>0\<close>.\<close>

theorem dealt_share_delivered:
  assumes C: "curve_laws C" and W: "webcrypto_laws W"
    and dealt: "deal C W edraws enonce p keys = Inr (b, ss)"
    and q: "dp_index q \<in> set (dp_participants p)" "dp_sessionId q = dp_sessionId p"
    and clean: "dp_index q \<notin> set (df_corruptSharesTo (dp_faults p))"
    and key: "map_of keys (dp_index q) = Some (pt_toHex C (smul C (dp_transportSecret q) (pt_BASE C)))"
    and ts: "0 < dp_transportSecret q" "dp_transportSecret q < grp_order C"
    and nonce: "length (enonce (dp_index q)) = NONCE_BYTES"
  shows "\<exists>m \<in> set ss. es_dealer m = dp_index p \<and> es_recipient m = dp_index q \<and>
    openShare C W q (dp_index p) (es_ciphertext m) = Some (scalarToHex (dp_f C p (dp_index q))) \<and>
    (\<exists>cs Ps. db_commitments b = Some cs \<and> emap (parsePoint C) cs = Inr Ps \<and>
       (shareMatches C (scalarToHex (dp_f C p (dp_index q))) Ps (dp_index q) \<longleftrightarrow> dp_f C p (dp_index q) \<noteq> 0))"
proof -
  note d = deal_Inr [OF C dealt]
  have "\<exists>m \<in> set ss. \<exists>key ct. map_of keys (dp_index q) = Some key \<and>
      m = \<lparr>es_dealer = dp_index p, es_recipient = dp_index q, es_ciphertext = ct\<rparr> \<and>
      encryptOrder C W (edraws (dp_index q)) (enonce (dp_index q)) (scalarToHex (dp_f C p (dp_index q))) key
       (shareContext (dp_sessionId p) (dp_index p) (dp_index q)) = Inr ct"
    using list_all2_in [OF conjunct2 [OF conjunct2 [OF d]] q(1)] clean by simp
  then obtain m key' ct where m: "m \<in> set ss" "map_of keys (dp_index q) = Some key'"
    "m = \<lparr>es_dealer = dp_index p, es_recipient = dp_index q, es_ciphertext = ct\<rparr>"
    "encryptOrder C W (edraws (dp_index q)) (enonce (dp_index q)) (scalarToHex (dp_f C p (dp_index q))) key'
       (shareContext (dp_sessionId p) (dp_index p) (dp_index q)) = Inr ct"
    by blast
  have n: "length (enonce (dp_index q)) = 12" using nonce by (simp add: NONCE_BYTES_def)
  have r: "0 \<le> dp_f C p (dp_index q)" "dp_f C p (dp_index q) < 16 ^ 64"
    using dp_f_range [OF C, of p "dp_index q"] curve_order_le [OF C] by simp_all
  have "openShare C W q (dp_index p) ct = Some (scalarToHex (dp_f C p (dp_index q)))"
    using scalarToHex_text [OF r] m(2,4) key q(2) by (intro openShare_ok [OF C W n ts]) auto
  moreover have "emap (parsePoint C) (map (pt_toHex C) (commit C (dp_coeffs p))) = Inr (commit C (dp_coeffs p))"
    using parse_dealt_commitments [OF C, of "dp_coeffs p" 0] d by (auto simp: parseCommitments_Some)
  moreover have "db_commitments b = Some (map (pt_toHex C) (commit C (dp_coeffs p)))" using d by simp
  ultimately show ?thesis
    using m(1,3) true_share_matches [OF C, of p "dp_index q"]
    by (intro bexI [OF _ m(1)] conjI exI [of _ "map (pt_toHex C) (commit C (dp_coeffs p))"]
        exI [of _ "commit C (dp_coeffs p)"]) simp_all
qed

theorem dealt_share_delivered_witness:
  "\<exists>b ss m. deal sample_curve sample_crypto (\<lambda>_. [sample_draw 4]) (\<lambda>_. replicate 12 9) (sample_participant 1 []) sample_keys
       = Inr (b, ss) \<and> m \<in> set ss \<and>
     openShare sample_curve sample_crypto (sample_participant 2 []) 1 (es_ciphertext m) = Some (scalarToHex 5)"
proof -
  let ?p = "sample_participant 1 []" and ?q = "sample_participant 2 []"
  obtain b ss where d: "deal sample_curve sample_crypto (\<lambda>_. [sample_draw 4]) (\<lambda>_. replicate 12 9) ?p sample_keys = Inr (b, ss)"
    using sample_deal by blast
  have f: "dp_f sample_curve ?p 2 = 5" by (simp add: dp_f_def sample_participant_def modL_mod)
  have "\<exists>m \<in> set ss. es_dealer m = dp_index ?p \<and> es_recipient m = dp_index ?q \<and>
      openShare sample_curve sample_crypto ?q (dp_index ?p) (es_ciphertext m) = Some (scalarToHex (dp_f sample_curve ?p (dp_index ?q))) \<and>
      (\<exists>cs Ps. db_commitments b = Some cs \<and> emap (parsePoint sample_curve) cs = Inr Ps \<and>
         (shareMatches sample_curve (scalarToHex (dp_f sample_curve ?p (dp_index ?q))) Ps (dp_index ?q)
            \<longleftrightarrow> dp_f sample_curve ?p (dp_index ?q) \<noteq> 0))"
    by (rule dealt_share_delivered [OF sample_curve_laws sample_crypto_laws d])
      (simp_all add: sample_participant_def smul_sample_of NONCE_BYTES_def)
  then show ?thesis using d f by auto
qed

text \<open>The verdict of round two.  \<open>receive\<close> throws exactly when some dealer with well-formed
  commitments sent this participant nothing, naming the first such dealer; otherwise it
  complains, once and in order, about exactly the dealers whose commitments are well formed but
  whose share did not open to a matching scalar, and never about anyone else.  The shares it
  keeps are the verified ones, for the dealers before the first missing message.\<close>

theorem receive_verdict:
  "snd (receive C W bs ss p) =
     (case List.find (missing C bs ss p) (dp_participants p) of
        Some d \<Rightarrow> Inl (NoShareFrom d)
      | None \<Rightarrow> Inr (map (\<lambda>d. \<lparr>cp_complainer = dp_index p, cp_dealer = d\<rparr>)
          (filter (\<lambda>d. commitments_of C bs p d \<noteq> None \<and> delivered C W bs ss p d = None) (dp_participants p))))
   \<and> map_of (dp_received (fst (receive C W bs ss p))) d =
     (if d \<in> set (takeWhile (\<lambda>d. \<not> missing C bs ss p d) (dp_participants p)) \<and> delivered C W bs ss p d \<noteq> None
      then delivered C W bs ss p d else map_of (dp_received p) d)"
  by (simp add: receive_def receive_from_result receive_from_received split: option.split)

text \<open>C33: \<open>finalize\<close> trusts the first reveal, which \<open>computePublicResult\<close> need not have checked.  A
  dealer answers a participant's complaint with two signed reveals, a wrong share first and the
  right one second: it is qualified, because some reveal matches, yet the participant that was
  denied its share cannot finalize, although every share it needs is valid and public.\<close>

theorem finalize_fails_on_wrong_first_reveal:
  assumes C: "curve_laws C"
    and res: "computePublicResult C tr (dp_participants p) (dp_threshold p) = Inr res"
    and d: "d \<in> set (pr_qualified res)" "distinct (pr_qualified res)" "map_of (dp_received p) d = None"
    and first: "List.find (\<lambda>r. rv_dealer r = d \<and> rv_recipient r = dp_index p) (tr_reveals tr) = Some r"
      "map_of (commitmentsBy C tr (dp_participants p) (dp_threshold p)) d = Some Cs"
      "\<not> shareMatches C (rv_share r) Cs (dp_index p)"
    and others: "\<forall>e \<in> set (pr_qualified res) - {d}. \<exists>s Es. share_from p tr e = Some s \<and>
       map_of (commitmentsBy C tr (dp_participants p) (dp_threshold p)) e = Some Es \<and> shareMatches C s Es (dp_index p)"
  shows "\<not> is_ok (finalize C p tr)"
proof
  let ?L = "grp_order C" and ?i = "dp_index p"
  assume "is_ok (finalize C p tr)"
  then obtain ks res' where fin: "finalize C p tr = Inr (ks, res')" by (auto simp: is_ok_def split: sum.splits)
  obtain y where r': "computePublicResult C tr (dp_participants p) (dp_threshold p) = Inr res'"
    and y: "sum_shares C p tr (pr_qualified res') = Inr y" "0 < y" "y < ?L"
    and i: "map_of (pr_verificationKeys res') ?i = Some (pt_toHex C (smul C y (pt_BASE C)))"
    using fin by (rule finalize_Inr [OF C])
  have rr: "res' = res" using r' res by simp
  obtain F where F: "\<forall>e \<in> set (pr_qualified res). dealt C tr (dp_threshold p) e = Some (commit C (F e)) \<and> length (F e) = dp_threshold p"
    and q: "pr_qualified res = filter (is_qualified C tr (dp_participants p)
        (commitmentsBy C tr (dp_participants p) (dp_threshold p))) (dp_participants p)"
    and vk: "\<forall>j. map_of (pr_verificationKeys res) j = (if j \<in> set (dp_participants p)
       then Some (pt_toHex C (smul C (\<Sum>e\<leftarrow>pr_qualified res. horner (F e) j) (pt_BASE C))) else None)"
    by (rule computePublicResult_polynomials [OF C res]) blast
  have byF: "map_of (commitmentsBy C tr (dp_participants p) (dp_threshold p)) e = Some (commit C (F e))"
    if "e \<in> set (pr_qualified res)" for e
    using F q that by (auto simp: commitmentsBy_lookup)
  have L: "0 < ?L" using curve_order_gt_1 [OF C] by simp
  obtain f where f: "\<forall>e \<in> set (pr_qualified res). \<exists>s. share_from p tr e = Some s \<and> hexToScalar ?L s = Inr (f e)"
    and yf: "cgr ?L y (\<Sum>e\<leftarrow>pr_qualified res. f e)"
    using sum_shares_Inr [OF L y(1)] rr by auto
  have good: "cgr ?L (f e) (horner (F e) ?i)" if e: "e \<in> set (pr_qualified res) - {d}" for e
  proof -
    obtain s Es where s: "share_from p tr e = Some s" "shareMatches C s Es ?i"
      "map_of (commitmentsBy C tr (dp_participants p) (dp_threshold p)) e = Some Es"
      using bspec [OF others e] by blast
    then have "Es = commit C (F e)" using byF [of e] e by simp
    moreover have "hexToScalar ?L s = Inr (f e)" using f s(1) e by force
    ultimately show ?thesis using s(2) by (simp add: shareMatches_commit [OF C])
  qed
  have "smul C y (pt_BASE C) = smul C (\<Sum>e\<leftarrow>pr_qualified res. horner (F e) ?i) (pt_BASE C)"
    using i vk rr toHex_inj [OF C] by (auto split: if_splits)
  then have "cgr ?L (\<Sum>e\<leftarrow>pr_qualified res. f e) (\<Sum>e\<leftarrow>pr_qualified res. horner (F e) ?i)"
    using yf by (simp add: smul_BASE_inj [OF C])
  then have "cgr ?L (f d) (horner (F d) ?i)"
    using cgr_sum_all_but_one [where d = d and ds = "pr_qualified res" and L = ?L and f = f and g = "\<lambda>e. horner (F e) ?i"] d(1,2) good by blast
  moreover have "share_from p tr d = Some (rv_share r)" using d(3) first(1) by (simp add: share_from_def)
  ultimately have "shareMatches C (rv_share r) (commit C (F d)) ?i"
    using f d(1) by (auto simp: shareMatches_commit [OF C])
  then show False using first(2,3) byF [OF d(1)] by simp
qed

theorem finalize_fails_on_wrong_first_reveal_witness:
  "computePublicResult sample_curve two_reveals [1, 2] 2 = Inr sample_result \<and>
   \<not> is_ok (finalize sample_curve (sample_participant 2 [(2, scalarToHex 8)]) two_reveals)"
proof -
  let ?p = "sample_participant 2 [(2, scalarToHex 8)]"
  note r = two_reveals_result
  have c: "commitmentsBy sample_curve two_reveals [1, 2] 2 = [(1, [zp_of 3, zp_of 1]), (2, [zp_of 4, zp_of 2])]"
    and f: "tr_reveals two_reveals = [\<lparr>rv_dealer = 1, rv_recipient = 2, rv_share = scalarToHex 50\<rparr>,
      \<lparr>rv_dealer = 1, rv_recipient = 2, rv_share = scalarToHex 5\<rparr>]"
    by (simp_all add: two_reveals_def sample_commitmentsBy) (simp add: sample_transcript_def)
  have others: "\<forall>e \<in> set (pr_qualified sample_result) - {1}. \<exists>s Es. share_from ?p two_reveals e = Some s \<and>
     map_of (commitmentsBy sample_curve two_reveals (dp_participants ?p) (dp_threshold ?p)) e = Some Es \<and>
     shareMatches sample_curve s Es (dp_index ?p)"
    by (auto simp: sample_result_simps share_from_def c sample_matches)
  have "\<not> is_ok (finalize sample_curve ?p two_reveals)"
    by (rule finalize_fails_on_wrong_first_reveal [where res = sample_result and d = 1 and Cs = "[zp_of 3, zp_of 1]"
          and r = "\<lparr>rv_dealer = 1, rv_recipient = 2, rv_share = scalarToHex 50\<rparr>", OF sample_curve_laws _ _ _ _ _ _ _ others])
      (simp_all add: r sample_result_simps c f sample_matches)
  with r show ?thesis by simp
qed

text \<open>The context a share is encrypted under names its session, dealer and recipient uniquely,
  whatever characters the session identifier has, so a share cannot be replayed in another
  session or to another recipient under the same additional data.\<close>

theorem shareContext_unique:
  assumes "0 \<le> d" "0 \<le> r" "0 \<le> d'" "0 \<le> r'"
  shows "shareContext s d r = shareContext s' d' r' \<longleftrightarrow> s = s' \<and> d = d' \<and> r = r'"
proof -
  have num: "int_to_string 10 n = nat_to_string 10 (nat n)" if "0 \<le> n" for n
    using that by (simp add: int_to_string_def)
  have no: "47 \<notin> set (nat_to_string 10 n)" "45 \<notin> set (nat_to_string 10 n)" for n
    using nat_to_string_dec [of 47 n] nat_to_string_dec [of 45 n] by (auto simp: is_digit_def)
  have inj: "nat_to_string 10 (nat m) = nat_to_string 10 (nat n) \<longleftrightarrow> m = n" if "0 \<le> m" "0 \<le> n" for m n
    using nat_to_string_inj [of 10 "nat m" "nat n"] that by auto
  let ?tail = "\<lambda>d r. nat_to_string 10 (nat d) @ js ''->'' @ nat_to_string 10 (nat r)"
  have sl: "js ''/'' = [47]" "js ''->'' = [45, 62]" by (simp_all add: js_def)
  have nt: "47 \<notin> set (?tail d r)" for d r using no by (simp add: sl)
  have "s @ 47 # ?tail d r = s' @ 47 # ?tail d' r' \<longleftrightarrow> s = s' \<and> ?tail d r = ?tail d' r'"
    by (rule split_last [OF nt nt])
  moreover have "?tail d r = ?tail d' r' \<longleftrightarrow> d = d' \<and> r = r'"
    using split_first [OF no(2) [of "nat d"] no(2) [of "nat d'"], of "62 # nat_to_string 10 (nat r)" "62 # nat_to_string 10 (nat r')"]
      assms inj by (simp add: sl)
  ultimately show ?thesis using assms by (simp add: shareContext_def num sl)
qed

theorem shareContext_unique_witness:
  "shareContext (js ''a/1'') 2 3 \<noteq> shareContext (js ''a'') 12 3"
  using shareContext_unique [of 2 3 12 3 "js ''a/1''" "js ''a''"] by simp

end
