(* ===== verification/Signing.thy ===== *)
theory Signing
  imports Platform "HOL-Library.List_Lexorder" "HOL-Library.Multiset"
begin

text \<open>
  \<open>backend/src/crypto/signing.ts\<close>: the canonical JSON text of a message and the ed25519
  signatures over it.  A JavaScript value is a \<open>json\<close>; an object is the list of its
  properties in the order of \<open>Object.keys\<close>.  ed25519 is a parameter.  The lemmas show that the
  canonical text does not depend on the order of properties, that it determines the value, and
  that the signed bytes determine domain, signer and payload.
\<close>

section \<open>JavaScript values\<close>

datatype json =
    JUndefined
  | JNull
  | JBool bool
  | JInt int
  | JStr jsstring
  | JArr "json list"
  | JObj "(jsstring \<times> json) list"

text \<open>\<open>JSON.stringify\<close> of a string: escapes of control characters and of lone surrogates.\<close>

definition json_escape :: "16 word \<Rightarrow> jsstring" where
  "json_escape u = [92, 117] @ padStart 4 48 (nat_to_string 16 (unat u))"

definition json_unit :: "16 word \<Rightarrow> jsstring" where
  "json_unit u =
     (if u = 34 then [92, 34] else if u = 92 then [92, 92]
      else if u = 8 then [92, 98] else if u = 12 then [92, 102] else if u = 10 then [92, 110]
      else if u = 13 then [92, 114] else if u = 9 then [92, 116]
      else if unat u < 32 \<or> is_high u \<or> is_low u then json_escape u else [u])"

fun json_units :: "jsstring \<Rightarrow> jsstring" where
  "json_units [] = []"
| "json_units [u] = json_unit u"
| "json_units (u # v # us) =
     (if is_high u \<and> is_low v then u # v # json_units us else json_unit u @ json_units (v # us))"

definition json_quote :: "jsstring \<Rightarrow> jsstring" where
  "json_quote s = [34] @ json_units s @ [34]"

text \<open>\<open>xs.join(',')\<close>; an undefined element contributes nothing.\<close>

fun join :: "jsstring \<Rightarrow> jsstring list \<Rightarrow> jsstring" where
  "join sep [] = []"
| "join sep [x] = x"
| "join sep (x # y # ys) = x @ sep @ join sep (y # ys)"

section \<open>\<open>canonicalJson\<close>\<close>

text \<open>\<open>None\<close> is the value \<open>undefined\<close>, which \<open>JSON.stringify(undefined)\<close> returns.\<close>

function canonicalJson :: "json \<Rightarrow> jsstring option" where
  "canonicalJson (JArr xs) =
     Some ([91] @ join [44] (map (\<lambda>x. case canonicalJson x of None \<Rightarrow> [] | Some s \<Rightarrow> s) xs) @ [93])"
| "canonicalJson (JObj kvs) =
     Some ([123] @ join [44] (map (\<lambda>(k, s). json_quote k @ [58] @ (case s of None \<Rightarrow> js ''undefined'' | Some t \<Rightarrow> t))
       (sort_key fst (map (\<lambda>kv. (fst kv, canonicalJson (snd kv)))
          (filter (\<lambda>kv. snd kv \<noteq> JUndefined) kvs)))) @ [125])"
| "canonicalJson (JStr s) = Some (json_quote s)"
| "canonicalJson (JInt i) = Some (int_to_string 10 i)"
| "canonicalJson (JBool b) = Some (if b then js ''true'' else js ''false'')"
| "canonicalJson JNull = Some (js ''null'')"
| "canonicalJson JUndefined = None"
  by pat_completeness auto
termination
proof (relation "measure size")
  show "wf (measure (size :: json \<Rightarrow> nat))" by simp
  show "x \<in> set xs \<Longrightarrow> (x, JArr xs) \<in> measure size" for x xs
    by (induction xs) auto
  show "kv \<in> set (filter (\<lambda>kv. snd kv \<noteq> JUndefined) kvs) \<Longrightarrow> (snd kv, JObj kvs) \<in> measure size" for kv kvs
    by (induction kvs) (auto split: if_splits)
qed

section \<open>Signatures\<close>

record ed25519 =
  ed_getPublicKey :: "byte list \<Rightarrow> error + byte list"
  ed_sign :: "byte list \<Rightarrow> byte list \<Rightarrow> error + byte list"
  ed_verify :: "byte list \<Rightarrow> byte list \<Rightarrow> byte list \<Rightarrow> error + bool"

text \<open>Public keys have 32 bytes; a signature by a secret key verifies under its public key.\<close>

definition ed25519_laws :: "ed25519 \<Rightarrow> bool" where
  "ed25519_laws E \<longleftrightarrow>
     (\<forall>sk pk. ed_getPublicKey E sk = Inr pk \<longrightarrow> length pk = 32) \<and>
     (\<forall>sk pk m s. ed_getPublicKey E sk = Inr pk \<longrightarrow> ed_sign E m sk = Inr s \<longrightarrow> ed_verify E s m pk = Inr True)"

record 'a signed =
  sg_payload :: 'a
  sg_signer :: int
  sg_signature :: jsstring

record identity =
  id_secretKey :: jsstring
  id_publicKey :: jsstring

text \<open>The signed bytes; a template literal prints \<open>undefined\<close> as that word.\<close>

definition message :: "jsstring \<Rightarrow> int \<Rightarrow> json \<Rightarrow> byte list" where
  "message domain signer payload =
     utf8_encode (js ''cipher-protocol/'' @ domain @ [10] @ int_to_string 10 signer @ [10] @
       (case canonicalJson payload of None \<Rightarrow> js ''undefined'' | Some s \<Rightarrow> s))"

definition generateIdentity :: "ed25519 \<Rightarrow> byte list \<Rightarrow> error + identity" where
  "generateIdentity E secret =
     ebind (ed_getPublicKey E secret) (\<lambda>pk.
       Inr \<lparr>id_secretKey = bytesToHex secret, id_publicKey = bytesToHex pk\<rparr>)"

definition publicKeyOf :: "ed25519 \<Rightarrow> jsstring \<Rightarrow> error + jsstring" where
  "publicKeyOf E secretKeyHex =
     ebind (hexToBytes secretKeyHex) (\<lambda>sk. ebind (ed_getPublicKey E sk) (\<lambda>pk. Inr (bytesToHex pk)))"

definition signPayload ::
  "ed25519 \<Rightarrow> ('a \<Rightarrow> json) \<Rightarrow> jsstring \<Rightarrow> 'a \<Rightarrow> int \<Rightarrow> jsstring \<Rightarrow> error + 'a signed" where
  "signPayload E to_json domain payload signer secretKeyHex =
     ebind (hexToBytes secretKeyHex) (\<lambda>sk.
     ebind (ed_sign E (message domain signer (to_json payload)) sk) (\<lambda>s.
       Inr \<lparr>sg_payload = payload, sg_signer = signer, sg_signature = bytesToHex s\<rparr>))"

definition verifySigned ::
  "ed25519 \<Rightarrow> ('a \<Rightarrow> json) \<Rightarrow> jsstring \<Rightarrow> 'a signed \<Rightarrow> jsstring option \<Rightarrow> bool" where
  "verifySigned E to_json domain sg publicKeyHex =
     (case publicKeyHex of None \<Rightarrow> False
      | Some pkh \<Rightarrow>
          if pkh = [] then False
          else ecatch
            (ebind (hexToBytes (sg_signature sg)) (\<lambda>s.
             ebind (hexToBytes pkh) (\<lambda>pk.
               ed_verify E s (message domain (sg_signer sg) (to_json (sg_payload sg))) pk)))
            False)"

section \<open>The order of properties does not matter\<close>

text \<open>Two values that differ at most in the order in which their objects list their properties.\<close>

inductive same_json :: "json \<Rightarrow> json \<Rightarrow> bool" where
  same_refl: "same_json v v"
| same_trans: "same_json u v \<Longrightarrow> same_json v w \<Longrightarrow> same_json u w"
| same_arr: "list_all2 same_json xs ys \<Longrightarrow> same_json (JArr xs) (JArr ys)"
| same_obj: "list_all2 (\<lambda>x y. fst x = fst y \<and> same_json (snd x) (snd y)) kvs kvs'
    \<Longrightarrow> same_json (JObj kvs) (JObj kvs')"
| same_perm: "distinct (map fst kvs) \<Longrightarrow> mset kvs = mset kvs' \<Longrightarrow> same_json (JObj kvs) (JObj kvs')"

lemma sort_key_perm:
  assumes "distinct (map f xs)" and "mset xs = mset ys"
  shows "sort_key f xs = sort_key f ys"
proof (rule sort_key_inj_key_eq)
  show "mset xs = mset (sort_key f ys)" using assms(2) by simp
  show "inj_on f (set xs)" using assms(1) by (simp add: distinct_map)
qed simp

lemma canonicalJson_same: "same_json v w \<Longrightarrow> canonicalJson v = canonicalJson w"
proof (induction rule: same_json.induct)
  case (same_arr xs ys)
  have "map (\<lambda>x. case canonicalJson x of None \<Rightarrow> [] | Some s \<Rightarrow> s) xs
      = map (\<lambda>x. case canonicalJson x of None \<Rightarrow> [] | Some s \<Rightarrow> s) ys"
    using same_arr by (induction rule: list_all2_induct) auto
  then show ?case by simp
next
  case (same_obj kvs kvs')
  have undef: "canonicalJson v = None \<longleftrightarrow> v = JUndefined" for v by (cases v) simp_all
  have "map (\<lambda>kv. (fst kv, canonicalJson (snd kv))) (filter (\<lambda>kv. snd kv \<noteq> JUndefined) kvs)
      = map (\<lambda>kv. (fst kv, canonicalJson (snd kv))) (filter (\<lambda>kv. snd kv \<noteq> JUndefined) kvs')"
    using same_obj
  proof (induction rule: list_all2_induct)
    case (Cons x xs y ys)
    then have "snd x = JUndefined \<longleftrightarrow> snd y = JUndefined"
      using undef [of "snd x"] undef [of "snd y"] by simp
    with Cons show ?case by auto
  qed simp
  then show ?case by (simp only: canonicalJson.simps)
next
  case (same_perm kvs kvs')
  let ?g = "\<lambda>kv. (fst kv, canonicalJson (snd kv))" and ?P = "\<lambda>kv. snd kv \<noteq> JUndefined"
  have "sort_key fst (map ?g (filter ?P kvs)) = sort_key fst (map ?g (filter ?P kvs'))"
  proof (rule sort_key_perm)
    have "map fst (map ?g (filter ?P kvs)) = map fst (filter ?P kvs)" by simp
    then show "distinct (map fst (map ?g (filter ?P kvs)))"
      using same_perm(1) by (simp only: distinct_map_filter)
    show "mset (map ?g (filter ?P kvs)) = mset (map ?g (filter ?P kvs'))"
      using same_perm(2) by simp
  qed
  then show ?case by (simp only: canonicalJson.simps)
qed simp_all

section \<open>The text determines the value\<close>

text \<open>The representative with sorted keys and nothing undefined.\<close>

function normal :: "json \<Rightarrow> bool" where
  "normal (JArr xs) \<longleftrightarrow> (\<forall>x \<in> set xs. normal x)"
| "normal (JObj kvs) \<longleftrightarrow> sorted (map fst kvs) \<and> distinct (map fst kvs) \<and> (\<forall>kv \<in> set kvs. normal (snd kv))"
| "normal JUndefined \<longleftrightarrow> False"
| "normal (JStr s) \<longleftrightarrow> True"
| "normal (JInt i) \<longleftrightarrow> True"
| "normal (JBool b) \<longleftrightarrow> True"
| "normal JNull \<longleftrightarrow> True"
  by pat_completeness auto
termination
proof (relation "measure size")
  show "x \<in> set xs \<Longrightarrow> (x, JArr xs) \<in> measure size" for x xs by (induction xs) auto
  show "kv \<in> set kvs \<Longrightarrow> (snd kv, JObj kvs) \<in> measure size" for kv kvs by (induction kvs) auto
qed simp

definition json_text :: "json \<Rightarrow> jsstring" where
  "json_text v = (case canonicalJson v of None \<Rightarrow> [] | Some s \<Rightarrow> s)"

lemma normal_text: "normal v \<Longrightarrow> canonicalJson v = Some (json_text v)"
  by (cases v) (simp_all add: json_text_def)

lemma json_text_arr: "json_text (JArr xs) = [91] @ join [44] (map json_text xs) @ [93]"
  by (simp add: json_text_def [abs_def])

lemma json_text_obj:
  assumes "normal (JObj kvs)"
  shows "json_text (JObj kvs) = [123] @ join [44] (map (\<lambda>kv. json_quote (fst kv) @ [58] @ json_text (snd kv)) kvs) @ [125]"
proof -
  have n: "\<forall>kv \<in> set kvs. canonicalJson (snd kv) = Some (json_text (snd kv))" "filter (\<lambda>kv. snd kv \<noteq> JUndefined) kvs = kvs"
    using assms normal_text by (auto intro!: filter_True)
  have "sort_key fst (map (\<lambda>kv. (fst kv, canonicalJson (snd kv))) kvs) = map (\<lambda>kv. (fst kv, canonicalJson (snd kv))) kvs"
    using assms by (intro sort_key_id_if_sorted) (simp add: comp_def)
  then show ?thesis
    using n by (simp add: json_text_def [of "JObj kvs"] comp_def cong: map_cong)
qed

text \<open>Reading a quoted string back.\<close>

definition unescape :: "16 word \<Rightarrow> 16 word" where
  "unescape c = (if c = 98 then 8 else if c = 102 then 12 else if c = 110 then 10
     else if c = 114 then 13 else if c = 116 then 9 else c)"

fun json_unquote :: "jsstring \<Rightarrow> jsstring \<times> jsstring" where
  "json_unquote [] = ([], [])"
| "json_unquote (u # r) =
     (if u = 34 then ([], r)
      else if u = 92 then
        (case r of [] \<Rightarrow> ([], [])
         | c # r' \<Rightarrow>
            if c = 117 then apfst (Cons (of_nat (hex_value (take 4 r')))) (json_unquote (drop 4 r'))
            else apfst (Cons (unescape c)) (json_unquote r'))
      else apfst (Cons u) (json_unquote r))"

declare json_unquote.simps(2) [simp del]

lemma json_unquote_unit: "json_unquote (json_unit u @ r) = apfst (Cons u) (json_unquote r)"
proof -
  let ?h = "padStart 4 48 (nat_to_string 16 (unat u))"
  have "length (radix_digits 16 (unat u)) \<le> 4"
    using unit_bound [of u] by (intro radix_digits_length_le) simp_all
  then have "length ?h = 4" by (simp add: length_padStart nat_to_string_def)
  moreover have "hex_value ?h = unat u"
    using hex_value_zeros [of _ "nat_to_string 16 (unat u)"]
    by (simp add: padStart_def hex_value_nat_to_string digit_unit_0)
  ultimately have "json_unquote (json_escape u @ r) = apfst (Cons u) (json_unquote r)"
    by (simp add: json_escape_def json_unquote.simps(2))
  then show ?thesis
    by (simp add: json_unit_def json_unquote.simps(2) unescape_def)
qed

lemma json_unquote_units: "json_unquote (json_units s @ 34 # x) = (s, x)"
proof (induction s rule: json_units.induct)
  case 1
  then show ?case by (simp add: json_unquote.simps(2))
next
  case (2 u)
  then show ?case by (simp add: json_unquote_unit json_unquote.simps(2))
next
  case (3 u v us)
  show ?case
  proof (cases "is_high u \<and> is_low v")
    case True
    then have "u \<noteq> 34" "u \<noteq> 92" "v \<noteq> 34" "v \<noteq> 92" by (auto simp: is_high_def is_low_def)
    then show ?thesis using True 3 by (simp add: json_unquote.simps(2))
  next
    case False
    then have "json_units (u # v # us) = json_unit u @ json_units (v # us)" by auto
    then show ?thesis using 3(2) [OF False] by (simp add: json_unquote_unit)
  qed
qed

lemma json_quote_split: "json_quote s @ x = json_quote t @ y \<Longrightarrow> s = t \<and> x = y"
proof -
  assume "json_quote s @ x = json_quote t @ y"
  then have "json_units s @ 34 # x = json_units t @ 34 # y" by (simp add: json_quote_def)
  then have "(s, x) = (t, y)" by (simp only: json_unquote_units [symmetric])
  then show ?thesis by simp
qed

text \<open>What may follow a value inside a JSON text.\<close>

definition delimited :: "jsstring \<Rightarrow> bool" where
  "delimited x \<longleftrightarrow> x = [] \<or> hd x \<in> {44, 93, 125}"

text \<open>\<open>decodes f a\<close>: whatever follows it, the text \<open>f a\<close> is read back as \<open>a\<close>.\<close>

definition decodes :: "('a \<Rightarrow> bool) \<Rightarrow> ('a \<Rightarrow> jsstring) \<Rightarrow> 'a \<Rightarrow> bool" where
  "decodes ok f a \<longleftrightarrow> f a \<noteq> [] \<and> hd (f a) \<notin> {44, 93, 125} \<and>
     (\<forall>b x y. ok b \<longrightarrow> delimited x \<longrightarrow> delimited y \<longrightarrow> f a @ x = f b @ y \<longrightarrow> a = b \<and> x = y)"

lemma decodesD:
  "decodes ok f a \<Longrightarrow> ok b \<Longrightarrow> delimited x \<Longrightarrow> delimited y \<Longrightarrow> f a @ x = f b @ y \<Longrightarrow> a = b \<and> x = y"
  unfolding decodes_def by blast

lemma join_Cons: "join [c] (x # xs) = x @ concat (map (\<lambda>y. c # y) xs)"
  by (induction xs arbitrary: x) simp_all

lemma items_tail_decode:
  assumes "\<forall>a \<in> set xs. decodes ok f a" and "\<forall>b \<in> set ys. ok b" and "c \<in> {93, 125}"
    and "concat (map (\<lambda>a. 44 # f a) xs) @ c # x = concat (map (\<lambda>a. 44 # f a) ys) @ c # y"
  shows "xs = ys \<and> x = y"
  using assms(1,2,4)
proof (induction xs arbitrary: ys)
  case Nil
  then show ?case using assms(3) by (cases ys) auto
next
  case (Cons a xs)
  then obtain b ys' where ys: "ys = b # ys'" using assms(3) by (cases ys) auto
  have d: "delimited (concat (map (\<lambda>a. 44 # f a) zs) @ c # z)" for zs z
    using assms(3) by (cases zs) (auto simp: delimited_def)
  have "a = b \<and> concat (map (\<lambda>a. 44 # f a) xs) @ c # x = concat (map (\<lambda>a. 44 # f a) ys') @ c # y"
    by (rule decodesD [of ok f, OF _ _ d d]) (use Cons.prems ys in simp_all)
  then show ?case using Cons.IH [of ys'] Cons.prems ys by auto
qed

lemma items_decode:
  assumes "\<forall>a \<in> set xs. decodes ok f a" and "\<forall>b \<in> set ys. ok b \<and> f b \<noteq> [] \<and> hd (f b) \<notin> {44, 93, 125}"
    and "c \<in> {93, 125}" and "join [44] (map f xs) @ c # x = join [44] (map f ys) @ c # y"
  shows "xs = ys \<and> x = y"
proof (cases xs)
  case Nil
  then show ?thesis
  proof (cases ys)
    case (Cons b ys')
    have "f b \<noteq> []" "hd (f b) \<noteq> c" using assms(2,3) Cons by auto
    then show ?thesis using assms(4) Nil Cons by (cases "f b") (auto simp: join_Cons comp_def)
  qed (use assms(4) in simp)
next
  case (Cons a xs')
  have "f a \<noteq> []" "hd (f a) \<noteq> c" using assms(1,3) Cons by (auto simp: decodes_def)
  then obtain b ys' where ys: "ys = b # ys'"
    using assms(4) Cons by (cases ys; cases "f a") (auto simp: join_Cons)
  have d: "delimited (concat (map (\<lambda>a. 44 # f a) zs) @ c # z)" for zs z
    using assms(3) by (cases zs) (auto simp: delimited_def)
  have "a = b \<and> concat (map (\<lambda>a. 44 # f a) xs') @ c # x = concat (map (\<lambda>a. 44 # f a) ys') @ c # y"
    by (rule decodesD [of ok f, OF _ _ d d]) (use assms(1,2,4) ys Cons in \<open>simp_all add: join_Cons comp_def\<close>)
  then show ?thesis using items_tail_decode [of xs' ok f ys' c x y] assms Cons ys by auto
qed

lemma takeWhile_split:
  assumes "list_all P s" "list_all P t" "x = [] \<or> \<not> P (hd x)" "y = [] \<or> \<not> P (hd y)" "s @ x = t @ y"
  shows "s = t \<and> x = y"
proof -
  have "takeWhile P (u @ z) = u" if "list_all P u" "z = [] \<or> \<not> P (hd z)" for u z
    using that by (induction u) (cases z; simp)+
  from this [OF assms(1,3)] this [OF assms(2,4)] assms(5) show ?thesis by auto
qed

lemma int_units: "list_all (\<lambda>c. is_digit c \<or> c = 45) (int_to_string 10 i)"
  using nat_to_string_dec by (auto simp: int_to_string_def list_all_iff)

lemma nat_to_string_nonempty: "nat_to_string b n \<noteq> []"
  by (simp add: nat_to_string_def radix_digits_nonempty)

lemma int_to_string_inj:
  assumes "int_to_string 10 i = int_to_string 10 j"
  shows "i = j"
proof -
  have "45 \<notin> set (nat_to_string 10 n)" for n using nat_to_string_dec [of 45 n] by (auto simp: is_digit_def)
  then have no: "nat_to_string 10 m \<noteq> 45 # nat_to_string 10 n" for m n by (metis list.set_intros(1))
  have inj: "nat_to_string 10 m = nat_to_string 10 n \<Longrightarrow> m = n" for m n
    by (rule nat_to_string_inj [of 10]) simp_all
  show ?thesis
  proof (cases "i < 0"; cases "j < 0")
    assume "i < 0" "j < 0"
    then have "nat (- i) = nat (- j)" using assms by (intro inj) (simp add: int_to_string_def)
    with \<open>i < 0\<close> \<open>j < 0\<close> show ?thesis by simp
  next
    assume "\<not> i < 0" "\<not> j < 0"
    then have "nat i = nat j" using assms by (intro inj) (simp add: int_to_string_def)
    with \<open>\<not> i < 0\<close> \<open>\<not> j < 0\<close> show ?thesis by simp
  qed (use assms no no [symmetric] in \<open>auto simp: int_to_string_def\<close>)
qed

lemma int_decode:
  assumes "delimited x" "delimited y" "int_to_string 10 i @ x = int_to_string 10 j @ y"
  shows "i = j \<and> x = y"
proof -
  have nd: "z = [] \<or> \<not> (is_digit (hd z) \<or> hd z = 45)" if "delimited z" for z
    using that by (auto simp: delimited_def is_digit_def)
  show ?thesis
    using takeWhile_split [OF int_units int_units nd [OF assms(1)] nd [OF assms(2)] assms(3)] int_to_string_inj
    by blast
qed

lemma int_head: "int_to_string 10 i \<noteq> [] \<and> (is_digit (hd (int_to_string 10 i)) \<or> hd (int_to_string 10 i) = 45)"
  using int_units [of i] nat_to_string_nonempty
  by (cases "int_to_string 10 i") (auto simp: int_to_string_def split: if_splits)

text \<open>The first unit of a text tells the kind of the value.\<close>

lemma text_head:
  "normal v \<Longrightarrow> json_text v \<noteq> [] \<and> hd (json_text v) =
     (case v of JArr _ \<Rightarrow> 91 | JObj _ \<Rightarrow> 123 | JStr _ \<Rightarrow> 34 | JBool b \<Rightarrow> (if b then 116 else 102)
      | JNull \<Rightarrow> 110 | JInt i \<Rightarrow> hd (int_to_string 10 i) | JUndefined \<Rightarrow> 0)"
  by (cases v) (simp_all add: json_text_arr json_text_obj int_head, simp_all add: json_text_def json_quote_def js_def int_head)

lemma same_head:
  assumes "normal v" "normal w" "json_text v @ x = json_text w @ y"
  shows "(case (v, w) of (JArr _, JArr _) \<Rightarrow> True | (JObj _, JObj _) \<Rightarrow> True | (JStr _, JStr _) \<Rightarrow> True
     | (JBool b, JBool c) \<Rightarrow> b = c | (JNull, JNull) \<Rightarrow> True | (JInt _, JInt _) \<Rightarrow> True | _ \<Rightarrow> False)"
proof -
  have hd_eq: "hd (json_text v) = hd (json_text w)"
    using text_head [OF assms(1)] text_head [OF assms(2)] assms(3) by (metis hd_append2)
  have "hd (int_to_string 10 i) \<notin> {91, 123, 34, 116, 102, 110}" for i
    using int_head [of i] by (auto simp: is_digit_def)
  then show ?thesis
    using hd_eq text_head [OF assms(1)] text_head [OF assms(2)] assms(1,2)
    by (cases v; cases w) (auto split: if_splits)
qed

lemma int_head_not: "hd (int_to_string 10 i) \<notin> {91, 123, 34, 116, 102, 110, 44, 93, 125}"
  using int_head [of i] by (auto simp: is_digit_def)

lemma text_not_closing: "normal v \<Longrightarrow> json_text v \<noteq> [] \<and> hd (json_text v) \<notin> {44, 93, 125}"
  using text_head [of v] int_head_not by (cases v) auto

lemma text_decodes: "normal v \<Longrightarrow> decodes normal json_text v"
proof (induction v rule: normal.induct)
  case (1 xs)
  have "JArr xs = w \<and> x = y"
    if w: "normal w" "delimited x" "delimited y" "json_text (JArr xs) @ x = json_text w @ y" for w x y
  proof -
    obtain ys where ys: "w = JArr ys" using same_head [OF 1(2) w(1,4)] by (cases w) auto
    have "xs = ys \<and> x = y"
    proof (rule items_decode)
      show "\<forall>a \<in> set xs. decodes normal json_text a" using 1 by simp
      show "\<forall>b \<in> set ys. normal b \<and> json_text b \<noteq> [] \<and> hd (json_text b) \<notin> {44, 93, 125}"
        using w(1) ys text_not_closing by simp
      show "join [44] (map json_text xs) @ 93 # x = join [44] (map json_text ys) @ 93 # y"
        using w(4) by (simp add: ys json_text_arr)
    qed simp
    then show ?thesis using ys by simp
  qed
  then show ?case using text_not_closing [OF 1(2)] by (auto simp: decodes_def)
next
  case (2 kvs)
  let ?f = "\<lambda>kv. json_quote (fst kv) @ [58] @ json_text (snd kv)"
  have f: "decodes (\<lambda>kv. normal (snd kv)) ?f kv" if kv: "kv \<in> set kvs" for kv
  proof -
    have IH: "decodes normal json_text (snd kv)" using 2 kv by simp
    have "kv = kv' \<and> x = y" if h: "normal (snd kv')" "delimited x" "delimited y" "?f kv @ x = ?f kv' @ y" for kv' x y
    proof -
      have "fst kv = fst kv' \<and> 58 # json_text (snd kv) @ x = 58 # json_text (snd kv') @ y"
        using h(4) by (intro json_quote_split) simp
      then show ?thesis using decodesD [OF IH h(1-3)] by (auto simp: prod_eq_iff)
    qed
    then show ?thesis unfolding decodes_def by (auto simp: json_quote_def)
  qed
  have "JObj kvs = w \<and> x = y"
    if w: "normal w" "delimited x" "delimited y" "json_text (JObj kvs) @ x = json_text w @ y" for w x y
  proof -
    obtain kvs' where kvs': "w = JObj kvs'" using same_head [OF 2(2) w(1,4)] by (cases w) auto
    have "kvs = kvs' \<and> x = y"
    proof (rule items_decode)
      show "\<forall>kv \<in> set kvs. decodes (\<lambda>kv. normal (snd kv)) ?f kv" using f by blast
      show "\<forall>kv \<in> set kvs'. normal (snd kv) \<and> ?f kv \<noteq> [] \<and> hd (?f kv) \<notin> {44, 93, 125}"
        using w(1) kvs' by (simp add: json_quote_def)
      show "join [44] (map ?f kvs) @ 125 # x = join [44] (map ?f kvs') @ 125 # y"
        using w(1,4) 2(2) kvs' by (simp add: json_text_obj)
    qed simp
    then show ?thesis using kvs' by simp
  qed
  then show ?case using text_not_closing [OF 2(2)] by (auto simp: decodes_def)
next
  case (4 s)
  have "JStr s = w \<and> x = y" if w: "normal w" "json_text (JStr s) @ x = json_text w @ y" for w x y
  proof -
    obtain t where "w = JStr t" using same_head [OF _ w] by (cases w) auto
    then show ?thesis using w(2) json_quote_split [of s x t y] by (simp add: json_text_def)
  qed
  then show ?case using text_not_closing [of "JStr s"] by (auto simp: decodes_def)
next
  case (5 i)
  have "JInt i = w \<and> x = y" if w: "normal w" "delimited x" "delimited y" "json_text (JInt i) @ x = json_text w @ y" for w x y
  proof -
    obtain j where "w = JInt j" using same_head [OF _ w(1,4)] by (cases w) auto
    then show ?thesis using int_decode [OF w(2,3)] w(4) by (simp add: json_text_def)
  qed
  then show ?case using text_not_closing [of "JInt i"] by (auto simp: decodes_def)
next
  case (6 b)
  have "JBool b = w \<and> x = y" if w: "normal w" "json_text (JBool b) @ x = json_text w @ y" for w x y
  proof -
    have "w = JBool b" using same_head [OF _ w] by (cases w) auto
    then show ?thesis using w(2) by simp
  qed
  then show ?case using text_not_closing [of "JBool b"] by (auto simp: decodes_def)
next
  case 7
  have "JNull = w \<and> x = y" if w: "normal w" "json_text JNull @ x = json_text w @ y" for w x y
  proof -
    have "w = JNull" using same_head [OF _ w] by (cases w) auto
    then show ?thesis using w(2) by simp
  qed
  then show ?case using text_not_closing [of JNull] by (auto simp: decodes_def)
qed simp

lemma canonicalJson_inj:
  assumes "normal v" "normal w" "canonicalJson v = canonicalJson w"
  shows "v = w"
proof -
  have "json_text v @ [] = json_text w @ []" using assms(3) by (simp add: json_text_def)
  then show ?thesis using decodesD [OF text_decodes [OF assms(1)] assms(2), of "[]" "[]"] by (simp add: delimited_def)
qed

section \<open>The text is well-formed\<close>

lemma well_formed_append: "well_formed xs \<Longrightarrow> well_formed (xs @ ys) = well_formed ys"
proof (induction xs rule: well_formed.induct)
  case (2 u)
  then show ?case by (cases ys) auto
next
  case (3 u v us)
  then show ?case by (auto split: if_splits)
qed simp

lemma well_formed_Cons: "\<not> is_high u \<Longrightarrow> \<not> is_low u \<Longrightarrow> well_formed (u # ys) = well_formed ys"
  using well_formed_append [of "[u]" ys] by simp

lemma ascii_not_surrogate: "unat u < 128 \<Longrightarrow> \<not> is_high u \<and> \<not> is_low u"
  by (auto simp: is_high_def is_low_def)

lemma is_hex_ascii: "is_hex u \<Longrightarrow> unat u < 128"
  by (auto simp: is_hex_def is_digit_def word_le_nat_alt)

lemma well_formed_json_unit: "well_formed (json_unit u)"
proof -
  have "well_formed (json_escape u)"
    using nat_to_string_hex is_hex_ascii
    by (intro well_formed_ascii) (auto simp: json_escape_def padStart_def)
  then show ?thesis by (simp add: json_unit_def is_high_def is_low_def)
qed

lemma well_formed_json_units: "well_formed (json_units s)"
proof (induction s rule: json_units.induct)
  case (3 u v us)
  then show ?case by (auto simp: well_formed_append well_formed_json_unit)
qed (simp_all add: well_formed_json_unit)

lemma well_formed_text: "normal v \<Longrightarrow> well_formed (json_text v)"
proof (induction v rule: normal.induct)
  case (1 xs)
  have "well_formed (join [44] ss)" if "\<forall>s \<in> set ss. well_formed s" for ss
    using that by (induction "[44] :: jsstring" ss rule: join.induct)
      (simp_all add: well_formed_append well_formed_Cons is_high_def is_low_def)
  then show ?case
    using 1 by (simp add: json_text_arr well_formed_append well_formed_Cons is_high_def is_low_def)
next
  case (2 kvs)
  have j: "well_formed (join [44] ss)" if "\<forall>s \<in> set ss. well_formed s" for ss
    using that by (induction "[44] :: jsstring" ss rule: join.induct)
      (simp_all add: well_formed_append well_formed_Cons is_high_def is_low_def)
  have "well_formed (json_quote k @ [58] @ t)" if "well_formed t" for k t
    using that by (simp add: json_quote_def well_formed_append well_formed_Cons well_formed_json_units is_high_def is_low_def)
  then have "well_formed (join [44] (map (\<lambda>kv. json_quote (fst kv) @ [58] @ json_text (snd kv)) kvs))"
    using 2 by (intro j) simp
  then show ?case
    using 2(2) by (simp add: json_text_obj well_formed_append well_formed_Cons is_high_def is_low_def)
next
  case (4 s)
  then show ?case by (simp add: json_text_def json_quote_def well_formed_append well_formed_Cons
        well_formed_json_units is_high_def is_low_def)
next
  case (5 i)
  have "\<forall>u \<in> set (int_to_string 10 i). unat u < 128"
    using int_units [of i] by (auto simp: list_all_iff is_digit_def word_le_nat_alt)
  then show ?case by (simp add: json_text_def well_formed_ascii)
next
  case (6 b)
  then show ?case by (cases b) (simp_all add: json_text_def js_def is_high_def is_low_def)
next
  case 7
  then show ?case by (simp add: json_text_def js_def is_high_def is_low_def)
qed simp

lemma message_text: "normal v \<Longrightarrow> message domain signer v =
  utf8_encode (js ''cipher-protocol/'' @ domain @ 10 # int_to_string 10 signer @ 10 # json_text v)"
  using normal_text [of v] by (simp add: message_def)

lemma well_formed_message:
  assumes "well_formed domain" and "normal v"
  shows "well_formed (js ''cipher-protocol/'' @ domain @ 10 # int_to_string 10 signer @ 10 # json_text v)"
proof -
  have "\<forall>u \<in> set (int_to_string 10 signer). unat u < 128"
    using int_units [of signer] by (auto simp: list_all_iff is_digit_def word_le_nat_alt)
  then have "well_formed (int_to_string 10 signer)" by (rule well_formed_ascii)
  moreover have "well_formed (js ''cipher-protocol/'')" by (simp add: js_def is_high_def is_low_def)
  ultimately show ?thesis
    using assms well_formed_text by (simp add: well_formed_append well_formed_Cons is_high_def is_low_def)
qed

lemma message_inj:
  assumes "well_formed d" "well_formed d'" "10 \<notin> set d" "10 \<notin> set d'" "normal v" "normal w"
  shows "message d s v = message d' s' w \<longleftrightarrow> d = d' \<and> s = s' \<and> v = w"
proof
  assume "message d s v = message d' s' w"
  then have "d @ 10 # int_to_string 10 s @ 10 # json_text v = d' @ 10 # int_to_string 10 s' @ 10 # json_text w"
    using utf8_encode_inj [OF well_formed_message well_formed_message] assms
    by (simp add: message_text)
  then have d: "d = d'" and r: "int_to_string 10 s @ 10 # json_text v = int_to_string 10 s' @ 10 # json_text w"
    using split_first [OF assms(3,4)] by blast+
  have nl: "10 \<notin> set (int_to_string 10 i)" for i
    using int_units [of i] by (auto simp: list_all_iff is_digit_def)
  have "int_to_string 10 s = int_to_string 10 s' \<and> json_text v = json_text w"
    using r by (simp only: split_first [OF nl nl])
  then show "d = d' \<and> s = s' \<and> v = w"
    using d int_to_string_inj canonicalJson_inj [OF assms(5,6)] normal_text assms(5,6) by metis
qed simp

lemma sign_verify_lemma:
  assumes "ed25519_laws E" and "signPayload E to_json domain payload signer sk = Inr sg"
    and "publicKeyOf E sk = Inr pk"
  shows "verifySigned E to_json domain sg (Some pk) \<and> sg_payload sg = payload \<and> sg_signer sg = signer"
proof -
  obtain k s where k: "hexToBytes sk = Inr k" "ed_sign E (message domain signer (to_json payload)) k = Inr s"
    "sg = \<lparr>sg_payload = payload, sg_signer = signer, sg_signature = bytesToHex s\<rparr>"
    using assms(2) by (auto simp: signPayload_def ebind_eq_Inr)
  obtain p where p: "ed_getPublicKey E k = Inr p" "pk = bytesToHex p"
    using assms(3) k(1) by (auto simp: publicKeyOf_def ebind_eq_Inr)
  then have "length p = 32" "ed_verify E s (message domain signer (to_json payload)) p = Inr True"
    using assms(1) k(2) unfolding ed25519_laws_def by blast+
  moreover from this(1) have "pk \<noteq> []" using length_bytesToHex [of p] p(2) by auto
  ultimately show ?thesis using k p by (simp add: verifySigned_def hex.dec_enc)
qed

section \<open>Properties\<close>

text \<open>An instance of the signature interface, for the examples.\<close>

definition sample_ed25519 :: ed25519 where
  "sample_ed25519 = \<lparr>
     ed_getPublicKey = (\<lambda>sk. if length sk = 32 then Inr sk else Inl RangeError),
     ed_sign = (\<lambda>m sk. if length sk = 32 then Inr (sk @ m) else Inl RangeError),
     ed_verify = (\<lambda>s m pk. Inr (s = pk @ m))\<rparr>"

lemma sample_ed25519_laws: "ed25519_laws sample_ed25519"
  by (simp add: ed25519_laws_def sample_ed25519_def)

text \<open>Signer and verifier hash the same text.  \<open>canonicalJson\<close> gives one string to all values
  that differ only in the order in which their objects, at any depth, list their properties.\<close>

theorem canonicalJson_ignores_order:
  "same_json v w \<Longrightarrow> canonicalJson v = canonicalJson w"
  by (rule canonicalJson_same)

theorem canonicalJson_ignores_order_witness:
  "canonicalJson (JArr [JObj [(js ''b'', JInt 1), (js ''a'', JStr (js ''x''))]])
     = canonicalJson (JArr [JObj [(js ''a'', JStr (js ''x'')), (js ''b'', JInt 1)]])"
  by (rule canonicalJson_ignores_order) (auto intro!: same_arr same_perm simp: js_def)

text \<open>The canonical text is unambiguous.  Two values in normal form (properties sorted, nothing
  undefined) with the same canonical text are the same value, whatever quotes, brackets, commas
  or lone surrogates their strings contain.\<close>

theorem canonicalJson_injective:
  "normal v \<Longrightarrow> normal w \<Longrightarrow> canonicalJson v = canonicalJson w \<longleftrightarrow> v = w"
  using canonicalJson_inj by blast

theorem canonicalJson_injective_witness:
  "canonicalJson (JArr [JStr (js '','') , JStr []]) \<noteq> canonicalJson (JArr [JStr [], JStr (js '','')])"
  by (subst canonicalJson_injective) (simp_all add: js_def)

text \<open>A signature cannot be moved to another message.  The bytes that are signed determine the
  domain, the signer and the payload, for the domains of the protocol (no line feed) and
  payloads in normal form.\<close>

theorem signed_bytes_injective:
  assumes "well_formed d" "well_formed d'" "10 \<notin> set d" "10 \<notin> set d'" "normal v" "normal w"
  shows "message d s v = message d' s' w \<longleftrightarrow> d = d' \<and> s = s' \<and> v = w"
  by (rule message_inj [OF assms])

theorem signed_bytes_injective_witness:
  "message (js ''dkg/share/v1'') 1 (JInt 2) \<noteq> message (js ''dkg/share/v1'') 12 (JInt 2) \<and>
   message (js ''dkg/share/v1'') 1 JNull \<noteq> message (js ''dkg/reveal/v1'') 1 JNull"
proof -
  have w: "well_formed (js ''dkg/share/v1'')" "well_formed (js ''dkg/reveal/v1'')"
    "10 \<notin> set (js ''dkg/share/v1'')" "10 \<notin> set (js ''dkg/reveal/v1'')"
    by (simp_all add: js_def is_high_def is_low_def)
  show ?thesis
    using signed_bytes_injective [OF w(1,1,3,3), of "JInt 2" "JInt 2" 1 12]
      signed_bytes_injective [OF w(1,2,3,4), of JNull JNull 1 1] by (simp add: js_def)
qed

text \<open>What \<open>signPayload\<close> signs, \<open>verifySigned\<close> accepts under the signer's \<open>publicKeyOf\<close>, and only the
  signer index, domain and payload that were signed are looked at.\<close>

theorem sign_verify:
  assumes "ed25519_laws E" and "signPayload E to_json domain payload signer sk = Inr sg"
    and "publicKeyOf E sk = Inr pk"
  shows "verifySigned E to_json domain sg (Some pk) \<and> sg_payload sg = payload \<and> sg_signer sg = signer"
  by (rule sign_verify_lemma [OF assms])

theorem sign_verify_witness:
  "\<exists>sg. signPayload sample_ed25519 id (js ''dkg/reveal/v1'') (JInt 7) 3 (bytesToHex (replicate 32 5)) = Inr sg \<and>
     verifySigned sample_ed25519 id (js ''dkg/reveal/v1'') sg (Some (bytesToHex (replicate 32 5)))"
proof -
  obtain sg where sg: "signPayload sample_ed25519 id (js ''dkg/reveal/v1'') (JInt 7) 3 (bytesToHex (replicate 32 5)) = Inr sg"
    by (simp add: signPayload_def hex.dec_enc sample_ed25519_def)
  have "publicKeyOf sample_ed25519 (bytesToHex (replicate 32 5)) = Inr (bytesToHex (replicate 32 5))"
    by (simp add: publicKeyOf_def hex.dec_enc sample_ed25519_def)
  from sign_verify [OF sample_ed25519_laws sg this] sg show ?thesis by blast
qed

end
