(* ===== verification/OrderVault.thy ===== *)
theory OrderVault
  imports Platform
begin

text \<open>
  The \<open>order-vault\<close> contract (\<open>contracts/order-vault/src/lib.rs\<close>): the storage it keeps and its
  entry points as functions on that storage.  An error return leaves the storage as it was,
  as Soroban rolls back a failed call.  Authorization (\<open>require_auth\<close>) is the argument \<open>auth\<close>,
  the set of addresses that signed the call.  Storage lifetimes (\<open>extend_ttl\<close>) are not modelled.
\<close>

section \<open>Storage\<close>

type_synonym address = jsstring

record encrypted_order =
  eo_order_id :: "64 word"
  eo_user :: address
  eo_encrypted_data :: "byte list"
  eo_threshold_public_key :: "byte list"
  eo_nonce :: "64 word"
  eo_timestamp :: "64 word"

record attestation =
  at_order_count :: "32 word"
  at_content_hash :: "byte list"
  at_timestamp :: "64 word"

datatype vault_error = AlreadyInitialized | NotInitialized | BatchAlreadyExists | Unauthorized | Overflow

record vault =
  v_admin :: "address option"
  v_order_cnt :: "64 word"
  v_orders :: "encrypted_order list"
  v_batches :: "(byte list \<times> attestation) list"

definition new_vault :: vault where
  "new_vault = \<lparr>v_admin = None, v_order_cnt = 0, v_orders = [], v_batches = []\<rparr>"

section \<open>Entry points\<close>

definition vault_initialize :: "vault \<Rightarrow> address \<Rightarrow> vault_error + vault" where
  "vault_initialize v admin =
     (if v_admin v \<noteq> None then Inl AlreadyInitialized else Inr (v\<lparr>v_admin := Some admin\<rparr>))"

text \<open>The contract is built with overflow checks: a counter at its maximum panics.\<close>

definition submit_order ::
  "vault \<Rightarrow> address set \<Rightarrow> 64 word \<Rightarrow> address \<Rightarrow> byte list \<Rightarrow> byte list \<Rightarrow> 64 word
     \<Rightarrow> vault_error + (vault \<times> 64 word)" where
  "submit_order v auth now user encrypted_data threshold_pubkey nonce =
     (if user \<notin> auth then Inl Unauthorized
      else if v_order_cnt v = - 1 then Inl Overflow
      else
        (let order_id = v_order_cnt v + 1;
             ord = \<lparr>eo_order_id = order_id, eo_user = user, eo_encrypted_data = encrypted_data,
               eo_threshold_public_key = threshold_pubkey, eo_nonce = nonce, eo_timestamp = now\<rparr>
         in Inr (v\<lparr>v_orders := v_orders v @ [ord], v_order_cnt := order_id\<rparr>, order_id)))"

definition get_pending_orders :: "vault \<Rightarrow> encrypted_order list" where
  "get_pending_orders v = v_orders v"

definition create_batch ::
  "vault \<Rightarrow> address set \<Rightarrow> 64 word \<Rightarrow> byte list \<Rightarrow> 32 word \<Rightarrow> byte list \<Rightarrow> vault_error + vault" where
  "create_batch v auth now batch_id order_count content_hash =
     (case v_admin v of None \<Rightarrow> Inl NotInitialized
      | Some admin \<Rightarrow>
          if admin \<notin> auth then Inl Unauthorized
          else if map_of (v_batches v) batch_id \<noteq> None then Inl BatchAlreadyExists
          else Inr (v\<lparr>v_batches := AList.update batch_id
              \<lparr>at_order_count = order_count, at_content_hash = content_hash, at_timestamp = now\<rparr>
              (v_batches v)\<rparr>))"

definition get_batch :: "vault \<Rightarrow> byte list \<Rightarrow> attestation option" where
  "get_batch v batch_id = map_of (v_batches v) batch_id"

section \<open>Lemmas\<close>

lemma create_batch_Inr:
  "create_batch v auth now b n h = Inr v' \<longleftrightarrow>
     get_batch v b = None \<and> (\<exists>admin. v_admin v = Some admin \<and> admin \<in> auth) \<and>
     v' = v\<lparr>v_batches := AList.update b \<lparr>at_order_count = n, at_content_hash = h, at_timestamp = now\<rparr> (v_batches v)\<rparr>"
  by (auto simp: create_batch_def get_batch_def split: option.splits)

lemma create_batch_get:
  "create_batch v auth now b n h = Inr v' \<Longrightarrow> get_batch v' c =
     (if c = b then Some \<lparr>at_order_count = n, at_content_hash = h, at_timestamp = now\<rparr> else get_batch v c)"
  by (auto simp: create_batch_Inr get_batch_def update_conv)

lemma submit_order_batches: "submit_order v auth now u e k n = Inr (v', i) \<Longrightarrow> get_batch v' b = get_batch v b"
  by (auto simp: submit_order_def get_batch_def Let_def split: if_splits)

lemma vault_initialize_batches: "vault_initialize v a = Inr v' \<Longrightarrow> get_batch v' b = get_batch v b"
  by (auto simp: vault_initialize_def get_batch_def split: if_splits)

section \<open>The contract as a state machine\<close>

text \<open>One successful call of any entry point.\<close>

inductive vault_step :: "vault \<Rightarrow> vault \<Rightarrow> bool" where
  initialize_step: "vault_initialize v admin = Inr v' \<Longrightarrow> vault_step v v'"
| submit_step: "submit_order v auth now user encrypted_data key nonce = Inr (v', i) \<Longrightarrow> vault_step v v'"
| batch_step: "create_batch v auth now batch_id n h = Inr v' \<Longrightarrow> vault_step v v'"

inductive_cases vault_stepE: "vault_step v v'"

lemma vault_step_keeps: "vault_step v v' \<Longrightarrow> get_batch v b = Some a \<Longrightarrow> get_batch v' b = Some a"
proof (erule vault_stepE)
  fix auth now batch_id n h
  assume "create_batch v auth now batch_id n h = Inr v'" and a: "get_batch v b = Some a"
  then show "get_batch v' b = Some a"
    using create_batch_get create_batch_Inr by (metis option.distinct(1))
qed (simp_all add: vault_initialize_batches submit_order_batches)

lemma vault_steps_keep: "vault_step\<^sup>*\<^sup>* v v' \<Longrightarrow> get_batch v b = Some a \<Longrightarrow> get_batch v' b = Some a"
  by (induction rule: rtranclp_induct) (auto dest: vault_step_keeps)

text \<open>Once set, the admin never changes.\<close>

lemma vault_step_admin: "vault_step v v' \<Longrightarrow> v_admin v = Some a \<Longrightarrow> v_admin v' = Some a"
  by (erule vault_stepE) (auto simp: vault_initialize_def submit_order_def create_batch_def Let_def
      split: if_splits option.splits)

text \<open>Order ids count up from one without gaps.\<close>

definition orders_numbered :: "vault \<Rightarrow> bool" where
  "orders_numbered v \<longleftrightarrow> unat (v_order_cnt v) = length (v_orders v) \<and>
     (\<forall>i < length (v_orders v). eo_order_id (v_orders v ! i) = of_nat (i + 1))"

lemma vault_step_numbered: "vault_step v v' \<Longrightarrow> orders_numbered v \<Longrightarrow> orders_numbered v'"
proof (erule vault_stepE)
  fix auth now user encrypted_data key nonce i
  assume s: "submit_order v auth now user encrypted_data key nonce = Inr (v', i)" and n: "orders_numbered v"
  then have ne: "v_order_cnt v \<noteq> - 1" by (auto simp: submit_order_def split: if_splits)
  have c: "unat (v_order_cnt v + 1) = unat (v_order_cnt v) + 1"
    using ne by (metis add.commute add.right_inverse add_left_cancel unatSuc Suc_eq_plus1)
  have "v_order_cnt v + 1 = of_nat (length (v_orders v) + 1)"
    using n by (metis c orders_numbered_def of_nat_unat ucast_id)
  then show "orders_numbered v'"
    using s n c by (auto simp: submit_order_def orders_numbered_def Let_def nth_append less_Suc_eq split: if_splits)
qed (auto simp: vault_initialize_def create_batch_def orders_numbered_def split: if_splits option.splits)

end
