(* ===== verification/Commitment.thy ===== *)
theory Commitment
  imports OrderVault
begin

text \<open>
  \<open>backend/src/chain/batchCommitment.ts\<close>: the hash that seals a batch, the two ledgers a
  sealed batch is read from, and the check every validator makes before it decrypts.
  SHA-256 is the parameter \<open>sha\<close>.  The contract of a ledger (a record, once made, never
  changes) is the locale \<open>commitment_ledger\<close>; the in-memory ledger and the \<open>order-vault\<close>
  contract read through its simulation are its interpretations.
\<close>

section \<open>The commitment\<close>

definition COMMITMENT_DOMAIN :: "byte list" where
  "COMMITMENT_DOMAIN = utf8_encode (js ''cipher-protocol/batch-commitment/v1'')"

text \<open>\<open>writeUInt32BE\<close> throws a \<open>RangeError\<close> for a number that does not fit.\<close>

definition u32 :: "nat \<Rightarrow> error + byte list" where
  "u32 n =
     (if n < 2 ^ 32 then Inr [of_nat (n div 2 ^ 24), of_nat (n div 2 ^ 16), of_nat (n div 2 ^ 8), of_nat n]
      else Inl RangeError)"

definition commitment_input :: "jsstring list \<Rightarrow> error + byte list" where
  "commitment_input ciphertexts =
     ebind (u32 (length ciphertexts)) (\<lambda>n.
     ebind (efold (\<lambda>acc ct.
         let bytes = utf8_encode ct in
         ebind (u32 (length bytes)) (\<lambda>l. Inr (acc @ l @ bytes))) (COMMITMENT_DOMAIN @ n) ciphertexts) Inr)"

definition batchCommitment :: "(byte list \<Rightarrow> byte list) \<Rightarrow> jsstring list \<Rightarrow> error + jsstring" where
  "batchCommitment sha ciphertexts =
     ebind (commitment_input ciphertexts) (\<lambda>input. Inr (bytesToHex (sha input)))"

record batch_record =
  br_orderCount :: nat
  br_contentHash :: jsstring
  br_timestamp :: nat

definition batchIdBytes :: "jsstring \<Rightarrow> error + byte list" where
  "batchIdBytes batchId =
     (let hex = filter (\<lambda>c. c \<noteq> 45) batchId in
      if \<not> (length hex = 32 \<and> list_all is_hex hex) then Inl NotUuid else Inr (hex_pairs hex))"

section \<open>Ledgers\<close>

text \<open>
  \<open>SorobanCommitmentLedger.getBatch\<close>; \<open>sim\<close> is the outcome of the read-only simulation of
  \<open>get_batch\<close>: an error, or what the contract returns.
\<close>

definition soroban_getBatch ::
  "(byte list \<Rightarrow> error + attestation option) \<Rightarrow> jsstring \<Rightarrow> error + batch_record option" where
  "soroban_getBatch sim batchId =
     ebind (batchIdBytes batchId) (\<lambda>b.
     ebind (sim b) (\<lambda>native. Inr (map_option (\<lambda>a. \<lparr>
        br_orderCount = unat (at_order_count a),
        br_contentHash = bytesToHex (at_content_hash a),
        br_timestamp = unat (at_timestamp a)\<rparr>) native)))"

type_synonym dev_ledger = "(jsstring \<times> batch_record) list"

definition dev_getBatch :: "dev_ledger \<Rightarrow> jsstring \<Rightarrow> error + batch_record option" where
  "dev_getBatch l batchId = Inr (map_of l batchId)"

definition dev_record :: "dev_ledger \<Rightarrow> nat \<Rightarrow> jsstring \<Rightarrow> nat \<Rightarrow> jsstring \<Rightarrow> error + dev_ledger" where
  "dev_record l now batchId orderCount contentHash =
     (if map_of l batchId \<noteq> None then Inl BatchExists
      else Inr (AList.update batchId
        \<lparr>br_orderCount = orderCount, br_contentHash = contentHash, br_timestamp = now div 1000\<rparr> l))"

definition assertBatchSealed ::
  "(byte list \<Rightarrow> byte list) \<Rightarrow> (jsstring \<Rightarrow> error + batch_record option) \<Rightarrow> jsstring \<Rightarrow> jsstring list
     \<Rightarrow> error + batch_record" where
  "assertBatchSealed sha getBatch batchId ciphertexts =
     ebind (getBatch batchId) (\<lambda>record.
       case record of
         None \<Rightarrow> Inl NotCommitted
       | Some r \<Rightarrow>
           if br_orderCount r \<noteq> length ciphertexts
           then Inl (WrongOrderCount (br_orderCount r) (length ciphertexts))
           else ebind (batchCommitment sha ciphertexts) (\<lambda>h.
             if br_contentHash r \<noteq> h then Inl CommitmentMismatch else Inr r))"

section \<open>The framing is injective\<close>

lemma u32_ok: "u32 n = Inr b \<Longrightarrow> length b = 4 \<and> n < 2 ^ 32"
  by (auto simp: u32_def split: if_splits)

lemma be_value: "n < 2 ^ 32 \<Longrightarrow>
  n = (n div 2 ^ 24 mod 256) * 2 ^ 24 + (n div 2 ^ 16 mod 256) * 2 ^ 16 + (n div 2 ^ 8 mod 256) * 2 ^ 8 + n mod (256 :: nat)"
proof -
  assume n: "n < 2 ^ 32"
  have 1: "n = n div 256 * 256 + n mod 256" by simp
  have 2: "n div 256 = n div 65536 * 256 + n div 256 mod 256"
    using div_mult_mod_eq [of "n div 256" 256] by (simp flip: div_mult2_eq)
  have 3: "n div 65536 = n div 16777216 * 256 + n div 65536 mod 256"
    using div_mult_mod_eq [of "n div 65536" 256] by (simp flip: div_mult2_eq)
  have 4: "n div 16777216 mod 256 = n div 16777216"
    using n by (intro mod_less) (simp add: div_less_iff_less_mult)
  have e: "n = n div 16777216 * 16777216 + n div 65536 mod 256 * 65536 + n div 256 mod 256 * 256 + n mod 256"
    using 1 2 3 by linarith
  have p: "(2 :: nat) ^ 24 = 16777216" "(2 :: nat) ^ 16 = 65536" "(2 :: nat) ^ 8 = 256" by simp_all
  show ?thesis unfolding p 4 by (rule e)
qed

lemma u32_inj: "u32 m = Inr b \<Longrightarrow> u32 n = Inr b \<Longrightarrow> m = n"
proof -
  assume m: "u32 m = Inr b" and n: "u32 n = Inr b"
  have "m div 2 ^ 24 mod 256 = n div 2 ^ 24 mod 256 \<and> m div 2 ^ 16 mod 256 = n div 2 ^ 16 mod 256 \<and>
      m div 2 ^ 8 mod 256 = n div 2 ^ 8 mod 256 \<and> m mod 256 = n mod 256"
    using m n by (auto simp: u32_def word_of_nat_eq_iff take_bit_eq_mod split: if_splits)
  then show "m = n" using be_value [of m] be_value [of n] u32_ok [OF m] u32_ok [OF n] by metis
qed

text \<open>The bytes of one ciphertext, after its length.\<close>

definition frame :: "jsstring \<Rightarrow> error + byte list" where
  "frame ct = ebind (u32 (length (utf8_encode ct))) (\<lambda>l. Inr (l @ utf8_encode ct))"

lemma commitment_fold:
  "efold (\<lambda>acc ct. let bytes = utf8_encode ct in
      ebind (u32 (length bytes)) (\<lambda>l. Inr (acc @ l @ bytes))) acc cts = Inr out \<longleftrightarrow>
   (\<exists>fs. emap frame cts = Inr fs \<and> out = acc @ concat fs)"
proof (induction cts arbitrary: acc)
  case (Cons ct cts)
  then show ?case
    by (cases "u32 (length (utf8_encode ct))") (auto simp: frame_def Let_def ebind_eq_Inr)
qed auto

lemma commitment_input_Inr:
  "commitment_input cts = Inr out \<longleftrightarrow>
     (\<exists>n fs. u32 (length cts) = Inr n \<and> emap frame cts = Inr fs \<and> out = COMMITMENT_DOMAIN @ n @ concat fs)"
  by (auto simp: commitment_input_def ebind_eq_Inr commitment_fold)

lemma frame_split:
  assumes "frame a = Inr f" "frame b = Inr g" "f @ x = g @ y"
  shows "utf8_encode a = utf8_encode b \<and> x = y"
proof -
  obtain l m where l: "u32 (length (utf8_encode a)) = Inr l" "f = l @ utf8_encode a"
    and m: "u32 (length (utf8_encode b)) = Inr m" "g = m @ utf8_encode b"
    using assms(1,2) by (auto simp: frame_def ebind_eq_Inr)
  have len: "length l = length m" using u32_ok [OF l(1)] u32_ok [OF m(1)] by simp
  have "l @ (utf8_encode a @ x) = m @ (utf8_encode b @ y)" using assms(3) by (simp add: l(2) m(2))
  then have "l = m" and t: "utf8_encode a @ x = utf8_encode b @ y"
    unfolding append_eq_append_conv [OF disjI1 [OF len]] by blast+
  have "length (utf8_encode a) = length (utf8_encode b)"
    by (rule u32_inj [OF l(1)]) (simp only: m(1) \<open>l = m\<close>)
  with t show ?thesis by simp
qed

lemma frames_inj:
  assumes "emap frame as = Inr fs" "emap frame bs = Inr gs" "length as = length bs" "concat fs = concat gs"
  shows "map utf8_encode as = map utf8_encode bs"
  using assms
proof (induction as arbitrary: bs fs gs)
  case (Cons a as)
  then obtain b bs' where bs: "bs = b # bs'" by (cases bs) auto
  obtain f fs' where f: "frame a = Inr f" "emap frame as = Inr fs'" "fs = f # fs'"
    using Cons.prems(1) by (auto simp: ebind_eq_Inr)
  obtain g gs' where g: "frame b = Inr g" "emap frame bs' = Inr gs'" "gs = g # gs'"
    using Cons.prems(2) bs by (auto simp: ebind_eq_Inr)
  have "utf8_encode a = utf8_encode b \<and> concat fs' = concat gs'"
    using Cons.prems(4) by (intro frame_split [OF f(1) g(1)]) (simp add: f(3) g(3))
  moreover from this have "map utf8_encode as = map utf8_encode bs'"
    using Cons.prems(3) bs by (intro Cons.IH [OF f(2) g(2)]) simp_all
  ultimately show ?case using bs by simp
qed simp

lemma commitment_input_inj:
  assumes "commitment_input cts = Inr b" and "commitment_input cts' = Inr b"
  shows "map utf8_encode cts = map utf8_encode cts'"
proof -
  obtain n fs m gs where n: "u32 (length cts) = Inr n" "emap frame cts = Inr fs"
    and m: "u32 (length cts') = Inr m" "emap frame cts' = Inr gs" and e: "n @ concat fs = m @ concat gs"
    using assms by (auto simp: commitment_input_Inr)
  have "length n = length m" using u32_ok [OF n(1)] u32_ok [OF m(1)] by simp
  then have "n = m" "concat fs = concat gs" using e by auto
  moreover have "length cts = length cts'"
    by (rule u32_inj [OF n(1)]) (simp only: m(1) \<open>n = m\<close>)
  ultimately show ?thesis using frames_inj [OF n(2) m(2)] by simp
qed

lemma utf8_map_inj: "\<forall>s \<in> set xs. well_formed s \<Longrightarrow> \<forall>s \<in> set ys. well_formed s \<Longrightarrow>
  map utf8_encode xs = map utf8_encode ys \<Longrightarrow> xs = ys"
proof (induction xs arbitrary: ys)
  case (Cons x xs)
  then obtain y ys' where ys: "ys = y # ys'" by (cases ys) auto
  then have "x = y" using Cons.prems by (intro utf8_encode_inj) simp_all
  moreover have "xs = ys'" using Cons.prems ys by (intro Cons.IH) simp_all
  ultimately show ?case using ys by simp
qed simp

lemma assertBatchSealed_Inr:
  "assertBatchSealed sha getBatch b cts = Inr r \<longleftrightarrow>
     getBatch b = Inr (Some r) \<and> br_orderCount r = length cts \<and> batchCommitment sha cts = Inr (br_contentHash r)"
  by (auto simp: assertBatchSealed_def ebind_eq_Inr split: option.splits if_splits)

section \<open>The contract of a ledger\<close>

locale commitment_ledger =
  fixes getBatch :: "'s \<Rightarrow> jsstring \<Rightarrow> error + batch_record option"
    and step :: "'s \<Rightarrow> 's \<Rightarrow> bool"
  assumes step_keeps: "step s s' \<Longrightarrow> getBatch s b = Inr (Some r) \<Longrightarrow> getBatch s' b = Inr (Some r)"
begin

lemma steps_keep: "step\<^sup>*\<^sup>* s s' \<Longrightarrow> getBatch s b = Inr (Some r) \<Longrightarrow> getBatch s' b = Inr (Some r)"
  by (induction rule: rtranclp_induct) (auto dest: step_keeps)

lemma sealed_stays: "step\<^sup>*\<^sup>* s s' \<Longrightarrow> assertBatchSealed sha (getBatch s) b cts = Inr r
  \<Longrightarrow> assertBatchSealed sha (getBatch s') b cts = Inr r"
  by (auto simp: assertBatchSealed_Inr dest: steps_keep)

text \<open>Two lists accepted under one id, at any two times, have the same length and hash.\<close>

lemma sealed_once:
  assumes "step\<^sup>*\<^sup>* s s'" "assertBatchSealed sha (getBatch s) b cts = Inr r"
    "assertBatchSealed sha (getBatch s') b cts' = Inr r'"
  shows "r = r' \<and> length cts = length cts' \<and> batchCommitment sha cts = batchCommitment sha cts'"
  using assms(2) sealed_stays [OF assms(1,2)] assms(3) by (auto simp: assertBatchSealed_Inr)

text \<open>So they are the same list, or two different inputs of the hash collide.\<close>

lemma sealed_list_unique:
  assumes "step\<^sup>*\<^sup>* s s'" "assertBatchSealed sha (getBatch s) b cts = Inr r"
    "assertBatchSealed sha (getBatch s') b cts' = Inr r'"
    and "\<forall>c \<in> set cts \<union> set cts'. well_formed c"
  shows "cts = cts' \<or> (\<exists>x y. commitment_input cts = Inr x \<and> commitment_input cts' = Inr y \<and> x \<noteq> y \<and> sha x = sha y)"
proof -
  have "batchCommitment sha cts = Inr (br_contentHash r)" "batchCommitment sha cts' = Inr (br_contentHash r)"
    using sealed_once [OF assms(1-3)] assms(2) by (auto simp: assertBatchSealed_Inr)
  then obtain x y where x: "commitment_input cts = Inr x" and y: "commitment_input cts' = Inr y"
    and h: "bytesToHex (sha x) = bytesToHex (sha y)"
    by (auto simp: batchCommitment_def ebind_eq_Inr)
  show ?thesis
  proof (cases "x = y")
    case True
    then have "cts = cts'" using commitment_input_inj [OF x] y assms(4) by (intro utf8_map_inj) auto
    then show ?thesis ..
  qed (use x y h hex.enc_inj in blast)
qed

end

text \<open>The in-memory ledger: a call of \<open>record\<close> that does not throw.\<close>

definition dev_step :: "dev_ledger \<Rightarrow> dev_ledger \<Rightarrow> bool" where
  "dev_step l l' \<longleftrightarrow> (\<exists>now b n h. dev_record l now b n h = Inr l')"

interpretation dev: commitment_ledger dev_getBatch dev_step
  by unfold_locales (auto simp: dev_step_def dev_record_def dev_getBatch_def update_conv split: if_splits)

text \<open>The contract, read through a simulation that returns what \<open>get_batch\<close> returns.\<close>

definition vault_getBatch :: "vault \<Rightarrow> jsstring \<Rightarrow> error + batch_record option" where
  "vault_getBatch v = soroban_getBatch (\<lambda>b. Inr (get_batch v b))"

interpretation onchain: commitment_ledger vault_getBatch vault_step
  by unfold_locales (auto simp: vault_getBatch_def soroban_getBatch_def ebind_eq_Inr dest: vault_step_keeps)

end
