(* ===== verification/Soroban.thy ===== *)
theory Soroban
  imports Commitment
begin

text \<open>
  \<open>backend/src/services/sorobanService.ts\<close>: how the backend seals a batch and settles it on
  chain.  \<open>invokeContract\<close> is modelled up to the network: what the RPC server answers is an
  argument, and so is the clock.  The effect of a submitted transaction on the \<open>order-vault\<close>
  storage is the contract's own \<open>create_batch\<close>.
\<close>

section \<open>\<open>invokeContract\<close>\<close>

datatype tx_status = NOT_FOUND | SUCCESS | FAILED

text \<open>
  The polling loop.  Each element of \<open>polls\<close> is one round: the clock in milliseconds when the
  deadline is checked, and what \<open>getTransaction\<close> answers after the pause.  \<open>None\<close>: the answers
  given do not decide, the loop is still waiting.
\<close>

fun await_transaction :: "nat \<Rightarrow> tx_status \<Rightarrow> (nat \<times> tx_status) list \<Rightarrow> (error + tx_status) option" where
  "await_transaction deadline status polls =
     (if status \<noteq> NOT_FOUND then Some (Inr status)
      else case polls of
        [] \<Rightarrow> None
      | (now, next_status) # polls' \<Rightarrow>
          if now > deadline then Some (Inl (AppError 504))
          else await_transaction deadline next_status polls')"

declare await_transaction.simps [simp del]

record rpc_answers =
  ra_send_error :: bool
  ra_sent_at :: nat
  ra_first :: tx_status
  ra_polls :: "(nat \<times> tx_status) list"

text \<open>Whether the invocation is confirmed, throws, or is still waiting.\<close>

definition invokeContract :: "bool \<Rightarrow> rpc_answers \<Rightarrow> (error + unit) option" where
  "invokeContract signer_configured net =
     (if \<not> signer_configured then Some (Inl (AppError 500))
      else if ra_send_error net then Some (Inl (AppError 502))
      else case await_transaction (ra_sent_at net + 30000) (ra_first net) (ra_polls net) of
        None \<Rightarrow> None
      | Some (Inl e) \<Rightarrow> Some (Inl e)
      | Some (Inr status) \<Rightarrow> if status \<noteq> SUCCESS then Some (Inl (AppError 502)) else Some (Inr ()))"

section \<open>\<open>createBatch\<close>\<close>

text \<open>Without an order vault: the in-memory ledger.\<close>

definition createBatch_dev ::
  "(byte list \<Rightarrow> byte list) \<Rightarrow> dev_ledger \<Rightarrow> nat \<Rightarrow> jsstring \<Rightarrow> jsstring list
     \<Rightarrow> error + (dev_ledger \<times> jsstring)" where
  "createBatch_dev sha l now batchId ciphertexts =
     ebind (batchCommitment sha ciphertexts) (\<lambda>contentHash.
     ebind (dev_record l now batchId (length ciphertexts) contentHash) (\<lambda>l'.
       Inr (l', contentHash)))"

text \<open>
  With one: the arguments of the \<open>create_batch\<close> call, and the call.  The transaction is signed
  by \<open>signer\<close>; the contract's storage changes when the network applies it (\<open>applied\<close>), which
  a confirmation implies and a timeout leaves open.
\<close>

definition createBatch_args ::
  "(byte list \<Rightarrow> byte list) \<Rightarrow> jsstring \<Rightarrow> jsstring list \<Rightarrow> error + (byte list \<times> 32 word \<times> byte list \<times> jsstring)" where
  "createBatch_args sha batchId ciphertexts =
     ebind (batchCommitment sha ciphertexts) (\<lambda>contentHash.
     ebind (batchIdBytes batchId) (\<lambda>b.
     ebind (hexToBytes contentHash) (\<lambda>h.
       Inr (b, of_nat (length ciphertexts), h, contentHash))))"

definition createBatch_onchain ::
  "(byte list \<Rightarrow> byte list) \<Rightarrow> vault \<Rightarrow> address \<Rightarrow> 64 word \<Rightarrow> bool \<Rightarrow> jsstring \<Rightarrow> jsstring list
     \<Rightarrow> vault \<times> (error + jsstring)" where
  "createBatch_onchain sha v signer now confirmed batchId ciphertexts =
     (case createBatch_args sha batchId ciphertexts of
        Inl e \<Rightarrow> (v, Inl e)
      | Inr (b, n, h, contentHash) \<Rightarrow>
          (case create_batch v {signer} now b n h of
             Inl _ \<Rightarrow> (v, Inl (AppError 502))
           | Inr v' \<Rightarrow> (v', if confirmed then Inr contentHash else Inl (AppError 504))))"

section \<open>Lemmas\<close>

text \<open>Rounds are at least 1500 ms apart, so the loop decides within 22 of them.\<close>

fun spaced :: "nat \<Rightarrow> (nat \<times> tx_status) list \<Rightarrow> bool" where
  "spaced t [] = True"
| "spaced t ((now, s) # polls) = (t \<le> now \<and> spaced (now + 1500) polls)"

lemma await_bounded:
  "spaced t polls \<Longrightarrow> deadline + 1500 < t + 1500 * length polls \<Longrightarrow> polls \<noteq> [] \<Longrightarrow>
     await_transaction deadline status polls \<noteq> None"
proof (induction polls arbitrary: t status)
  case Nil
  then show ?case by (simp add: await_transaction.simps [of deadline status])
next
  case (Cons p polls)
  obtain now s where p: "p = (now, s)" by (cases p)
  show ?case
  proof (cases "status = NOT_FOUND \<and> now \<le> deadline")
    case True
    have "await_transaction deadline s polls \<noteq> None"
      using Cons.prems p True by (intro Cons.IH [of "now + 1500"]) (auto simp: algebra_simps)
    then show ?thesis using p True by (simp add: await_transaction.simps [of deadline NOT_FOUND])
  qed (use p in \<open>auto simp: await_transaction.simps [of deadline status]\<close>)
qed

lemma createBatch_dev_Inr:
  "createBatch_dev sha l now b cts = Inr (l', h) \<longleftrightarrow>
     batchCommitment sha cts = Inr h \<and> dev_record l now b (length cts) h = Inr l'"
  by (auto simp: createBatch_dev_def ebind_eq_Inr)

lemma batchCommitment_hex: "batchCommitment sha cts = Inr h \<Longrightarrow> \<exists>x. commitment_input cts = Inr x \<and> h = bytesToHex (sha x)"
  by (auto simp: batchCommitment_def ebind_eq_Inr)

lemma commitment_length: "commitment_input cts = Inr x \<Longrightarrow> length cts < 2 ^ 32"
  by (auto simp: commitment_input_Inr dest: u32_ok)

lemma createBatch_args_Inr:
  assumes "createBatch_args sha b cts = Inr (bytes, n, h, hash)"
  shows "batchCommitment sha cts = Inr hash \<and> batchIdBytes b = Inr bytes \<and> bytesToHex h = hash \<and> unat n = length cts"
proof -
  from assms have c: "batchCommitment sha cts = Inr hash" and b: "batchIdBytes b = Inr bytes"
    and h: "hexToBytes hash = Inr h" and n: "n = of_nat (length cts)"
    by (auto simp: createBatch_args_def ebind_eq_Inr)
  obtain x where x: "commitment_input cts = Inr x" "hash = bytesToHex (sha x)" using batchCommitment_hex [OF c] by blast
  have "unat (of_nat (length cts) :: 32 word) = length cts"
    using commitment_length [OF x(1)] by (simp add: unat_of_nat)
  then show ?thesis using c b h n x by (simp add: hex.dec_enc)
qed

lemma createBatch_onchain_sealed:
  assumes "createBatch_onchain sha v signer now confirmed b cts = (v', Inr h)"
  shows "\<exists>r. assertBatchSealed sha (vault_getBatch v') b cts = Inr r \<and> br_contentHash r = h \<and> vault_step v v'"
proof -
  obtain bytes n hb where a: "createBatch_args sha b cts = Inr (bytes, n, hb, h)"
    and c: "create_batch v {signer} now bytes n hb = Inr v'"
    using assms by (auto simp: createBatch_onchain_def split: sum.splits prod.splits if_splits)
  have "get_batch v' bytes = Some \<lparr>at_order_count = n, at_content_hash = hb, at_timestamp = now\<rparr>"
    using create_batch_get [OF c] by simp
  then show ?thesis
    using createBatch_args_Inr [OF a] batch_step [OF c]
    by (auto simp: assertBatchSealed_Inr vault_getBatch_def soroban_getBatch_def)
qed

section \<open>Properties\<close>

text \<open>C2: Sealing fixes a batch for good.  Once \<open>createBatch\<close> has recorded a batch in the order vault,
  then whatever calls of the contract follow, a validator's check of that batch accepts the sealed
  list of ciphertexts, and any other list it accepts gives a collision of the hash function on
  two explicit, different inputs: ciphertexts can be neither added, dropped, replaced nor
  reordered after sealing, and the batch cannot be sealed again.\<close>

theorem sealed_batch_is_fixed:
  assumes "createBatch_onchain sha v signer now confirmed b cts = (v', Inr h)"
    and "vault_step\<^sup>*\<^sup>* v' v''" and "assertBatchSealed sha (vault_getBatch v'') b cts' = Inr r"
    and "\<forall>c \<in> set cts \<union> set cts'. well_formed c"
  shows "is_ok (assertBatchSealed sha (vault_getBatch v'') b cts) \<and>
    (cts' = cts \<or> (\<exists>x y. commitment_input cts = Inr x \<and> commitment_input cts' = Inr y \<and> x \<noteq> y \<and> sha x = sha y))"
proof -
  obtain r0 where r0: "assertBatchSealed sha (vault_getBatch v') b cts = Inr r0"
    using createBatch_onchain_sealed [OF assms(1)] by blast
  then show ?thesis
    using onchain.sealed_stays [OF assms(2) r0] onchain.sealed_list_unique [OF assms(2) r0 assms(3,4)] by auto
qed

text \<open>The in-memory ledger of local development keeps the same promise: what \<open>createBatch\<close>
  sealed is accepted at any later time, and no other list is, short of a hash collision.\<close>

theorem dev_sealed_batch_is_fixed:
  assumes "createBatch_dev sha l now b cts = Inr (l', h)"
    and "dev_step\<^sup>*\<^sup>* l' l''" and "assertBatchSealed sha (dev_getBatch l'') b cts' = Inr r"
    and "\<forall>c \<in> set cts \<union> set cts'. well_formed c"
  shows "is_ok (assertBatchSealed sha (dev_getBatch l'') b cts) \<and>
    (cts' = cts \<or> (\<exists>x y. commitment_input cts = Inr x \<and> commitment_input cts' = Inr y \<and> x \<noteq> y \<and> sha x = sha y))"
proof -
  have r0: "assertBatchSealed sha (dev_getBatch l') b cts
      = Inr \<lparr>br_orderCount = length cts, br_contentHash = h, br_timestamp = now div 1000\<rparr>"
    using assms(1) by (auto simp: createBatch_dev_Inr assertBatchSealed_Inr dev_getBatch_def dev_record_def
        update_conv split: if_splits)
  show ?thesis
    using dev.sealed_stays [OF assms(2) r0] dev.sealed_list_unique [OF assms(2) r0 assms(3,4)] by auto
qed

text \<open>A two-order batch in a vault administered by the backend.\<close>

definition sample_vault :: vault where
  "sample_vault = new_vault\<lparr>v_admin := Some (js ''backend'')\<rparr>"

definition sample_batch_id :: jsstring where
  "sample_batch_id = replicate 32 48"

lemma sample_seal:
  "\<exists>v' h. createBatch_onchain (\<lambda>_. replicate 32 1) sample_vault (js ''backend'') 5 True sample_batch_id
     [js ''a'', js ''b''] = (v', Inr h)"
proof -
  have f: "emap frame [js ''a'', js ''b''] = Inr [[0, 0, 0, 1, 97], [0, 0, 0, 1, 98]]"
    by (simp add: frame_def u32_def js_def utf8_encode_ascii)
  have "u32 (length [js ''a'', js ''b'']) = Inr [0, 0, 0, 2]" by (simp add: u32_def)
  with f have "commitment_input [js ''a'', js ''b''] = Inr (COMMITMENT_DOMAIN @ [0, 0, 0, 2] @
      concat [[0, 0, 0, 1, 97], [0, 0, 0, 1, 98]])"
    by (auto simp: commitment_input_Inr)
  moreover have "batchIdBytes sample_batch_id = Inr (hex_pairs sample_batch_id)"
    by (simp add: batchIdBytes_def sample_batch_id_def is_hex_48 Let_def list_all_iff)
  ultimately show ?thesis
    by (simp add: createBatch_onchain_def createBatch_args_def batchCommitment_def hex.dec_enc
        create_batch_def sample_vault_def new_vault_def)
qed

lemma sample_cts: "\<forall>c \<in> set [js ''a'', js ''b''] \<union> set [js ''a'', js ''b'']. well_formed c"
  by (simp add: js_def is_high_def is_low_def)

theorem sealed_batch_is_fixed_witness:
  "\<exists>v' h. createBatch_onchain (\<lambda>_. replicate 32 1) sample_vault (js ''backend'') 5 True sample_batch_id
     [js ''a'', js ''b''] = (v', Inr h) \<and>
     is_ok (assertBatchSealed (\<lambda>_. replicate 32 1) (vault_getBatch v') sample_batch_id [js ''a'', js ''b''])"
proof -
  obtain v' h where s: "createBatch_onchain (\<lambda>_. replicate 32 1) sample_vault (js ''backend'') 5 True sample_batch_id
     [js ''a'', js ''b''] = (v', Inr h)" using sample_seal by blast
  obtain r where "assertBatchSealed (\<lambda>_. replicate 32 1) (vault_getBatch v') sample_batch_id [js ''a'', js ''b''] = Inr r"
    using createBatch_onchain_sealed [OF s] by blast
  from sealed_batch_is_fixed [OF s rtranclp.rtrancl_refl this sample_cts] s show ?thesis by blast
qed

theorem dev_sealed_batch_is_fixed_witness:
  "\<exists>l' h. createBatch_dev (\<lambda>_. replicate 32 1) [] 5000 (js ''id'') [js ''a'', js ''b''] = Inr (l', h) \<and>
     is_ok (assertBatchSealed (\<lambda>_. replicate 32 1) (dev_getBatch l') (js ''id'') [js ''a'', js ''b''])"
proof -
  obtain v' h where "createBatch_onchain (\<lambda>_. replicate 32 1) sample_vault (js ''backend'') 5 True sample_batch_id
     [js ''a'', js ''b''] = (v', Inr h)" using sample_seal by blast
  from createBatch_onchain_sealed [OF this] have h: "batchCommitment (\<lambda>_. replicate 32 1) [js ''a'', js ''b''] = Inr h"
    by (auto simp: assertBatchSealed_Inr)
  let ?r = "\<lparr>br_orderCount = 2, br_contentHash = h, br_timestamp = 5\<rparr>"
  have s: "createBatch_dev (\<lambda>_. replicate 32 1) [] 5000 (js ''id'') [js ''a'', js ''b''] = Inr ([(js ''id'', ?r)], h)"
    using h by (simp add: createBatch_dev_Inr dev_record_def)
  have "assertBatchSealed (\<lambda>_. replicate 32 1) (dev_getBatch [(js ''id'', ?r)]) (js ''id'') [js ''a'', js ''b''] = Inr ?r"
    using h by (simp add: assertBatchSealed_Inr dev_getBatch_def)
  from dev_sealed_batch_is_fixed [OF s rtranclp.rtrancl_refl this sample_cts] s show ?thesis by blast
qed

text \<open>Waiting for a transaction ends.  With the clock advancing by the 1500 ms pause between
  rounds, \<open>invokeContract\<close> returns or throws after at most 22 rounds of polling, whatever the
  RPC server answers.\<close>

theorem invokeContract_terminates:
  assumes "spaced (ra_sent_at net) (ra_polls net)" and "22 \<le> length (ra_polls net)"
  shows "invokeContract signer net \<noteq> None"
proof -
  have "await_transaction (ra_sent_at net + 30000) (ra_first net) (ra_polls net) \<noteq> None"
    using assms by (intro await_bounded [of "ra_sent_at net"]) auto
  then show ?thesis by (auto simp: invokeContract_def split: sum.splits)
qed

theorem invokeContract_terminates_witness:
  "invokeContract True \<lparr>ra_send_error = False, ra_sent_at = 7, ra_first = NOT_FOUND,
     ra_polls = map (\<lambda>k. (7 + 1500 * k, NOT_FOUND)) [0..<22]\<rparr> \<noteq> None"
proof (rule invokeContract_terminates)
  have "spaced (7 + 1500 * k) (map (\<lambda>k. (7 + 1500 * k, NOT_FOUND)) [k..<k + n])" for k n
  proof (induction n arbitrary: k)
    case (Suc n)
    have "[k..<k + Suc n] = k # [Suc k..<Suc k + n]" by (simp add: upt_conv_Cons)
    then show ?case using Suc [of "Suc k"] by (simp add: add.assoc)
  qed simp
  from this [of 0 22] show "spaced (ra_sent_at \<lparr>ra_send_error = False, ra_sent_at = 7, ra_first = NOT_FOUND,
     ra_polls = map (\<lambda>k. (7 + 1500 * k, NOT_FOUND)) [0..<22]\<rparr>) (ra_polls \<lparr>ra_send_error = False,
     ra_sent_at = 7, ra_first = NOT_FOUND, ra_polls = map (\<lambda>k. (7 + 1500 * k, NOT_FOUND)) [0..<22]\<rparr>)"
    by simp
qed simp

end
