(* ===== verification/LocalValidator.thy ===== *)
theory LocalValidator
  imports KeyGeneration Signing Soroban
begin

text \<open>
  \<open>backend/src/validator/localValidator.ts\<close> with the messages of \<open>validator/protocol.ts\<close>: one
  validator, its key share and its side of a key generation whose messages are signed and
  routed by an untrusted coordinator.  A method that changes the object returns the new state
  beside its result.  Payloads have their declared types; their JSON, which is what is signed,
  is given by the \<open>_json\<close> functions.
\<close>

section \<open>Messages\<close>

definition DOMAIN_transportKey :: jsstring where "DOMAIN_transportKey = js ''dkg/transport-key/v1''"
definition DOMAIN_broadcast :: jsstring where "DOMAIN_broadcast = js ''dkg/broadcast/v1''"
definition DOMAIN_share :: jsstring where "DOMAIN_share = js ''dkg/share/v1''"
definition DOMAIN_complaint :: jsstring where "DOMAIN_complaint = js ''dkg/complaint/v1''"
definition DOMAIN_reveal :: jsstring where "DOMAIN_reveal = js ''dkg/reveal/v1''"
definition DOMAIN_result :: jsstring where "DOMAIN_result = js ''dkg/result/v1''"

record transport_key =
  tk_index :: int
  tk_transportKey :: jsstring

text \<open>\<open>T & { session: string }\<close>.\<close>

record 'a in_session =
  is_session :: jsstring
  is_body :: 'a

record signed_transcript =
  st_broadcasts :: "dealer_broadcast in_session signed list"
  st_complaints :: "complaint in_session signed list"
  st_reveals :: "reveal in_session signed list"

record result_statement =
  rs_session :: jsstring
  rs_transcriptHash :: jsstring
  rs_result :: dkg_public_result

definition body_broadcast :: "dealer_broadcast \<Rightarrow> (jsstring \<times> json) list" where
  "body_broadcast b = [(js ''dealer'', JInt (db_dealer b)),
     (js ''commitments'', case db_commitments b of None \<Rightarrow> JNull | Some cs \<Rightarrow> JArr (map JStr cs))]"

definition body_share :: "encrypted_share \<Rightarrow> (jsstring \<times> json) list" where
  "body_share s = [(js ''dealer'', JInt (es_dealer s)), (js ''recipient'', JInt (es_recipient s)),
     (js ''ciphertext'', JStr (es_ciphertext s))]"

definition body_complaint :: "complaint \<Rightarrow> (jsstring \<times> json) list" where
  "body_complaint c = [(js ''complainer'', JInt (cp_complainer c)), (js ''dealer'', JInt (cp_dealer c))]"

definition body_reveal :: "reveal \<Rightarrow> (jsstring \<times> json) list" where
  "body_reveal r = [(js ''dealer'', JInt (rv_dealer r)), (js ''recipient'', JInt (rv_recipient r)),
     (js ''share'', JStr (rv_share r))]"

definition body_transportKey :: "transport_key \<Rightarrow> (jsstring \<times> json) list" where
  "body_transportKey k = [(js ''index'', JInt (tk_index k)), (js ''transportKey'', JStr (tk_transportKey k))]"

definition body_result :: "dkg_public_result \<Rightarrow> (jsstring \<times> json) list" where
  "body_result r = [(js ''threshold'', JInt (int (pr_threshold r))),
     (js ''qualified'', JArr (map JInt (pr_qualified r))),
     (js ''groupPublicKey'', JStr (pr_groupPublicKey r)),
     (js ''verificationKeys'', JObj (map (\<lambda>(j, k). (int_to_string 10 j, JStr k)) (pr_verificationKeys r)))]"

definition session_json :: "('a \<Rightarrow> (jsstring \<times> json) list) \<Rightarrow> 'a in_session \<Rightarrow> json" where
  "session_json body m = JObj ((js ''session'', JStr (is_session m)) # body (is_body m))"

definition statement_json :: "result_statement \<Rightarrow> json" where
  "statement_json s = JObj ((js ''session'', JStr (rs_session s)) # (js ''transcriptHash'', JStr (rs_transcriptHash s))
     # body_result (rs_result s))"

definition transcript_json :: "dkg_transcript \<Rightarrow> json" where
  "transcript_json t = JObj [
     (js ''broadcasts'', JArr (map (\<lambda>b. JObj (body_broadcast b)) (tr_broadcasts t))),
     (js ''complaints'', JArr (map (\<lambda>c. JObj (body_complaint c)) (tr_complaints t))),
     (js ''reveals'', JArr (map (\<lambda>r. JObj (body_reveal r)) (tr_reveals t)))]"

section \<open>The validator\<close>

datatype ledger_kind = Soroban | DevInMemory
datatype commitment_source = InsecureSkip | Ledger ledger_kind

record key_info =
  ki_index :: int
  ki_threshold :: nat
  ki_participants :: "int list"
  ki_groupPublicKey :: jsstring
  ki_verificationKeys :: "(int \<times> jsstring) list"

record persisted_key =
  pk_info :: key_info
  pk_secret :: jsstring

record local_validator =
  lv_index :: int
  lv_identity :: identity
  lv_peers :: "(int \<times> jsstring) list"
  lv_byzantine :: bool
  lv_dkgFaults :: dkg_faults
  lv_commitments :: "commitment_source option"
  lv_keyFile :: jsstring
  lv_keyShare :: "key_share option"
  lv_keyInfo :: "key_info option"
  lv_dkg :: "dkg_participant option"

definition newLocalValidator ::
  "int \<Rightarrow> identity \<Rightarrow> (int \<times> jsstring) list \<Rightarrow> bool \<Rightarrow> dkg_faults \<Rightarrow> commitment_source option \<Rightarrow> jsstring
     \<Rightarrow> error + local_validator" where
  "newLocalValidator index identity peers byzantine dkgFaults commitments keyFile =
     (if map_of peers index \<noteq> Some (id_publicKey identity) then Inl OwnIdentityNotListed
      else Inr \<lparr>lv_index = index, lv_identity = identity, lv_peers = peers, lv_byzantine = byzantine,
        lv_dkgFaults = dkgFaults, lv_commitments = commitments, lv_keyFile = keyFile,
        lv_keyShare = None, lv_keyInfo = None, lv_dkg = None\<rparr>)"

text \<open>A missing verification key leaves \<open>undefined\<close>, here the empty string.\<close>

definition fromPersisted ::
  "persisted_key \<Rightarrow> identity \<Rightarrow> (int \<times> jsstring) list \<Rightarrow> bool \<Rightarrow> commitment_source option \<Rightarrow> error + local_validator" where
  "fromPersisted key identity peers byzantine commitments =
     ebind (newLocalValidator (ki_index (pk_info key)) identity peers byzantine
        \<lparr>df_corruptSharesTo = [], df_lieOnReveal = False\<rparr> commitments []) (\<lambda>v.
     Inr (v\<lparr>
       lv_keyShare := Some \<lparr>ks_index = ki_index (pk_info key), ks_secret = pk_secret key,
         ks_verificationKey = (case map_of (ki_verificationKeys (pk_info key)) (ki_index (pk_info key)) of
            None \<Rightarrow> [] | Some k \<Rightarrow> k)\<rparr>,
       lv_keyInfo := Some (pk_info key)\<rparr>))"

datatype commitment_check = Unconfigured | Disabled | Checks ledger_kind

definition commitmentCheck :: "local_validator \<Rightarrow> commitment_check" where
  "commitmentCheck v = (case lv_commitments v of
     None \<Rightarrow> Unconfigured | Some InsecureSkip \<Rightarrow> Disabled | Some (Ledger k) \<Rightarrow> Checks k)"

record validator_info =
  vi_index :: int
  vi_identityKey :: jsstring
  vi_hasKey :: bool
  vi_commitmentCheck :: commitment_check
  vi_threshold :: "nat option"
  vi_groupPublicKey :: "jsstring option"
  vi_verificationKeys :: "(int \<times> jsstring) list option"

definition info :: "local_validator \<Rightarrow> validator_info" where
  "info v = \<lparr>vi_index = lv_index v, vi_identityKey = id_publicKey (lv_identity v),
     vi_hasKey = (lv_keyShare v \<noteq> None), vi_commitmentCheck = commitmentCheck v,
     vi_threshold = map_option ki_threshold (lv_keyInfo v),
     vi_groupPublicKey = map_option ki_groupPublicKey (lv_keyInfo v),
     vi_verificationKeys = map_option ki_verificationKeys (lv_keyInfo v)\<rparr>"

text \<open>\<open>Array.isArray(x) && x.every(c => typeof c === 'string')\<close>, with the strings.\<close>

definition as_strings :: "json \<Rightarrow> jsstring list option" where
  "as_strings j = (case j of
     JArr xs \<Rightarrow> if list_all (\<lambda>x. case x of JStr _ \<Rightarrow> True | _ \<Rightarrow> False) xs
       then Some (map (\<lambda>x. case x of JStr s \<Rightarrow> s | _ \<Rightarrow> []) xs) else None
   | _ \<Rightarrow> None)"

text \<open>\<open>draws k\<close>: the random samples for the proof about the \<open>k\<close>-th ciphertext.\<close>

definition requestDecryptionShares ::
  "'p curve \<Rightarrow> (byte list \<Rightarrow> byte list) \<Rightarrow> (byte list \<Rightarrow> byte list) \<Rightarrow> (jsstring \<Rightarrow> error + batch_record option)
     \<Rightarrow> (nat \<Rightarrow> byte list list) \<Rightarrow> local_validator \<Rightarrow> jsstring \<Rightarrow> json \<Rightarrow> error + decryption_share list" where
  "requestDecryptionShares C H sha getBatch draws v batchId ciphertexts =
     (case lv_keyShare v of None \<Rightarrow> Inl NoKeyShare
      | Some keyShare \<Rightarrow>
          (case as_strings ciphertexts of None \<Rightarrow> Inl NotStrings
           | Some cts \<Rightarrow>
               (case lv_commitments v of None \<Rightarrow> Inl NoLedger
                | Some ledger \<Rightarrow>
                    ebind (if ledger \<noteq> InsecureSkip
                           then ebind (assertBatchSealed sha getBatch batchId cts) (\<lambda>_. Inr ())
                           else Inr ()) (\<lambda>_.
                    emap (\<lambda>(k, ct).
                        ebind (parseCiphertext C ct) (\<lambda>p.
                        ebind (partialDecrypt C H (draws k) keyShare (pc_R p)) (\<lambda>share.
                          Inr (if lv_byzantine v then share\<lparr>ds_share := pt_toHex C (pt_BASE C)\<rparr> else share))))
                      (enumerate 0 cts)))))"

section \<open>Key generation\<close>

definition signAs ::
  "ed25519 \<Rightarrow> local_validator \<Rightarrow> ('a \<Rightarrow> json) \<Rightarrow> jsstring \<Rightarrow> 'a \<Rightarrow> error + 'a signed" where
  "signAs E v to_json domain payload =
     signPayload E to_json domain payload (lv_index v) (id_secretKey (lv_identity v))"

definition valid ::
  "ed25519 \<Rightarrow> local_validator \<Rightarrow> ('a \<Rightarrow> (jsstring \<times> json) list) \<Rightarrow> jsstring \<Rightarrow> 'a in_session signed \<Rightarrow> int \<Rightarrow> bool" where
  "valid E v body domain msg expectedSigner \<longleftrightarrow>
     sg_signer msg = expectedSigner \<and>
     Some (is_session (sg_payload msg)) = map_option dp_sessionId (lv_dkg v) \<and>
     verifySigned E (session_json body) domain msg (map_of (lv_peers v) expectedSigner)"

definition dkgBegin ::
  "'p curve \<Rightarrow> ed25519 \<Rightarrow> byte list list \<Rightarrow> (nat \<Rightarrow> byte list list) \<Rightarrow> local_validator \<Rightarrow> jsstring \<Rightarrow> nat \<Rightarrow> int list
     \<Rightarrow> local_validator \<times> (error + transport_key in_session signed)" where
  "dkgBegin C E tdraws cdraws v session threshold participants =
     (if lv_keyShare v \<noteq> None then (v, Inl AlreadyKeyed)
      else case List.find (\<lambda>p. map_of (lv_peers v) p = None \<or> map_of (lv_peers v) p = Some []) participants of
        Some p \<Rightarrow> (v, Inl (UnknownParticipant p))
      | None \<Rightarrow>
          (case newParticipant C tdraws cdraws (lv_index v) threshold participants session (lv_dkgFaults v) of
             Inl e \<Rightarrow> (v, Inl e)
           | Inr dkg \<Rightarrow>
               (v\<lparr>lv_dkg := Some dkg\<rparr>,
                signAs E v (session_json body_transportKey) DOMAIN_transportKey
                  \<lparr>is_session = session, is_body = \<lparr>tk_index = lv_index v, tk_transportKey = dp_transportPublicKey dkg\<rparr>\<rparr>)))"

text \<open>The transport key of one participant: exactly one valid message must name it.\<close>

definition transport_key_of ::
  "ed25519 \<Rightarrow> local_validator \<Rightarrow> transport_key in_session signed list \<Rightarrow> int \<Rightarrow> error + (int \<times> jsstring)" where
  "transport_key_of E v transportKeys p =
     (let mine = filter (\<lambda>k. tk_index (is_body (sg_payload k)) = p \<and> valid E v body_transportKey DOMAIN_transportKey k p)
           transportKeys
      in if length mine \<noteq> 1 then Inl (NoTransportKey p)
         else Inr (p, tk_transportKey (is_body (sg_payload (hd mine)))))"

definition dkgDeal ::
  "'p curve \<Rightarrow> webcrypto \<Rightarrow> ed25519 \<Rightarrow> (int \<Rightarrow> byte list list) \<Rightarrow> (int \<Rightarrow> byte list) \<Rightarrow> local_validator
     \<Rightarrow> transport_key in_session signed list
     \<Rightarrow> error + (dealer_broadcast in_session signed \<times> encrypted_share in_session signed list)" where
  "dkgDeal C W E edraws enonce v transportKeys =
     (case lv_dkg v of None \<Rightarrow> Inl NoSession
      | Some dkg \<Rightarrow>
          ebind (emap (transport_key_of E v transportKeys) (dp_participants dkg)) (\<lambda>keys.
          ebind (deal C W edraws enonce dkg (js_map keys)) (\<lambda>(broadcast, shares).
          ebind (signAs E v (session_json body_broadcast) DOMAIN_broadcast
              \<lparr>is_session = dp_sessionId dkg, is_body = broadcast\<rparr>) (\<lambda>b.
          ebind (emap (\<lambda>s. signAs E v (session_json body_share) DOMAIN_share
              \<lparr>is_session = dp_sessionId dkg, is_body = s\<rparr>) shares) (\<lambda>ss.
            Inr (b, ss))))))"

definition verifiedBroadcasts ::
  "ed25519 \<Rightarrow> local_validator \<Rightarrow> dealer_broadcast in_session signed list \<Rightarrow> dealer_broadcast list" where
  "verifiedBroadcasts E v broadcasts =
     map (\<lambda>b. is_body (sg_payload b))
       (filter (\<lambda>b. valid E v body_broadcast DOMAIN_broadcast b (db_dealer (is_body (sg_payload b)))) broadcasts)"

definition dkgReceive ::
  "'p curve \<Rightarrow> webcrypto \<Rightarrow> ed25519 \<Rightarrow> local_validator \<Rightarrow> dealer_broadcast in_session signed list
     \<Rightarrow> encrypted_share in_session signed list \<Rightarrow> local_validator \<times> (error + complaint in_session signed list)" where
  "dkgReceive C W E v broadcasts sharesForMe =
     (case lv_dkg v of None \<Rightarrow> (v, Inl NoSession)
      | Some dkg \<Rightarrow>
          (let shares = map (\<lambda>s. is_body (sg_payload s))
                 (filter (\<lambda>s. es_recipient (is_body (sg_payload s)) = lv_index v \<and>
                     valid E v body_share DOMAIN_share s (es_dealer (is_body (sg_payload s)))) sharesForMe);
               (dkg', r) = receive C W (verifiedBroadcasts E v broadcasts) shares dkg
           in (v\<lparr>lv_dkg := Some dkg'\<rparr>,
               ebind r (\<lambda>complaints. emap (\<lambda>c. signAs E v (session_json body_complaint) DOMAIN_complaint
                 \<lparr>is_session = dp_sessionId dkg, is_body = c\<rparr>) complaints))))"

definition genuine_complaints ::
  "ed25519 \<Rightarrow> local_validator \<Rightarrow> complaint in_session signed list \<Rightarrow> complaint list" where
  "genuine_complaints E v complaints =
     map (\<lambda>c. is_body (sg_payload c))
       (filter (\<lambda>c. valid E v body_complaint DOMAIN_complaint c (cp_complainer (is_body (sg_payload c)))) complaints)"

definition dkgRespond ::
  "'p curve \<Rightarrow> ed25519 \<Rightarrow> local_validator \<Rightarrow> complaint in_session signed list
     \<Rightarrow> error + reveal in_session signed list" where
  "dkgRespond C E v complaints =
     (case lv_dkg v of None \<Rightarrow> Inl NoSession
      | Some dkg \<Rightarrow>
          emap (\<lambda>r. signAs E v (session_json body_reveal) DOMAIN_reveal
              \<lparr>is_session = dp_sessionId dkg, is_body = r\<rparr>)
            (respond C dkg (genuine_complaints E v complaints)))"

definition verifyTranscript :: "ed25519 \<Rightarrow> local_validator \<Rightarrow> signed_transcript \<Rightarrow> dkg_transcript" where
  "verifyTranscript E v t = \<lparr>
     tr_broadcasts = verifiedBroadcasts E v (st_broadcasts t),
     tr_complaints = genuine_complaints E v (st_complaints t),
     tr_reveals = map (\<lambda>r. is_body (sg_payload r))
       (filter (\<lambda>r. valid E v body_reveal DOMAIN_reveal r (rv_dealer (is_body (sg_payload r)))) (st_reveals t))\<rparr>"

definition transcript_hash :: "(byte list \<Rightarrow> byte list) \<Rightarrow> dkg_transcript \<Rightarrow> jsstring" where
  "transcript_hash sha t =
     bytesToHex (sha (utf8_encode (case canonicalJson (transcript_json t) of None \<Rightarrow> [] | Some s \<Rightarrow> s)))"

text \<open>
  The last component of the result is the key file written, if any: its contents and path.
\<close>

definition dkgFinalize ::
  "'p curve \<Rightarrow> (byte list \<Rightarrow> byte list) \<Rightarrow> ed25519 \<Rightarrow> local_validator \<Rightarrow> signed_transcript
     \<Rightarrow> local_validator \<times> (error + result_statement signed) \<times> (jsstring \<times> persisted_key) option" where
  "dkgFinalize C sha E v signedTranscript =
     (case lv_dkg v of None \<Rightarrow> (v, Inl NoSession, None)
      | Some dkg \<Rightarrow>
          (let transcript = verifyTranscript E v signedTranscript in
           case finalize C dkg transcript of
             Inl e \<Rightarrow> (v, Inl e, None)
           | Inr (keyShare, result) \<Rightarrow>
               (let keyInfo = \<lparr>ki_index = lv_index v, ki_threshold = pr_threshold result,
                      ki_participants = dp_participants dkg, ki_groupPublicKey = pr_groupPublicKey result,
                      ki_verificationKeys = pr_verificationKeys result\<rparr>
                in (v\<lparr>lv_keyShare := Some keyShare, lv_keyInfo := Some keyInfo, lv_dkg := None\<rparr>,
                    signAs E v statement_json DOMAIN_result
                      \<lparr>rs_session = dp_sessionId dkg, rs_transcriptHash = transcript_hash sha transcript,
                       rs_result = result\<rparr>,
                    if lv_keyFile v = [] then None
                    else Some (lv_keyFile v, \<lparr>pk_info = keyInfo, pk_secret = ks_secret keyShare\<rparr>)))))"

lemma list_all2_in_right: "list_all2 P xs ys \<Longrightarrow> y \<in> set ys \<Longrightarrow> \<exists>x \<in> set xs. P x y"
  by (induction rule: list_all2_induct) auto

section \<open>Releasing shares\<close>

lemma requestDecryptionShares_Inr:
  assumes "requestDecryptionShares C H sha getBatch draws v b j = Inr shares"
  obtains keyShare cts ledger where "lv_keyShare v = Some keyShare" "as_strings j = Some cts"
    "lv_commitments v = Some ledger"
    "ledger \<noteq> InsecureSkip \<Longrightarrow> is_ok (assertBatchSealed sha getBatch b cts)"
    "length shares = length cts"
    "\<And>k. k < length cts \<Longrightarrow> \<exists>p share. parseCiphertext C (cts ! k) = Inr p \<and>
       partialDecrypt C H (draws k) keyShare (pc_R p) = Inr share \<and>
       shares ! k = (if lv_byzantine v then share\<lparr>ds_share := pt_toHex C (pt_BASE C)\<rparr> else share)"
proof -
  from assms obtain keyShare cts ledger where k: "lv_keyShare v = Some keyShare" "as_strings j = Some cts"
    "lv_commitments v = Some ledger"
    and s: "ledger \<noteq> InsecureSkip \<Longrightarrow> is_ok (assertBatchSealed sha getBatch b cts)"
    and e: "emap (\<lambda>(k, ct). ebind (parseCiphertext C ct) (\<lambda>p.
        ebind (partialDecrypt C H (draws k) keyShare (pc_R p)) (\<lambda>share.
          Inr (if lv_byzantine v then share\<lparr>ds_share := pt_toHex C (pt_BASE C)\<rparr> else share))))
      (enumerate 0 cts) = Inr shares"
    by (auto simp: requestDecryptionShares_def ebind_eq_Inr split: option.splits if_splits)
  have n: "length shares = length cts" using length_emap [OF e] by simp
  have "\<exists>p share. parseCiphertext C (cts ! k) = Inr p \<and>
       partialDecrypt C H (draws k) keyShare (pc_R p) = Inr share \<and>
       shares ! k = (if lv_byzantine v then share\<lparr>ds_share := pt_toHex C (pt_BASE C)\<rparr> else share)"
    if "k < length cts" for k
    using emap_nth [OF e, of k] that by (auto simp: nth_enumerate_eq ebind_eq_Inr split: if_splits)
  then show ?thesis using that k s n by blast
qed

text \<open>A ciphertext that parses is ASCII.\<close>

lemma parseCiphertext_ascii:
  assumes "parseCiphertext C ct = Inr p"
  shows "well_formed ct"
proof -
  have pre: "length CIPHER_PREFIX = 5" by (simp add: CIPHER_PREFIX_def js_def)
  have "take 5 ct = js ''ctp1.''" "is_ok (base64UrlDecode (drop 5 ct))"
    using assms unfolding parseCiphertext_def pre
    by (auto simp: CIPHER_PREFIX_def ebind_eq_Inr split: if_splits)
  moreover from this(2) have "list_all is_b64url (drop 5 ct)" by (auto simp: base64UrlDecode_def split: if_splits)
  moreover have "\<forall>u \<in> set (js ''ctp1.''). unat u < 128" by (simp add: js_def)
  moreover have "is_b64url u \<Longrightarrow> unat u < 128" for u
    by (auto simp: is_b64url_def is_digit_def word_le_nat_alt)
  ultimately have "\<forall>u \<in> set (take 5 ct @ drop 5 ct). unat u < 128"
    unfolding set_append list_all_iff by auto
  then show ?thesis using well_formed_ascii [of ct] by simp
qed

section \<open>The key of a validator\<close>

definition validator_inv :: "local_validator \<Rightarrow> bool" where
  "validator_inv v \<longleftrightarrow>
     (lv_keyShare v = None \<longleftrightarrow> lv_keyInfo v = None) \<and>
     (lv_keyShare v \<noteq> None \<longrightarrow> lv_dkg v = None) \<and>
     (\<forall>k. lv_keyShare v = Some k \<longrightarrow> ks_index k = lv_index v) \<and>
     (\<forall>i. lv_keyInfo v = Some i \<longrightarrow> ki_index i = lv_index v) \<and>
     (\<forall>d. lv_dkg v = Some d \<longrightarrow> dp_index d = lv_index v)"

text \<open>One call of a method that changes the object, whatever its arguments and its outcome.\<close>

inductive lv_step :: "'p curve \<Rightarrow> webcrypto \<Rightarrow> (byte list \<Rightarrow> byte list) \<Rightarrow> ed25519 \<Rightarrow> local_validator \<Rightarrow> local_validator \<Rightarrow> bool"
  for C W sha E where
  begin_step: "dkgBegin C E tdraws cdraws v session threshold participants = (v', r) \<Longrightarrow> lv_step C W sha E v v'"
| receive_step: "dkgReceive C W E v broadcasts shares = (v', r) \<Longrightarrow> lv_step C W sha E v v'"
| finalize_step: "dkgFinalize C sha E v t = (v', r, f) \<Longrightarrow> lv_step C W sha E v v'"

inductive_cases lv_stepE: "lv_step C W sha E v v'"

lemma newParticipant_index: "newParticipant C td cd i t ps s f = Inr d \<Longrightarrow>
  dp_index d = i \<and> dp_threshold d = t \<and> dp_participants d = ps \<and> dp_sessionId d = s \<and> dp_faults d = f \<and>
  i \<in> set ps \<and> 1 \<le> t \<and> t \<le> length ps"
  by (auto simp: newParticipant_def ebind_eq_Inr split: if_splits)

lemma receive_from_fields:
  "receive_from C W bs ss p cps ds = (p', r) \<Longrightarrow> dp_index p' = dp_index p \<and> dp_sessionId p' = dp_sessionId p \<and>
     dp_participants p' = dp_participants p \<and> dp_threshold p' = dp_threshold p \<and> dp_coeffs p' = dp_coeffs p \<and>
     dp_transportSecret p' = dp_transportSecret p \<and> dp_faults p' = dp_faults p"
proof (induction ds arbitrary: p cps)
  case (Cons d ds)
  then show ?case
    by (simp only: receive_from_step) (fastforce split: if_splits option.splits)
qed auto

lemma receive_index: "receive C W bs ss p = (p', r) \<Longrightarrow> dp_index p' = dp_index p"
  using receive_from_fields by (simp add: receive_def) blast

lemma dkgBegin_cases:
  "dkgBegin C E td cd v s t ps = (v', r) \<Longrightarrow>
     v' = v \<or> lv_keyShare v = None \<and> (\<exists>d. v' = v\<lparr>lv_dkg := Some d\<rparr> \<and> dp_index d = lv_index v)"
  by (auto simp: dkgBegin_def dest: newParticipant_index split: if_splits option.splits sum.splits)

lemma dkgReceive_cases:
  "dkgReceive C W E v bs ss = (v', r) \<Longrightarrow>
     v' = v \<or> (\<exists>d d'. lv_dkg v = Some d \<and> v' = v\<lparr>lv_dkg := Some d'\<rparr> \<and> dp_index d' = dp_index d)"
  by (auto simp: dkgReceive_def Let_def dest: receive_index split: option.splits prod.splits)

lemma dkgFinalize_cases:
  "dkgFinalize C sha E v t = (v', r, f) \<Longrightarrow>
     v' = v \<or> (\<exists>d k res. lv_dkg v = Some d \<and> finalize C d (verifyTranscript E v t) = Inr (k, res) \<and>
        v' = v\<lparr>lv_keyShare := Some k, lv_keyInfo := Some \<lparr>ki_index = lv_index v, ki_threshold = pr_threshold res,
          ki_participants = dp_participants d, ki_groupPublicKey = pr_groupPublicKey res,
          ki_verificationKeys = pr_verificationKeys res\<rparr>, lv_dkg := None\<rparr>)"
  by (auto simp: dkgFinalize_def Let_def split: option.splits sum.splits)

lemma finalize_index: "finalize C p tr = Inr (k, res) \<Longrightarrow> ks_index k = dp_index p"
  by (auto simp: finalize_def Let_def ebind_eq_Inr split: if_splits)

lemma lv_step_inv: "lv_step C W sha E v v' \<Longrightarrow> validator_inv v \<Longrightarrow> validator_inv v'"
proof (erule lv_stepE)
  assume inv: "validator_inv v"
  {
    fix td cd s t ps r assume "dkgBegin C E td cd v s t ps = (v', r)"
    from dkgBegin_cases [OF this] inv show "validator_inv v'" by (auto simp: validator_inv_def)
  next
    fix bs ss r assume "dkgReceive C W E v bs ss = (v', r)"
    from dkgReceive_cases [OF this] inv show "validator_inv v'" by (auto simp: validator_inv_def)
  next
    fix t r f assume "dkgFinalize C sha E v t = (v', r, f)"
    from dkgFinalize_cases [OF this] inv show "validator_inv v'"
      by (auto simp: validator_inv_def dest: finalize_index)
  }
qed

lemma lv_step_keeps:
  "lv_step C W sha E v v' \<Longrightarrow> validator_inv v \<Longrightarrow> lv_keyShare v = Some k \<Longrightarrow> lv_keyShare v' = Some k \<and> lv_keyInfo v' = lv_keyInfo v"
  by (erule lv_stepE)
    (auto simp: validator_inv_def dest!: dkgBegin_cases dkgReceive_cases dkgFinalize_cases)

lemma lv_steps_keep:
  "(lv_step C W sha E)\<^sup>*\<^sup>* v v' \<Longrightarrow> validator_inv v \<Longrightarrow>
     validator_inv v' \<and> (\<forall>k. lv_keyShare v = Some k \<longrightarrow> lv_keyShare v' = Some k \<and> lv_keyInfo v' = lv_keyInfo v)"
  by (induction rule: rtranclp_induct) (auto dest: lv_step_inv lv_step_keeps)

lemma new_validator_inv: "newLocalValidator i ident peers byz f c kf = Inr v \<Longrightarrow> validator_inv v"
  by (auto simp: newLocalValidator_def validator_inv_def split: if_splits)

lemma fromPersisted_inv: "fromPersisted key ident peers byz c = Inr v \<Longrightarrow> validator_inv v"
  by (auto simp: fromPersisted_def newLocalValidator_def validator_inv_def ebind_eq_Inr split: if_splits)

lemma shares_only_lemma:
  assumes "requestDecryptionShares C H sha getBatch draws v b j = Inr shares" "lv_commitments v = Some (Ledger kind)"
  shows "\<exists>cts r. as_strings j = Some cts \<and> assertBatchSealed sha getBatch b cts = Inr r \<and>
    (\<forall>k < length cts. \<exists>p. parseCiphertext C (cts ! k) = Inr p)"
  using assms(1)
proof (rule requestDecryptionShares_Inr)
  fix keyShare cts ledger
  assume h: "as_strings j = Some cts" "lv_commitments v = Some ledger"
    "ledger \<noteq> InsecureSkip \<Longrightarrow> is_ok (assertBatchSealed sha getBatch b cts)"
    "\<And>k. k < length cts \<Longrightarrow> \<exists>p share. parseCiphertext C (cts ! k) = Inr p \<and>
       partialDecrypt C H (draws k) keyShare (pc_R p) = Inr share \<and>
       shares ! k = (if lv_byzantine v then share\<lparr>ds_share := pt_toHex C (pt_BASE C)\<rparr> else share)"
  then obtain r where "assertBatchSealed sha getBatch b cts = Inr r" using assms(2) by (auto elim: is_okE)
  with h(1,4) show ?thesis by blast
qed

section \<open>A sample validator pair\<close>

definition sample_identity :: "int \<Rightarrow> identity" where
  "sample_identity i = \<lparr>id_secretKey = bytesToHex (replicate 32 (of_int i)), id_publicKey = bytesToHex (replicate 32 (of_int i))\<rparr>"

definition sample_peers :: "(int \<times> jsstring) list" where
  "sample_peers = [(1, id_publicKey (sample_identity 1)), (2, id_publicKey (sample_identity 2))]"

text \<open>A validator in the middle of the sample key generation, or holding its share of it.\<close>

definition sample_validator :: "int \<Rightarrow> key_share option \<Rightarrow> dkg_participant option \<Rightarrow> local_validator" where
  "sample_validator i k d = \<lparr>lv_index = i, lv_identity = sample_identity i, lv_peers = sample_peers, lv_byzantine = False,
     lv_dkgFaults = \<lparr>df_corruptSharesTo = [], df_lieOnReveal = False\<rparr>, lv_commitments = Some (Ledger Soroban),
     lv_keyFile = [], lv_keyShare = k,
     lv_keyInfo = (if k = None then None else Some \<lparr>ki_index = i, ki_threshold = 2, ki_participants = [1, 2],
        ki_groupPublicKey = pr_groupPublicKey sample_result, ki_verificationKeys = pr_verificationKeys sample_result\<rparr>),
     lv_dkg = d\<rparr>"

definition sample_key :: "int \<Rightarrow> key_share" where
  "sample_key i = \<lparr>ks_index = i, ks_secret = scalarToHex (7 + 3 * i), ks_verificationKey = bytesToHex (zp_toBytes (zp_of (7 + 3 * i)))\<rparr>"

lemma sample_validator_simps [simp]:
  "lv_index (sample_validator i k d) = i" "lv_peers (sample_validator i k d) = sample_peers"
  "lv_identity (sample_validator i k d) = sample_identity i" "lv_commitments (sample_validator i k d) = Some (Ledger Soroban)"
  "lv_keyShare (sample_validator i k d) = k" "lv_dkg (sample_validator i k d) = d"
  "lv_byzantine (sample_validator i k d) = False"
  by (simp_all add: sample_validator_def)

lemma sample_signAs: "signAs sample_ed25519 (sample_validator i k d) to_json domain m = Inr
  \<lparr>sg_payload = m, sg_signer = i, sg_signature = bytesToHex (replicate 32 (of_int i) @ message domain i (to_json m))\<rparr>"
  by (simp add: signAs_def signPayload_def sample_identity_def hex.dec_enc sample_ed25519_def)

lemma length_sextets: "length (sextets bs) \<le> 2 * length bs"
  by (induction bs rule: sextets.induct) simp_all

text \<open>A sealed order on the chain of the sample vault.\<close>

lemma sample_sealed_order:
  "\<exists>ct pc R w. parseCiphertext sample_curve ct = Inr pc \<and> pc_R pc = zp_toBytes R \<and> R \<noteq> zp_of 0 \<and>
     is_ok (assertBatchSealed (\<lambda>_. replicate 32 1) (vault_getBatch w) sample_batch_id [ct])"
proof -
  obtain ct pc R where ct: "encryptOrder sample_curve sample_crypto [sample_draw 4] (replicate 12 9) (js ''buy'')
        (pt_toHex sample_curve (smul sample_curve 5 (pt_BASE sample_curve))) (js ''GA'') = Inr ct"
    and pc: "parseCiphertext sample_curve ct = Inr pc"
    using sample_order by blast
  obtain R where R: "pc_R pc = zp_toBytes R" "R \<noteq> zp_of 0"
    using parseCiphertext_Inr [OF sample_curve_laws pc] by (metis sample_curve_simps(2,5))
  obtain P k where w: "ct = wire (pt_toBytes sample_curve P) (replicate 12 9) (aes_gcm_encrypt sample_crypto k (replicate 12 9)
      (aad (pt_toBytes sample_curve P) (js ''GA'')) (utf8_encode (js ''buy'')))"
    using encryptOrder_Inr [OF sample_curve_laws ct] by metis
  have "length (pt_toBytes sample_curve P) = 32" by (rule length_toBytes [OF sample_curve_laws])
  then have "length ct \<le> 5 + 2 * (32 + (12 + (3 + 16)))"
    using length_sextets [of "map unat (pt_toBytes sample_curve P @ replicate 12 9 @ aes_gcm_encrypt sample_crypto k (replicate 12 9)
      (aad (pt_toBytes sample_curve P) (js ''GA'')) (utf8_encode (js ''buy'')))"]
      length_gcm_encrypt [OF sample_crypto_laws]
    by (simp add: w wire_def CIPHER_PREFIX_def base64UrlEncode_sextets js_def length_utf8_ascii)
  moreover have "length (utf8_encode ct) = length ct"
  proof (rule length_utf8_ascii)
    have "is_b64url u \<Longrightarrow> unat u < 128" for u by (auto simp: is_b64url_def is_digit_def word_le_nat_alt)
    then show "\<forall>u \<in> set ct. unat u < 128"
      using base64UrlEncode_units by (auto simp: w wire_def CIPHER_PREFIX_def js_def list_all_iff)
  qed
  ultimately have "length (utf8_encode ct) < 2 ^ 32" by simp
  then obtain l where "u32 (length (utf8_encode ct)) = Inr l" by (auto simp: u32_def)
  then have "is_ok (commitment_input [ct])"
    by (simp add: commitment_input_def u32_def)
  then obtain x where x: "commitment_input [ct] = Inr x" by (rule is_okE)
  let ?a = "\<lparr>at_order_count = 1, at_content_hash = replicate 32 1, at_timestamp = 0\<rparr> :: attestation"
  have id: "batchIdBytes sample_batch_id = Inr (hex_pairs sample_batch_id)"
    by (simp add: batchIdBytes_def sample_batch_id_def is_hex_48 Let_def list_all_iff)
  have "assertBatchSealed (\<lambda>_. replicate 32 1) (vault_getBatch (sample_vault\<lparr>v_batches := [(hex_pairs sample_batch_id, ?a)]\<rparr>))
      sample_batch_id [ct] = Inr \<lparr>br_orderCount = 1, br_contentHash = bytesToHex (replicate 32 1), br_timestamp = 0\<rparr>"
    by (simp add: assertBatchSealed_Inr vault_getBatch_def soroban_getBatch_def id get_batch_def batchCommitment_def x)
  then have "is_ok (assertBatchSealed (\<lambda>_. replicate 32 1) (vault_getBatch (sample_vault\<lparr>v_batches := [(hex_pairs sample_batch_id, ?a)]\<rparr>))
      sample_batch_id [ct])" by simp
  then show ?thesis using pc R by blast
qed

lemma sample_request:
  assumes "i = 1 \<or> i = 2" and ct: "parseCiphertext sample_curve ct = Inr pc" "pc_R pc = zp_toBytes R" "R \<noteq> zp_of 0"
    and sealed: "is_ok (assertBatchSealed sha getBatch b [ct])"
  shows "\<exists>shares. requestDecryptionShares sample_curve H sha getBatch (\<lambda>_. [sample_draw 3])
     (sample_validator i (Some (sample_key i)) None) b (JArr [JStr ct]) = Inr shares"
proof -
  have dr: "randomScalar (grp_order sample_curve) [sample_draw 3] = Inr 3"
    using sample_randomScalar [of 3 "[]"] by simp
  have y: "hexToScalar (grp_order sample_curve) (ks_secret (sample_key i)) = Inr (7 + 3 * i)"
    using assms(1) sample_hexToScalar [of "7 + 3 * i"] by (auto simp: sample_key_def)
  obtain ds where "partialDecrypt sample_curve H [sample_draw 3] (sample_key i) (pc_R pc) = Inr ds"
    using partialDecrypt_ok [OF sample_curve_laws y _ _ dr, of "pc_R pc" R] ct by auto
  then show ?thesis
    using sealed ct(1) by (auto simp: requestDecryptionShares_def as_strings_def elim!: is_okE)
qed

section \<open>Properties\<close>

text \<open>C3: Shares are released for sealed batches only.  When a validator with a ledger answers a request
  for decryption shares, the ciphertexts it was sent are exactly a list the ledger accepts for
  the batch, it holds a key share, and it returns one share per ciphertext, in order, computed by
  \<open>partialDecrypt\<close> with its own key on that ciphertext's \<open>R\<close> (a byzantine one with the point
  replaced).\<close>

theorem shares_only_for_sealed_batch:
  assumes "requestDecryptionShares C H sha getBatch draws v b j = Inr shares"
    and "lv_commitments v = Some (Ledger kind)"
  shows "\<exists>keyShare cts r. lv_keyShare v = Some keyShare \<and> as_strings j = Some cts \<and>
    assertBatchSealed sha getBatch b cts = Inr r \<and> length shares = length cts \<and>
    (\<forall>k < length cts. \<exists>p share. parseCiphertext C (cts ! k) = Inr p \<and>
       partialDecrypt C H (draws k) keyShare (pc_R p) = Inr share \<and>
       shares ! k = (if lv_byzantine v then share\<lparr>ds_share := pt_toHex C (pt_BASE C)\<rparr> else share))"
proof -
  obtain keyShare cts ledger where k: "lv_keyShare v = Some keyShare" "as_strings j = Some cts"
    "lv_commitments v = Some ledger"
    "ledger \<noteq> InsecureSkip \<Longrightarrow> is_ok (assertBatchSealed sha getBatch b cts)" "length shares = length cts"
    "\<And>k. k < length cts \<Longrightarrow> \<exists>p share. parseCiphertext C (cts ! k) = Inr p \<and>
       partialDecrypt C H (draws k) keyShare (pc_R p) = Inr share \<and>
       shares ! k = (if lv_byzantine v then share\<lparr>ds_share := pt_toHex C (pt_BASE C)\<rparr> else share)"
    using assms(1) by (rule requestDecryptionShares_Inr) blast
  moreover obtain r where "assertBatchSealed sha getBatch b cts = Inr r"
    using k(3,4) assms(2) by (auto elim: is_okE)
  ultimately show ?thesis by blast
qed

theorem shares_only_for_sealed_batch_witness:
  "\<exists>ct w shares. requestDecryptionShares sample_curve sample_sha512 (\<lambda>_. replicate 32 1) (vault_getBatch w)
       (\<lambda>_. [sample_draw 3]) (sample_validator 1 (Some (sample_key 1)) None) sample_batch_id (JArr [JStr ct]) = Inr shares \<and>
     length shares = 1 \<and> is_ok (assertBatchSealed (\<lambda>_. replicate 32 1) (vault_getBatch w) sample_batch_id [ct])"
proof -
  obtain ct pc R w where ct: "parseCiphertext sample_curve ct = Inr pc" "pc_R pc = zp_toBytes R" "R \<noteq> zp_of 0"
    and sealed: "is_ok (assertBatchSealed (\<lambda>_. replicate 32 1) (vault_getBatch w) sample_batch_id [ct])"
    using sample_sealed_order by blast
  obtain shares where s: "requestDecryptionShares sample_curve sample_sha512 (\<lambda>_. replicate 32 1) (vault_getBatch w)
       (\<lambda>_. [sample_draw 3]) (sample_validator 1 (Some (sample_key 1)) None) sample_batch_id (JArr [JStr ct]) = Inr shares"
    using sample_request [OF _ ct sealed] by blast
  have "length shares = 1"
    using shares_only_for_sealed_batch [OF s, of Soroban] by (auto simp: as_strings_def)
  with s sealed show ?thesis by blast
qed

text \<open>Two releases under one batch id are for the same ciphertexts.  Two validators, at any two
  times, reading the same order vault through any calls of the contract in between, release shares
  under one batch id only for the same ordered list of ciphertexts, short of a collision of the
  hash function on two explicit, different inputs.\<close>

theorem releases_agree:
  assumes "vault_step\<^sup>*\<^sup>* w w'"
    and "requestDecryptionShares C H sha (vault_getBatch w) draws v b j = Inr shares"
    and "requestDecryptionShares C H' sha (vault_getBatch w') draws' v' b j' = Inr shares'"
    and "lv_commitments v = Some (Ledger kind)" "lv_commitments v' = Some (Ledger kind')"
  shows "\<exists>cts cts'. as_strings j = Some cts \<and> as_strings j' = Some cts' \<and>
    (cts = cts' \<or> (\<exists>x y. commitment_input cts = Inr x \<and> commitment_input cts' = Inr y \<and> x \<noteq> y \<and> sha x = sha y))"
proof -
  obtain cts r where c: "as_strings j = Some cts" "assertBatchSealed sha (vault_getBatch w) b cts = Inr r"
    "\<forall>k < length cts. \<exists>p. parseCiphertext C (cts ! k) = Inr p"
    using shares_only_lemma [OF assms(2,4)] by blast
  obtain cts' r' where c': "as_strings j' = Some cts'" "assertBatchSealed sha (vault_getBatch w') b cts' = Inr r'"
    "\<forall>k < length cts'. \<exists>p. parseCiphertext C (cts' ! k) = Inr p"
    using shares_only_lemma [OF assms(3,5)] by blast
  have "\<forall>c \<in> set cts \<union> set cts'. well_formed c"
    using c(3) c'(3) by (metis UnE in_set_conv_nth parseCiphertext_ascii)
  from onchain.sealed_list_unique [OF assms(1) c(2) c'(2) this] c(1) c'(1) show ?thesis by blast
qed

theorem releases_agree_witness:
  "\<exists>ct w shares shares'. requestDecryptionShares sample_curve sample_sha512 (\<lambda>_. replicate 32 1) (vault_getBatch w)
       (\<lambda>_. [sample_draw 3]) (sample_validator 1 (Some (sample_key 1)) None) sample_batch_id (JArr [JStr ct]) = Inr shares \<and>
     requestDecryptionShares sample_curve sample_sha512 (\<lambda>_. replicate 32 1) (vault_getBatch w)
       (\<lambda>_. [sample_draw 3]) (sample_validator 2 (Some (sample_key 2)) None) sample_batch_id (JArr [JStr ct]) = Inr shares' \<and>
     (\<exists>cts. as_strings (JArr [JStr ct]) = Some cts)"
proof -
  obtain ct pc R w where ct: "parseCiphertext sample_curve ct = Inr pc" "pc_R pc = zp_toBytes R" "R \<noteq> zp_of 0"
    and sealed: "is_ok (assertBatchSealed (\<lambda>_. replicate 32 1) (vault_getBatch w) sample_batch_id [ct])"
    using sample_sealed_order by blast
  obtain s1 where s1: "requestDecryptionShares sample_curve sample_sha512 (\<lambda>_. replicate 32 1) (vault_getBatch w)
       (\<lambda>_. [sample_draw 3]) (sample_validator 1 (Some (sample_key 1)) None) sample_batch_id (JArr [JStr ct]) = Inr s1"
    using sample_request [OF _ ct sealed] by blast
  obtain s2 where s2: "requestDecryptionShares sample_curve sample_sha512 (\<lambda>_. replicate 32 1) (vault_getBatch w)
       (\<lambda>_. [sample_draw 3]) (sample_validator 2 (Some (sample_key 2)) None) sample_batch_id (JArr [JStr ct]) = Inr s2"
    using sample_request [OF _ ct sealed] by blast
  show ?thesis
    using releases_agree [OF rtranclp.rtrancl_refl s1 s2, of Soroban Soroban] s1 s2 by auto
qed

text \<open>C27: A validator is keyed once.  From any state that satisfies the object's invariant (a key share
  is held together with its public information and under the validator's own index, and never
  together with a running key generation), no sequence of calls with any arguments removes or
  replaces the key share or its information; \<open>dkgBegin\<close> is refused.\<close>

theorem key_share_is_permanent:
  assumes "(lv_step C W sha E)\<^sup>*\<^sup>* v v'" and "validator_inv v" and "lv_keyShare v = Some k"
  shows "validator_inv v' \<and> lv_keyShare v' = Some k \<and> lv_keyInfo v' = lv_keyInfo v \<and>
    dkgBegin C E td cd v' s t ps = (v', Inl AlreadyKeyed)"
  using lv_steps_keep [OF assms(1,2)] assms(3) by (simp add: dkgBegin_def)

theorem key_share_is_permanent_witness:
  "\<exists>v. fromPersisted \<lparr>pk_info = \<lparr>ki_index = 1, ki_threshold = 2, ki_participants = [1, 2], ki_groupPublicKey = [],
        ki_verificationKeys = pr_verificationKeys sample_result\<rparr>, pk_secret = scalarToHex 10\<rparr>
        (sample_identity 1) sample_peers False None = Inr v \<and>
     dkgBegin sample_curve sample_ed25519 [] (\<lambda>_. []) v (js ''s2'') 1 [1] = (v, Inl AlreadyKeyed)"
proof -
  obtain v where v: "fromPersisted \<lparr>pk_info = \<lparr>ki_index = 1, ki_threshold = 2, ki_participants = [1, 2], ki_groupPublicKey = [],
        ki_verificationKeys = pr_verificationKeys sample_result\<rparr>, pk_secret = scalarToHex 10\<rparr>
        (sample_identity 1) sample_peers False None = Inr v"
    by (simp add: fromPersisted_def newLocalValidator_def sample_peers_def)
  then obtain k where "lv_keyShare v = Some k"
    by (auto simp: fromPersisted_def newLocalValidator_def ebind_eq_Inr split: if_splits)
  from key_share_is_permanent [OF rtranclp.rtrancl_refl fromPersisted_inv [OF v] this] v show ?thesis by blast
qed

text \<open>Complaints are answered only when genuine.  Every share a validator reveals in \<open>dkgRespond\<close>
  answers a complaint of the list that names this validator as the dealer and that carries a
  valid signature, in this session, by the complaining participant's own identity key; so a
  router cannot harvest shares with forged complaints.\<close>

theorem reveals_answer_genuine_complaints:
  assumes "dkgRespond C E v complaints = Inr reveals" and "r \<in> set reveals"
    and "lv_dkg v = Some dkg" and "dp_index dkg = lv_index v"
  shows "\<exists>c \<in> set complaints. cp_dealer (is_body (sg_payload c)) = lv_index v \<and>
    rv_recipient (is_body (sg_payload r)) = cp_complainer (is_body (sg_payload c)) \<and>
    sg_signer c = cp_complainer (is_body (sg_payload c)) \<and>
    is_session (sg_payload c) = dp_sessionId dkg \<and>
    verifySigned E (session_json body_complaint) DOMAIN_complaint c
      (map_of (lv_peers v) (cp_complainer (is_body (sg_payload c))))"
proof -
  have l: "list_all2 (\<lambda>x y. signAs E v (session_json body_reveal) DOMAIN_reveal
       \<lparr>is_session = dp_sessionId dkg, is_body = x\<rparr> = Inr y) (respond C dkg (genuine_complaints E v complaints)) reveals"
    using assms(1,3) by (simp add: dkgRespond_def emap_eq_Inr)
  have "\<exists>x \<in> set (respond C dkg (genuine_complaints E v complaints)).
      signAs E v (session_json body_reveal) DOMAIN_reveal \<lparr>is_session = dp_sessionId dkg, is_body = x\<rparr> = Inr r"
    using list_all2_in_right [OF l assms(2)] .
  then obtain x where x: "x \<in> set (respond C dkg (genuine_complaints E v complaints))"
    "is_body (sg_payload r) = x"
    by (auto simp: signAs_def signPayload_def ebind_eq_Inr)
  then obtain c where c: "c \<in> set complaints" "valid E v body_complaint DOMAIN_complaint c (cp_complainer (is_body (sg_payload c)))"
    "cp_dealer (is_body (sg_payload c)) = dp_index dkg" "rv_recipient x = cp_complainer (is_body (sg_payload c))"
    by (auto simp: respond_def genuine_complaints_def Let_def)
  then show ?thesis using x(2) assms(3,4) by (intro bexI [of _ c]) (auto simp: valid_def)
qed

text \<open>Participant 2 complains about dealer 1 with its signature; dealer 1 reveals the share.\<close>

theorem reveals_answer_genuine_complaints_witness:
  "\<exists>sg reveals r. signAs sample_ed25519 (sample_validator 2 None None) (session_json body_complaint) DOMAIN_complaint
       \<lparr>is_session = js ''s'', is_body = \<lparr>cp_complainer = 2, cp_dealer = 1\<rparr>\<rparr> = Inr sg \<and>
     dkgRespond sample_curve sample_ed25519 (sample_validator 1 None (Some (sample_participant 1 []))) [sg] = Inr reveals \<and>
     r \<in> set reveals \<and> rv_recipient (is_body (sg_payload r)) = 2"
proof -
  let ?m = "\<lparr>is_session = js ''s'', is_body = \<lparr>cp_complainer = 2, cp_dealer = 1\<rparr>\<rparr>"
  let ?v = "sample_validator 1 None (Some (sample_participant 1 []))"
  obtain sg where sg: "signAs sample_ed25519 (sample_validator 2 None None) (session_json body_complaint) DOMAIN_complaint ?m = Inr sg"
    by (simp add: sample_signAs)
  have "publicKeyOf sample_ed25519 (id_secretKey (sample_identity 2)) = Inr (id_publicKey (sample_identity 2))"
    by (simp add: publicKeyOf_def sample_identity_def hex.dec_enc sample_ed25519_def)
  from sg this have v: "verifySigned sample_ed25519 (session_json body_complaint) DOMAIN_complaint sg (Some (id_publicKey (sample_identity 2)))"
    and p: "sg_payload sg = ?m" "sg_signer sg = 2"
    using sign_verify_lemma [OF sample_ed25519_laws, of "session_json body_complaint" DOMAIN_complaint ?m 2 "id_secretKey (sample_identity 2)" sg]
    by (auto simp: signAs_def)
  have "valid sample_ed25519 ?v body_complaint DOMAIN_complaint sg 2"
    using v p by (simp add: valid_def sample_participant_def sample_peers_def)
  then have g: "genuine_complaints sample_ed25519 ?v [sg] = [\<lparr>cp_complainer = 2, cp_dealer = 1\<rparr>]"
    by (simp add: genuine_complaints_def p)
  obtain reveals r where r: "dkgRespond sample_curve sample_ed25519 ?v [sg] = Inr reveals" "r \<in> set reveals"
    by (simp add: dkgRespond_def g respond_def sample_signAs)
  have "rv_recipient (is_body (sg_payload r)) = 2"
    using reveals_answer_genuine_complaints [OF r, of "sample_participant 1 []"] p by auto
  with sg r show ?thesis by blast
qed

text \<open>The verified transcript consists of the authentic messages of this session: exactly the
  broadcasts and reveals signed by the dealer they name and the complaints signed by their
  complainer, under the identity keys on this validator's own peer list.\<close>

theorem transcript_is_authentic:
  "set (tr_broadcasts (verifyTranscript E v t)) = {is_body (sg_payload m) | m. m \<in> set (st_broadcasts t) \<and>
      valid E v body_broadcast DOMAIN_broadcast m (db_dealer (is_body (sg_payload m)))} \<and>
   set (tr_complaints (verifyTranscript E v t)) = {is_body (sg_payload m) | m. m \<in> set (st_complaints t) \<and>
      valid E v body_complaint DOMAIN_complaint m (cp_complainer (is_body (sg_payload m)))} \<and>
   set (tr_reveals (verifyTranscript E v t)) = {is_body (sg_payload m) | m. m \<in> set (st_reveals t) \<and>
      valid E v body_reveal DOMAIN_reveal m (rv_dealer (is_body (sg_payload m)))}"
  by (auto simp: verifyTranscript_def verifiedBroadcasts_def genuine_complaints_def)

end
