(* ===== verification/JsonText.thy ===== *)
theory JsonText
  imports Signing "HOL-Library.Log_Nat"
begin

text \<open>
  The language's \<open>JSON.parse\<close> as the code uses it (\<open>parseDecryptedOrder\<close>, \<open>verifySession\<close>): the
  whole grammar over UTF-16 code units, with numbers rounded to doubles.  A number is its exact
  rational value; the sign of a zero is not kept, nothing the code compares depends on it.
  Fuel bounds the recursion; \<open>2 n + 1\<close> for a text of length \<open>n\<close> is enough
  (\<open>parse_value_fuel\<close>), and what \<open>JSON.stringify\<close> prints is read back (\<open>parses_object\<close>).
\<close>

section \<open>Numbers\<close>

datatype js_number = Fin rat | Infinite bool

definition floor_log2 :: "rat \<Rightarrow> int" where
  "floor_log2 q = (let (n, d) = quotient_of q; b = bitlen n - bitlen d
     in if power_int 2 b \<le> q then b else b - 1)"

definition round_even :: "rat \<Rightarrow> int" where
  "round_even x = (let f = \<lfloor>x\<rfloor>; r = x - of_int f
     in if r < 1 / 2 then f else if 1 / 2 < r then f + 1 else if even f then f else f + 1)"

text \<open>Rounding to binary64: 53 significant bits, no exponent below \<open>-1074\<close>, ties to even.\<close>

definition round_double :: "rat \<Rightarrow> js_number" where
  "round_double q =
     (if q = 0 then Fin 0
      else (let u = power_int 2 (max (floor_log2 \<bar>q\<bar> - 52) (- 1074)); r = of_int (round_even (q / u)) * u
            in if 2 ^ 1024 \<le> \<bar>r\<bar> then Infinite (r < 0) else Fin r))"

definition dec_value :: "jsstring \<Rightarrow> int" where
  "dec_value s = foldl (\<lambda>a c. 10 * a + int (unat c - 48)) 0 s"

text \<open>\<open>(\<pm>) digits (. digits) (e \<pm> digits)\<close>: each part returns what it read and the rest.\<close>

definition parse_fraction :: "jsstring \<Rightarrow> (jsstring \<times> jsstring) option" where
  "parse_fraction s = (case s of
     [] \<Rightarrow> Some ([], s)
   | u # r \<Rightarrow>
       if u = 46 then (if takeWhile is_digit r = [] then None else Some (takeWhile is_digit r, dropWhile is_digit r))
       else Some ([], s))"

definition parse_exponent :: "jsstring \<Rightarrow> (int \<times> jsstring) option" where
  "parse_exponent s = (case s of
     [] \<Rightarrow> Some (0, s)
   | u # r \<Rightarrow>
       if u = 101 \<or> u = 69 then
         (let (sign, ds) = (case r of [] \<Rightarrow> (1, r) | c # r' \<Rightarrow>
              if c = 45 then (- 1, r') else if c = 43 then (1, r') else (1, r))
          in if takeWhile is_digit ds = [] then None
             else Some (sign * dec_value (takeWhile is_digit ds), dropWhile is_digit ds))
       else Some (0, s))"

definition parse_number :: "jsstring \<Rightarrow> (js_number \<times> jsstring) option" where
  "parse_number s =
     (let neg = (s \<noteq> [] \<and> hd s = 45); t = (if neg then tl s else s); ds = takeWhile is_digit t in
      if ds = [] \<or> hd ds = 48 \<and> 1 < length ds then None
      else (case parse_fraction (dropWhile is_digit t) of None \<Rightarrow> None
       | Some (fd, r) \<Rightarrow>
          (case parse_exponent r of None \<Rightarrow> None
           | Some (e, r') \<Rightarrow>
              Some (round_double ((if neg then - 1 else 1) * of_int (dec_value (ds @ fd))
                * power_int 10 (e - int (length fd))), r'))))"

section \<open>Values\<close>

datatype js_value =
    VNull
  | VBool bool
  | VNum js_number
  | VStr jsstring
  | VArr "js_value list"
  | VObj "(jsstring \<times> js_value) list"

definition is_json_space :: "16 word \<Rightarrow> bool" where
  "is_json_space c \<longleftrightarrow> c = 32 \<or> c = 9 \<or> c = 10 \<or> c = 13"

text \<open>The text after the character \<open>c\<close>, if that comes next.\<close>

definition next_is :: "16 word \<Rightarrow> jsstring \<Rightarrow> jsstring option" where
  "next_is c s = (case dropWhile is_json_space s of [] \<Rightarrow> None | u # r \<Rightarrow> if u = c then Some r else None)"

fun parse_chars :: "jsstring \<Rightarrow> (jsstring \<times> jsstring) option" where
  "parse_chars [] = None"
| "parse_chars (u # r) =
     (if u = 34 then Some ([], r)
      else if unat u < 32 then None
      else if u = 92 then
        (case r of [] \<Rightarrow> None
         | c # r' \<Rightarrow>
            if c = 117 then
              (if length (take 4 r') = 4 \<and> list_all is_hex (take 4 r')
               then map_option (apfst (Cons (of_nat (hex_value (take 4 r'))))) (parse_chars (drop 4 r')) else None)
            else if c \<in> {34, 92, 47, 98, 102, 110, 114, 116}
              then map_option (apfst (Cons (unescape c))) (parse_chars r')
            else None)
      else map_option (apfst (Cons u)) (parse_chars r))"

declare parse_chars.simps(2) [simp del]

definition parse_word :: "jsstring \<Rightarrow> 'a \<Rightarrow> jsstring \<Rightarrow> ('a \<times> jsstring) option" where
  "parse_word w v s = (if take (length w) s = w then Some (v, drop (length w) s) else None)"

fun parse_value :: "nat \<Rightarrow> jsstring \<Rightarrow> (js_value \<times> jsstring) option"
and parse_elems :: "nat \<Rightarrow> jsstring \<Rightarrow> (js_value list \<times> jsstring) option"
and parse_members :: "nat \<Rightarrow> jsstring \<Rightarrow> ((jsstring \<times> js_value) list \<times> jsstring) option" where
  "parse_value 0 s = None"
| "parse_value (Suc n) s =
     (case dropWhile is_json_space s of [] \<Rightarrow> None
      | u # r \<Rightarrow>
         if u = 34 then map_option (apfst VStr) (parse_chars r)
         else if u = 91 then
           (case next_is 93 r of Some r' \<Rightarrow> Some (VArr [], r') | None \<Rightarrow> map_option (apfst VArr) (parse_elems n r))
         else if u = 123 then
           (case next_is 125 r of Some r' \<Rightarrow> Some (VObj [], r') | None \<Rightarrow> map_option (apfst VObj) (parse_members n r))
         else if u = 116 then parse_word (js ''true'') (VBool True) (u # r)
         else if u = 102 then parse_word (js ''false'') (VBool False) (u # r)
         else if u = 110 then parse_word (js ''null'') VNull (u # r)
         else map_option (apfst VNum) (parse_number (u # r)))"
| "parse_elems 0 s = None"
| "parse_elems (Suc n) s =
     (case parse_value n s of None \<Rightarrow> None
      | Some (v, r) \<Rightarrow>
         (case next_is 44 r of Some r' \<Rightarrow> map_option (apfst (Cons v)) (parse_elems n r')
          | None \<Rightarrow> map_option (\<lambda>r'. ([v], r')) (next_is 93 r)))"
| "parse_members 0 s = None"
| "parse_members (Suc n) s =
     (case Option.bind (next_is 34 s) parse_chars of None \<Rightarrow> None
      | Some (k, r) \<Rightarrow>
         (case Option.bind (next_is 58 r) (parse_value n) of None \<Rightarrow> None
          | Some (v, r') \<Rightarrow>
             (case next_is 44 r' of Some r'' \<Rightarrow> map_option (apfst (Cons (k, v))) (parse_members n r'')
              | None \<Rightarrow> map_option (\<lambda>r''. ([(k, v)], r'')) (next_is 125 r'))))"

definition JSON_parse :: "jsstring \<Rightarrow> error + js_value" where
  "JSON_parse s = (case parse_value (2 * length s + 1) s of None \<Rightarrow> Inl SyntaxError
     | Some (v, r) \<Rightarrow> if dropWhile is_json_space r = [] then Inr v else Inl SyntaxError)"

text \<open>\<open>o[k]\<close> of a parsed value, for a \<open>k\<close> that no prototype defines; \<open>None\<close> is \<open>undefined\<close>.  Of
  two properties with one name the last is kept.\<close>

definition get_prop :: "js_value \<Rightarrow> jsstring \<Rightarrow> error + js_value option" where
  "get_prop v k = (case v of VNull \<Rightarrow> Inl TypeError | VObj kvs \<Rightarrow> Inr (map_of (rev kvs) k) | _ \<Rightarrow> Inr None)"

text \<open>\<open>JSON.stringify\<close> of an object whose properties are defined and no objects themselves.\<close>

definition JSON_stringify :: "(jsstring \<times> json) list \<Rightarrow> jsstring" where
  "JSON_stringify kvs = [123] @ join [44] (map (\<lambda>(k, v). json_quote k @ [58] @ json_text v) kvs) @ [125]"


section \<open>Integers are exact\<close>

lemma floor_log2_int:
  assumes "0 < n"
  shows "floor_log2 (of_int n) = bitlen n - 1"
proof -
  have b: "bitlen (1 :: int) = 1" by (simp add: bitlen_def floorlog_def)
  have "1 \<le> bitlen n" using assms by (simp add: bitlen_def floorlog_def)
  moreover have "power_int (2 :: rat) (bitlen n - 1) = of_int (2 ^ nat (bitlen n - 1))"
    using calculation by (simp add: power_int_def)
  moreover have "2 ^ nat (bitlen n - 1) \<le> n" using bitlen_bounds [OF assms] by simp
  ultimately have "power_int (2 :: rat) (bitlen n - 1) \<le> of_int n"
    by (simp only: of_int_le_iff)
  then show ?thesis by (simp add: floor_log2_def b)
qed

lemma round_even_int: "round_even (of_int k) = k"
  by (simp add: round_even_def)

lemma round_double_int:
  assumes "\<bar>i\<bar> < 2 ^ 53"
  shows "round_double (of_int i) = Fin (of_int i)"
proof (cases "i = 0")
  case False
  have l: "floor_log2 \<bar>of_int i :: rat\<bar> = bitlen \<bar>i\<bar> - 1"
    using floor_log2_int [of "\<bar>i\<bar>"] False by simp
  have "bitlen \<bar>i\<bar> \<le> 53"
    using assms bitlen_le_iff_power [of "\<bar>i\<bar>" 53] by simp
  moreover have "0 \<le> bitlen \<bar>i\<bar>" by (simp add: bitlen_nonneg)
  ultimately obtain m :: nat where m: "max (bitlen \<bar>i\<bar> - 1 - 52) (- 1074) = - int m"
    using that [of "nat (53 - bitlen \<bar>i\<bar>)"] by auto
  have u: "power_int (2 :: rat) (- int m) = 1 / 2 ^ m" by (simp add: power_int_minus divide_inverse)
  have "of_int i / (1 / 2 ^ m) = (of_int (i * 2 ^ m) :: rat)" by simp
  then have r: "of_int (round_even (of_int i / (1 / 2 ^ m))) * (1 / 2 ^ m) = (of_int i :: rat)"
    by (simp only: round_even_int) simp
  have "\<bar>i\<bar> < 2 ^ 1024" by (rule less_le_trans [OF assms]) simp
  then have "\<not> of_int (2 ^ 1024) \<le> (of_int \<bar>i\<bar> :: rat)" by (simp only: of_int_le_iff)
  then have "(2 ^ 1024 \<le> \<bar>of_int i :: rat\<bar>) = False"
    by (simp only: of_int_abs of_int_power of_int_numeral)
  with False show ?thesis
    by (simp only: round_double_def l m u Let_def r of_int_eq_0_iff if_False)
qed (simp add: round_double_def)

section \<open>The fuel is enough\<close>

lemma next_is_length: "next_is c s = Some r \<Longrightarrow> length r < length s"
  using length_dropWhile_le [of is_json_space s]
  by (auto simp: next_is_def split: list.splits if_splits)

lemma parse_chars_length: "parse_chars s = Some (k, r) \<Longrightarrow> length r < length s"
proof (induction s arbitrary: k r rule: parse_chars.induct)
  case (2 u s)
  then show ?case
    by (simp add: parse_chars.simps(2) split: if_splits list.splits)
      (fastforce+)?
qed simp

lemma parse_number_length: "parse_number s = Some (v, r) \<Longrightarrow> length r < length s"
proof -
  have d: "takeWhile is_digit t \<noteq> [] \<Longrightarrow> length (dropWhile is_digit t) < length t" for t
    by (metis append_Nil length_append length_greater_0_conv less_add_same_cancel2 takeWhile_dropWhile_id)
  have w: "length (dropWhile is_digit t) \<le> length t" for t by (rule length_dropWhile_le)
  have f: "parse_fraction t = Some (x, y) \<Longrightarrow> length y \<le> length t" for t x y
    using w by (auto simp: parse_fraction_def le_Suc_eq split: list.splits if_splits)
  have e: "parse_exponent t = Some (x, y) \<Longrightarrow> length y \<le> length t" for t x y
    using w by (auto simp: parse_exponent_def le_Suc_eq Let_def split: list.splits if_splits)
  assume "parse_number s = Some (v, r)"
  then obtain t x y z where t: "length t \<le> length s" "takeWhile is_digit t \<noteq> []"
    "parse_fraction (dropWhile is_digit t) = Some (x, y)" "parse_exponent y = Some (z, r)"
    by (auto simp: parse_number_def Let_def split: if_splits option.splits prod.splits)
      (metis diff_le_self length_tl order_refl)+
  show ?thesis using d [OF t(2)] f [OF t(3)] e [OF t(4)] t(1) by simp
qed

lemma parse_length:
  "(parse_value n s = Some (v, r) \<longrightarrow> length r < length s) \<and>
   (parse_elems n s = Some (vs, r) \<longrightarrow> length r < length s) \<and>
   (parse_members n s = Some (ms, r) \<longrightarrow> length r < length s)"
proof (induction n arbitrary: s v vs ms r)
  case (Suc n)
  have w: "length (dropWhile is_json_space s) \<le> length s" by (rule length_dropWhile_le)
  have "parse_value (Suc n) s = Some (v, r) \<Longrightarrow> length r < length s"
  proof -
    assume v: "parse_value (Suc n) s = Some (v, r)"
    then obtain u t where t: "dropWhile is_json_space s = u # t" by (auto split: list.splits)
    have e: "parse_elems n t = Some (x, r) \<Longrightarrow> length r < length t"
      and m: "parse_members n t = Some (y, r) \<Longrightarrow> length r < length t" for x y
      using Suc.IH by blast+
    have "length r < length (u # t)"
      using v unfolding parse_value.simps t list.case
      by (auto simp: parse_word_def js_def split: if_splits option.splits
        dest!: parse_chars_length parse_number_length next_is_length e m)
    then show ?thesis using w t by simp
  qed
  moreover have "parse_elems (Suc n) s = Some (vs, r) \<Longrightarrow> length r < length s"
    using Suc.IH
    by (auto split: option.splits prod.splits dest!: next_is_length) (meson less_trans)+
  moreover have "parse_members (Suc n) s = Some (ms, r) \<Longrightarrow> length r < length s"
    using Suc.IH
    by (auto simp: bind_eq_Some_conv split: option.splits prod.splits dest!: next_is_length parse_chars_length)
      (meson less_trans)+
  ultimately show ?case by blast
qed simp


lemma parse_value_length: "parse_value n s = Some (v, r) \<Longrightarrow> length r < length s"
  using parse_length by blast

lemma parse_fuel:
  "(2 * length s < n \<longrightarrow> parse_value (Suc n) s = parse_value n s) \<and>
   (2 * length s + 1 < n \<longrightarrow> parse_elems (Suc n) s = parse_elems n s) \<and>
   (2 * length s < n \<longrightarrow> parse_members (Suc n) s = parse_members n s)"
proof (induction n arbitrary: s)
  case (Suc n)
  have w: "length (dropWhile is_json_space s) \<le> length s" by (rule length_dropWhile_le)
  have "parse_value (Suc (Suc n)) s = parse_value (Suc n) s" if n: "2 * length s < Suc n"
  proof (cases "dropWhile is_json_space s")
    case (Cons u t)
    then have "2 * length t + 1 < n" using w n by simp
    then have "parse_elems (Suc n) t = parse_elems n t" "parse_members (Suc n) t = parse_members n t"
      using Suc.IH [of t] by auto
    then show ?thesis using Cons by (auto simp del: parse_elems.simps parse_members.simps split: option.split)
  next
    case Nil
    then show ?thesis by (simp only: parse_value.simps list.case)
  qed
  moreover have "parse_elems (Suc (Suc n)) s = parse_elems (Suc n) s" if n: "2 * length s + 1 < Suc n"
  proof (cases "parse_value n s")
    case None
    then show ?thesis using Suc.IH [of s] n by (simp del: parse_value.simps)
  next
    case (Some x)
    then obtain v r where x: "parse_value n s = Some (v, r)" by (cases x) auto
    have "parse_elems (Suc n) r' = parse_elems n r'" if "next_is 44 r = Some r'" for r'
      using parse_value_length [OF x] next_is_length [OF that] n Suc.IH [of r'] by simp
    then show ?thesis
      using x Suc.IH [of s] n by (auto simp del: parse_value.simps parse_elems.simps(2) simp: parse_elems.simps(2) split: option.split)
  qed
  moreover have "parse_members (Suc (Suc n)) s = parse_members (Suc n) s" if n: "2 * length s < Suc n"
  proof (cases "Option.bind (next_is 34 s) parse_chars")
    case None
    then show ?thesis by simp
  next
    case (Some x)
    then obtain k r where x: "Option.bind (next_is 34 s) parse_chars = Some (k, r)" by (cases x) auto
    then have r: "length r + 2 \<le> length s"
      by (auto simp: bind_eq_Some_conv dest!: next_is_length parse_chars_length)
    have v: "parse_value (Suc n) t = parse_value n t" if "next_is 58 r = Some t" for t
      using next_is_length [OF that] r n Suc.IH [of t] by simp
    have m: "parse_members (Suc n) r'' = parse_members n r''"
      if "next_is 58 r = Some t" "parse_value n t = Some (y, r')" "next_is 44 r' = Some r''" for t y r' r''
      using next_is_length [OF that(1)] parse_value_length [OF that(2)] next_is_length [OF that(3)] r n Suc.IH [of r''] by simp
    show ?thesis
      unfolding parse_members.simps(2) [of "Suc n" s] parse_members.simps(2) [of n s] x option.case prod.case
      by (cases "next_is 58 r") (use v m in \<open>auto simp del: parse_value.simps parse_members.simps split: option.split\<close>)
  qed
  ultimately show ?case by blast
qed simp

lemma parse_value_fuel: "2 * length s < n \<Longrightarrow> parse_value n s = parse_value (2 * length s + 1) s"
proof (induction n)
  case (Suc n)
  show ?case
  proof (cases "2 * length s < n")
    case True
    then show ?thesis using Suc.IH parse_fuel [of s n] by metis
  next
    case False
    then have "n = 2 * length s" using Suc.prems by simp
    then show ?thesis by (simp only: Suc_eq_plus1)
  qed
qed simp

lemma JSON_parse_exact:
  assumes "parse_value n s = Some (v, [])" and "2 * length s < n"
  shows "JSON_parse s = Inr v"
  using assms parse_value_fuel [OF assms(2)] by (simp only: JSON_parse_def) simp

section \<open>Reading back what was printed\<close>

text \<open>\<open>parses t v\<close>: with enough fuel, \<open>t\<close> is read as \<open>v\<close> before any delimiter.\<close>

definition parses :: "jsstring \<Rightarrow> js_value \<Rightarrow> bool" where
  "parses t v \<longleftrightarrow> (\<exists>m. \<forall>n \<ge> m. \<forall>x. delimited x \<longrightarrow> parse_value n (t @ x) = Some (v, x))"

lemma JSON_parse_parses:
  assumes "parses t v"
  shows "JSON_parse t = Inr v"
proof -
  obtain m where "\<forall>n \<ge> m. \<forall>x. delimited x \<longrightarrow> parse_value n (t @ x) = Some (v, x)"
    using assms unfolding parses_def by blast
  then have "parse_value (max m (2 * length t + 1)) (t @ []) = Some (v, [])"
    by (simp add: delimited_def)
  then show ?thesis by (intro JSON_parse_exact [of "max m (2 * length t + 1)"]) simp_all
qed

lemma hex_escape: "\<exists>h. padStart 4 48 (nat_to_string 16 (unat (u :: 16 word))) = h \<and> length h = 4 \<and>
  list_all is_hex h \<and> hex_value h = unat u"
proof -
  let ?h = "padStart 4 48 (nat_to_string 16 (unat u))"
  have "length (radix_digits 16 (unat u)) \<le> 4"
    using unit_bound [of u] by (intro radix_digits_length_le) simp_all
  then have "length ?h = 4" by (simp add: length_padStart nat_to_string_def)
  moreover have "hex_value ?h = unat u"
    using hex_value_zeros [of _ "nat_to_string 16 (unat u)"]
    by (simp add: padStart_def hex_value_nat_to_string digit_unit_0)
  moreover have "list_all is_hex ?h"
    by (auto simp: padStart_def list_all_iff is_hex_def is_digit_def dest: nat_to_string_hex)
  ultimately show ?thesis by blast
qed

lemma parse_chars_unit: "parse_chars (json_unit u @ r) = map_option (apfst (Cons u)) (parse_chars r)"
proof -
  obtain h where "padStart 4 48 (nat_to_string 16 (unat u)) = h" "length h = 4" "list_all is_hex h" "hex_value h = unat u"
    using hex_escape by blast
  then have "parse_chars (json_escape u @ r) = map_option (apfst (Cons u)) (parse_chars r)"
    by (simp add: json_escape_def parse_chars.simps(2))
  then show ?thesis
    by (simp add: json_unit_def parse_chars.simps(2) unescape_def)
qed

lemma parse_chars_units: "parse_chars (json_units s @ 34 # x) = Some (s, x)"
proof (induction s rule: json_units.induct)
  case 1
  then show ?case by (simp add: parse_chars.simps(2))
next
  case (2 u)
  then show ?case by (simp add: parse_chars_unit parse_chars.simps(2))
next
  case (3 u v us)
  show ?case
  proof (cases "is_high u \<and> is_low v")
    case True
    then have "u \<noteq> 34" "u \<noteq> 92" "v \<noteq> 34" "v \<noteq> 92" "\<not> unat u < 32" "\<not> unat v < 32"
      by (auto simp: is_high_def is_low_def word_le_nat_alt)
    then show ?thesis using True 3 by (simp add: parse_chars.simps(2))
  next
    case False
    then have "json_units (u # v # us) = json_unit u @ json_units (v # us)" by auto
    then show ?thesis using 3(2) [OF False] by (simp add: parse_chars_unit)
  qed
qed

lemma next_is_hit: "\<not> is_json_space c \<Longrightarrow> next_is c (c # r) = Some r"
  by (simp add: next_is_def)

lemma next_is_miss: "\<not> is_json_space u \<Longrightarrow> u \<noteq> c \<Longrightarrow> next_is c (u # r) = None"
  by (simp add: next_is_def)

lemmas next_is_simps = next_is_hit next_is_miss is_json_space_def

lemma parse_value_string: "parse_value (Suc n) (json_quote s @ x) = Some (VStr s, x)"
  by (simp add: json_quote_def is_json_space_def parse_chars_units)

lemma parses_string: "parses (json_text (JStr s)) (VStr s)"
  unfolding parses_def
proof (intro exI [of _ 1] allI impI)
  fix n :: nat and x assume "1 \<le> n"
  then obtain m where "n = Suc m" by (cases n) auto
  then show "parse_value n (json_text (JStr s) @ x) = Some (VStr s, x)"
    using parse_value_string by (simp add: json_text_def)
qed


lemma dec_value_snoc: "dec_value (s @ [c]) = 10 * dec_value s + int (unat c - 48)"
  by (simp add: dec_value_def)

lemma digit_unit_dec: "d < 10 \<Longrightarrow> unat (digit_unit d) = 48 + d"
proof -
  have "\<forall>d \<in> set [0..<10]. unat (digit_unit d) = 48 + d" by code_simp
  then show "d < 10 \<Longrightarrow> ?thesis" by simp
qed

lemma dec_value_nat_to_string: "dec_value (nat_to_string 10 n) = int n"
proof (induction "10 :: nat" n rule: radix_digits.induct)
  case (1 n)
  show ?case
  proof (cases "n < 10")
    case True
    then show ?thesis
      by (simp add: nat_to_string_def radix_digits.simps [of 10 n] dec_value_def digit_unit_dec)
  next
    case False
    then have "dec_value (nat_to_string 10 n) = 10 * dec_value (nat_to_string 10 (n div 10)) + int (n mod 10)"
      by (simp add: nat_to_string_def radix_digits.simps [of 10 n] dec_value_snoc digit_unit_dec)
    moreover have "dec_value (nat_to_string 10 (n div 10)) = int (n div 10)" using 1 False by simp
    moreover have "10 * int (n div 10) + int (n mod 10) = int n" by presburger
    ultimately show ?thesis by linarith
  qed
qed

lemma hd_radix_digits: "1 < b \<Longrightarrow> 0 < n \<Longrightarrow> hd (radix_digits b n) \<noteq> 0"
proof (induction b n rule: radix_digits.induct)
  case (1 b n)
  then show ?case
    by (cases "n < b") (simp_all add: radix_digits.simps [of b n] radix_digits_nonempty div_greater_zero_iff)
qed

lemma hd_nat_to_string: "0 < n \<Longrightarrow> hd (nat_to_string 10 n) \<noteq> 48"
proof -
  assume n: "0 < n"
  have d: "hd (radix_digits 10 n) < 10"
    using radix_digits_less [of 10 _ n] radix_digits_nonempty [of 10 n] by simp
  have "unat (hd (nat_to_string 10 n)) = 48 + hd (radix_digits 10 n)"
    using radix_digits_nonempty [of 10 n] digit_unit_dec [OF d] by (simp add: nat_to_string_def list.map_sel)
  then show ?thesis using hd_radix_digits [of 10 n] n by auto
qed

lemma not_digit_delimited: "delimited x \<Longrightarrow> x = [] \<or> \<not> is_digit (hd x)"
  by (auto simp: delimited_def is_digit_def)

lemma digits_then_delimited:
  assumes "delimited x" and "list_all is_digit s"
  shows "takeWhile is_digit (s @ x) = s" "dropWhile is_digit (s @ x) = x"
  using assms not_digit_delimited [OF assms(1)]
  by (cases x; simp add: list_all_iff takeWhile_append dropWhile_append)+

lemma parse_after_digits: "delimited x \<Longrightarrow> parse_fraction x = Some ([], x)" "delimited x \<Longrightarrow> parse_exponent x = Some (0, x)"
  by (auto simp: delimited_def parse_fraction_def parse_exponent_def split: list.split)

lemma nat_digits: "list_all is_digit (nat_to_string 10 n)" "nat_to_string 10 n \<noteq> []"
  "nat_to_string 10 n \<noteq> [] \<Longrightarrow> hd (nat_to_string 10 n) = 48 \<Longrightarrow> length (nat_to_string 10 n) \<le> 1"
proof -
  show "list_all is_digit (nat_to_string 10 n)" using nat_to_string_dec by (auto simp: list_all_iff)
  show "nat_to_string 10 n \<noteq> []" by (simp add: nat_to_string_def radix_digits_nonempty)
  show "hd (nat_to_string 10 n) = 48 \<Longrightarrow> length (nat_to_string 10 n) \<le> 1"
    using hd_nat_to_string [of n] by (cases "n = 0") (simp_all add: nat_to_string_def radix_digits.simps [of 10 0])
qed

lemma parse_number_int:
  assumes "delimited x" and "\<bar>i\<bar> < 2 ^ 53"
  shows "parse_number (int_to_string 10 i @ x) = Some (Fin (of_int i), x)"
proof -
  let ?ds = "nat_to_string 10 (nat \<bar>i\<bar>)"
  have m: "hd (?ds @ x) \<noteq> 45"
    using nat_digits(1,2) [of "nat \<bar>i\<bar>"] by (cases ?ds) (auto simp: is_digit_def)
  have r: "round_double (of_int i) = Fin (of_int i)" by (rule round_double_int [OF assms(2)])
  note d = digits_then_delimited [OF assms(1) nat_digits(1)] parse_after_digits [OF assms(1)]
    dec_value_nat_to_string nat_digits(2)
  have h: "\<not> (hd ?ds = 48 \<and> 1 < length ?ds)" using nat_digits(3) [of "nat \<bar>i\<bar>"] nat_digits(2) [of "nat \<bar>i\<bar>"] by auto
  show ?thesis
  proof (cases "i < 0")
    case True
    then have "int_to_string 10 i @ x = 45 # ?ds @ x" by (simp add: int_to_string_def)
    then show ?thesis using True h r by (simp add: parse_number_def d Let_def)
  next
    case False
    then have "int_to_string 10 i @ x = ?ds @ x" by (simp add: int_to_string_def)
    then show ?thesis using False h r m by (simp add: parse_number_def d Let_def)
  qed
qed

lemma parses_int:
  assumes "\<bar>i\<bar> < 2 ^ 53"
  shows "parses (json_text (JInt i)) (VNum (Fin (of_int i)))"
  unfolding parses_def
proof (intro exI [of _ 1] allI impI)
  fix n :: nat and x assume "1 \<le> n" and x: "delimited x"
  then obtain m where m: "n = Suc m" by (cases n) auto
  have "int_to_string 10 i \<noteq> []" using nat_digits(2) by (simp add: int_to_string_def)
  then obtain u t where t: "int_to_string 10 i = u # t" by (cases "int_to_string 10 i") auto
  have "u = 45 \<or> is_digit u"
    using t nat_digits(1) [of "nat i"] by (auto simp: int_to_string_def split: if_splits)
  then have u: "\<not> is_json_space u" "u \<noteq> 34" "u \<noteq> 91" "u \<noteq> 123" "u \<noteq> 116" "u \<noteq> 102" "u \<noteq> 110"
    by (auto simp: is_json_space_def is_digit_def)
  then show "parse_value n (json_text (JInt i) @ x) = Some (VNum (Fin (of_int i)), x)"
    using parse_number_int [OF x assms] by (simp add: json_text_def m t)
qed


text \<open>An object: its properties, each with a value whose text is read back.\<close>

lemma parse_members_ok:
  assumes "list_all2 (\<lambda>(k, t) (k', v). k = k' \<and> parses t v) kts kvs" and "kts \<noteq> []"
  shows "\<exists>m. \<forall>n \<ge> m. \<forall>x. parse_members n (join [44] (map (\<lambda>(k, t). json_quote k @ [58] @ t) kts) @ 125 # x) = Some (kvs, x)"
  using assms
proof (induction kts arbitrary: kvs)
  case (Cons kt kts)
  obtain k t where kt: "kt = (k, t)" by (cases kt)
  with Cons.prems(1) obtain v kvs' where kvs: "kvs = (k, v) # kvs'" "parses t v"
    and tl: "list_all2 (\<lambda>(k, t) (k', v). k = k' \<and> parses t v) kts kvs'"
    by (auto simp: list_all2_Cons1)
  obtain m1 where m1: "\<And>n x. m1 \<le> n \<Longrightarrow> delimited x \<Longrightarrow> parse_value n (t @ x) = Some (v, x)"
    using kvs(2) unfolding parses_def by blast
  have q: "Option.bind (next_is 34 (json_quote k @ y)) parse_chars = Some (k, y)" for y
    by (simp add: json_quote_def next_is_simps parse_chars_units)
  have c: "Option.bind (next_is 58 (58 # y)) (parse_value n) = parse_value n y" for y n
    by (simp add: next_is_simps)
  show ?case
  proof (cases kts)
    case Nil
    have "parse_members n (json_quote k @ [58] @ t @ 125 # x) = Some (kvs, x)" if "Suc m1 \<le> n" for n x
    proof -
      from that obtain n' where n': "n = Suc n'" "m1 \<le> n'" by (cases n) auto
      have "parse_value n' (t @ 125 # x) = Some (v, 125 # x)" by (rule m1 [OF n'(2)]) (simp add: delimited_def)
      then show ?thesis using Nil tl kvs(1) n'(1) q c by (simp add: next_is_simps)
    qed
    then show ?thesis using kt Nil by auto
  next
    case (Cons kt' kts')
    then obtain m2 where m2: "\<And>n x. m2 \<le> n \<Longrightarrow>
        parse_members n (join [44] (map (\<lambda>(k, t). json_quote k @ [58] @ t) kts) @ 125 # x) = Some (kvs', x)"
      using Cons.IH [OF tl] by auto
    let ?r = "join [44] (map (\<lambda>(k, t). json_quote k @ [58] @ t) kts)"
    have "parse_members n (json_quote k @ [58] @ t @ 44 # ?r @ 125 # x) = Some (kvs, x)" if "Suc (max m1 m2) \<le> n" for n x
    proof -
      from that obtain n' where n': "n = Suc n'" "m1 \<le> n'" "m2 \<le> n'" by (cases n) auto
      have "parse_value n' (t @ 44 # ?r @ 125 # x) = Some (v, 44 # ?r @ 125 # x)"
        by (rule m1 [OF n'(2)]) (simp add: delimited_def)
      then show ?thesis using m2 [OF n'(3)] kvs(1) n'(1) q c by (simp add: next_is_hit is_json_space_def)
    qed
    then show ?thesis using kt Cons by (intro exI [of _ "Suc (max m1 m2)"]) simp
  qed
qed simp

lemma parses_object:
  assumes "list_all2 (\<lambda>(k, j) (k', v). k = k' \<and> parses (json_text j) v) kjs kvs" and "kjs \<noteq> []"
  shows "JSON_parse (JSON_stringify kjs) = Inr (VObj kvs)"
proof -
  let ?kts = "map (\<lambda>(k, j). (k, json_text j)) kjs"
  have "list_all2 (\<lambda>(k, t) (k', v). k = k' \<and> parses t v) ?kts kvs"
    using assms(1) by (simp add: list_all2_map1 case_prod_beta')
  then obtain m where m: "\<And>n x. m \<le> n \<Longrightarrow>
      parse_members n (join [44] (map (\<lambda>(k, t). json_quote k @ [58] @ t) ?kts) @ 125 # x) = Some (kvs, x)"
    using parse_members_ok [of ?kts kvs] assms(2) by auto
  let ?b = "join [44] (map (\<lambda>(k, t). json_quote k @ [58] @ t) ?kts) @ [125]"
  have e: "JSON_stringify kjs = 123 # ?b" by (simp add: JSON_stringify_def comp_def case_prod_beta')
  obtain k j kjs' where "kjs = (k, j) # kjs'" using assms(2) by (cases kjs) auto
  then have "\<exists>y. ?b = 34 # y" by (cases kjs') (simp_all add: json_quote_def)
  then have "next_is 125 ?b = None" by (auto simp: next_is_simps)
  then have "parse_value (Suc (max m (2 * length (123 # ?b)))) (123 # ?b) = Some (VObj kvs, [])"
    using m [of "max m (2 * length (123 # ?b))" "[]"] by (simp add: is_json_space_def del: parse_members.simps)
  then show ?thesis unfolding e by (rule JSON_parse_exact) simp
qed

section \<open>ASCII texts\<close>

abbreviation ascii :: "jsstring \<Rightarrow> bool" where
  "ascii s \<equiv> \<forall>u \<in> set s. unat u < 128"

lemma ascii_escape: "ascii (json_escape u)"
proof -
  obtain h where h: "padStart 4 48 (nat_to_string 16 (unat u)) = h" "list_all is_hex h" using hex_escape by blast
  have "is_hex c \<Longrightarrow> unat c < 128" for c by (auto simp: is_hex_def is_digit_def word_le_nat_alt)
  then show ?thesis using h by (auto simp: json_escape_def list_all_iff)
qed

lemma ascii_unit: "unat u < 128 \<Longrightarrow> ascii (json_unit u)"
  using ascii_escape [of u] by (simp add: json_unit_def)

lemma ascii_units: "ascii s \<Longrightarrow> ascii (json_units s)"
proof (induction s rule: json_units.induct)
  case (2 u)
  then show ?case using ascii_unit by simp
next
  case (3 u v us)
  then show ?case using ascii_unit [of u] by (cases "is_high u \<and> is_low v") auto
qed simp

lemma ascii_quote: "ascii s \<Longrightarrow> ascii (json_quote s)"
  using ascii_units [of s] by (auto simp: json_quote_def)

lemma ascii_int: "ascii (int_to_string 10 i)"
proof -
  have "is_digit c \<Longrightarrow> unat c < 128" for c by (simp add: is_digit_def word_le_nat_alt)
  then show ?thesis using nat_to_string_dec by (auto simp: int_to_string_def)
qed

lemma ascii_join: "ascii sep \<Longrightarrow> \<forall>x \<in> set xs. ascii x \<Longrightarrow> ascii (join sep xs)"
  by (induction sep xs rule: join.induct) auto

lemma ascii_stringify:
  assumes "\<forall>(k, j) \<in> set kjs. ascii k \<and> ascii (json_text j)"
  shows "ascii (JSON_stringify kjs)"
proof -
  have "ascii (join [44] (map (\<lambda>(k, v). json_quote k @ [58] @ json_text v) kjs))"
    using assms ascii_quote by (intro ascii_join) (auto simp del: append_Cons)
  then show ?thesis by (auto simp: JSON_stringify_def)
qed

lemma ascii_scalar: "ascii s \<Longrightarrow> ascii (json_text (JStr s))" "ascii (json_text (JInt i))"
  using ascii_quote ascii_int by (simp_all add: json_text_def)

lemma ascii_object:
  assumes "list_all (\<lambda>(k, j). ascii k \<and> (case j of JStr s \<Rightarrow> ascii s | JInt i \<Rightarrow> True | _ \<Rightarrow> False)) kjs"
  shows "ascii (JSON_stringify kjs)"
proof (rule ascii_stringify, clarify)
  fix k j assume "(k, j) \<in> set kjs"
  then have "ascii k \<and> (case j of JStr s \<Rightarrow> ascii s | JInt i \<Rightarrow> True | _ \<Rightarrow> False)"
    using assms by (auto simp: list_all_iff)
  then show "ascii k \<and> ascii (json_text j)" using ascii_scalar by (cases j) auto
qed

lemma stringify_wf:
  assumes "ascii (JSON_stringify kjs)"
  shows "well_formed (JSON_stringify kjs)" "take 1 (JSON_stringify kjs) \<noteq> [0xFEFF]"
  using well_formed_ascii [of "JSON_stringify kjs"] assms by (auto simp: JSON_stringify_def)

end
