(* ===== verification/ValidatorNetwork.thy ===== *)
theory ValidatorNetwork
  imports LocalValidator JsonText
begin

text \<open>
  \<open>backend/src/services/validatorNetwork.ts\<close> with \<open>validator/remoteValidator.ts\<close>: the coordinator
  of a key generation, and how a network of validators comes to be: created in process,
  reloaded from key files, or connected over HTTP.

  A node is anything with the methods of the interface \<open>ValidatorNode\<close>: its state is of any type
  and the methods are a record of operations, \<open>local_ops\<close> for the validators of this
  process; a remote node's operations are the answers of its server, which are arbitrary.
\<close>

section \<open>Nodes\<close>

record 's node_ops =
  n_index :: "'s \<Rightarrow> int"
  n_begin :: "'s \<Rightarrow> jsstring \<Rightarrow> nat \<Rightarrow> int list \<Rightarrow> 's \<times> (error + transport_key in_session signed)"
  n_deal :: "'s \<Rightarrow> transport_key in_session signed list
    \<Rightarrow> 's \<times> (error + (dealer_broadcast in_session signed \<times> encrypted_share in_session signed list))"
  n_receive :: "'s \<Rightarrow> dealer_broadcast in_session signed list \<Rightarrow> encrypted_share in_session signed list
    \<Rightarrow> 's \<times> (error + complaint in_session signed list)"
  n_respond :: "'s \<Rightarrow> complaint in_session signed list \<Rightarrow> 's \<times> (error + reveal in_session signed list)"
  n_finalize :: "'s \<Rightarrow> signed_transcript \<Rightarrow> 's \<times> (error + result_statement signed)"

definition node_address :: "int \<Rightarrow> jsstring" where
  "node_address i = js ''validator-'' @ int_to_string 10 i"

text \<open>\<open>tdraws i\<close>, \<open>cdraws i\<close>, \<open>edraws i\<close> and \<open>enonce i\<close> are the random bytes of validator \<open>i\<close>.\<close>

definition local_ops ::
  "'p curve \<Rightarrow> webcrypto \<Rightarrow> (byte list \<Rightarrow> byte list) \<Rightarrow> ed25519 \<Rightarrow> (int \<Rightarrow> byte list list) \<Rightarrow> (int \<Rightarrow> nat \<Rightarrow> byte list list)
     \<Rightarrow> (int \<Rightarrow> int \<Rightarrow> byte list list) \<Rightarrow> (int \<Rightarrow> int \<Rightarrow> byte list) \<Rightarrow> local_validator node_ops" where
  "local_ops C W sha E tdraws cdraws edraws enonce = \<lparr>
     n_index = lv_index,
     n_begin = (\<lambda>v s t ps. dkgBegin C E (tdraws (lv_index v)) (cdraws (lv_index v)) v s t ps),
     n_deal = (\<lambda>v ks. (v, dkgDeal C W E (edraws (lv_index v)) (enonce (lv_index v)) v ks)),
     n_receive = dkgReceive C W E,
     n_respond = (\<lambda>v cs. (v, dkgRespond C E v cs)),
     n_finalize = (\<lambda>v t. case dkgFinalize C sha E v t of (v', r, f) \<Rightarrow> (v', r))\<rparr>"

section \<open>Running a key generation\<close>

text \<open>\<open>Promise.all(nodes.map(f))\<close>: every call is made, the first failure is the result.\<close>

definition promise_all :: "(error + 'a) list \<Rightarrow> error + 'a list" where
  "promise_all rs = emap (\<lambda>r. r) rs"

definition round_of :: "('s \<Rightarrow> 's \<times> (error + 'a)) \<Rightarrow> 's list \<Rightarrow> 's list \<times> (error + 'a) list" where
  "round_of f nodes = (map (fst \<circ> f) nodes, map (snd \<circ> f) nodes)"

definition oks :: "('e + 'a) list \<Rightarrow> 'a list" where
  "oks rs = concat (map (\<lambda>r. case r of Inl e \<Rightarrow> [] | Inr x \<Rightarrow> [x]) rs)"

text \<open>The check of the signed results against the first one.\<close>

definition check_statements ::
  "ed25519 \<Rightarrow> (int \<times> jsstring) list \<Rightarrow> result_statement signed list \<Rightarrow> error + dkg_public_result" where
  "check_statements E identityKeys statements =
     (case statements of [] \<Rightarrow> Inl TypeError
      | s0 # _ \<Rightarrow>
         (let first = sg_payload s0 in
          ebind (efold (\<lambda>_ s.
              if \<not> verifySigned E statement_json DOMAIN_result s (map_of identityKeys (sg_signer s))
                then Inl (BadResultSignature (sg_signer s))
              else if pr_groupPublicKey (rs_result (sg_payload s)) \<noteq> pr_groupPublicKey (rs_result first)
                  \<or> rs_transcriptHash (sg_payload s) \<noteq> rs_transcriptHash first
                then Inl ResultsDisagree
              else Inr ()) () statements)
            (\<lambda>_. Inr (rs_result first))))"

text \<open>The rounds up to the transcript, and with the final statements.\<close>

definition exchange ::
  "'s node_ops \<Rightarrow> 's list \<Rightarrow> nat \<Rightarrow> jsstring \<Rightarrow> 's list \<times> (error + signed_transcript)" where
  "exchange ops nodes threshold session =
     (let participants = map (n_index ops) nodes;
          (nodes1, begun) = round_of (\<lambda>n. n_begin ops n session threshold participants) nodes
      in case promise_all begun of Inl e \<Rightarrow> (nodes1, Inl e)
      | Inr transportKeys \<Rightarrow>
     (let (nodes2, dealt) = round_of (\<lambda>n. n_deal ops n transportKeys) nodes1;
          broadcasts = map fst (oks dealt);
          shares = concat (map snd (oks dealt))
      in if length broadcasts < threshold then (nodes2, Inl (TooFewDealt (length broadcasts)))
      else
     (let (nodes3, received) = round_of (\<lambda>n. n_receive ops n broadcasts
              (filter (\<lambda>s. es_recipient (is_body (sg_payload s)) = n_index ops n) shares)) nodes2
      in case promise_all received of Inl e \<Rightarrow> (nodes3, Inl e)
      | Inr cs \<Rightarrow>
     (let (nodes4, responded) = round_of (\<lambda>n. n_respond ops n (concat cs)) nodes3
      in case promise_all responded of Inl e \<Rightarrow> (nodes4, Inl e)
      | Inr rs \<Rightarrow>
          (nodes4, Inr \<lparr>st_broadcasts = broadcasts, st_complaints = concat cs, st_reveals = concat rs\<rparr>)))))"

definition runDkg ::
  "ed25519 \<Rightarrow> 's node_ops \<Rightarrow> 's list \<Rightarrow> nat \<Rightarrow> (int \<times> jsstring) list \<Rightarrow> jsstring
     \<Rightarrow> 's list \<times> (error + (dkg_public_result \<times> signed_transcript \<times> result_statement signed list))" where
  "runDkg E ops nodes threshold identityKeys session =
     (let (nodes4, r) = exchange ops nodes threshold session in
      case r of Inl e \<Rightarrow> (nodes4, Inl e)
      | Inr transcript \<Rightarrow>
          (let (nodes5, finals) = round_of (\<lambda>n. n_finalize ops n transcript) nodes4 in
           (nodes5, ebind (promise_all finals) (\<lambda>statements.
              ebind (check_statements E identityKeys statements) (\<lambda>result.
                Inr (result, transcript, statements))))))"

section \<open>Remote validators\<close>

text \<open>An entry of the cluster file before and after \<open>loadClusterFile\<close> has looked at it.\<close>

record 'i cluster_member =
  cm_index :: 'i
  cm_url :: jsstring
  cm_identityKey :: jsstring
  cm_apiToken :: jsstring

text \<open>\<open>Number.isInteger\<close>, with the integer.\<close>

definition js_integer :: "js_number \<Rightarrow> int option" where
  "js_integer x = (case x of Fin q \<Rightarrow> if of_int \<lfloor>q\<rfloor> = q then Some \<lfloor>q\<rfloor> else None | Infinite _ \<Rightarrow> None)"

text \<open>The regular expressions \<open>^https?://\<close> and \<open>^[0-9a-f]{64}$\<close>.\<close>

definition is_http_url :: "jsstring \<Rightarrow> bool" where
  "is_http_url s \<longleftrightarrow> take 7 s = js ''http://'' \<or> take 8 s = js ''https://''"

definition is_key_hex :: "jsstring \<Rightarrow> bool" where
  "is_key_hex s \<longleftrightarrow> length s = 64 \<and> list_all (\<lambda>c. is_digit c \<or> 97 \<le> c \<and> c \<le> 102) s"

definition check_member :: "int list \<Rightarrow> js_number cluster_member \<Rightarrow> error + int" where
  "check_member seen v =
     (case js_integer (cm_index v) of None \<Rightarrow> Inl (BadClusterMember 0)
      | Some i \<Rightarrow>
          if i < 1 \<or> i \<in> set seen then Inl (BadClusterMember i)
          else if \<not> is_http_url (cm_url v) then Inl (BadClusterMember i)
          else if \<not> is_key_hex (cm_identityKey v) then Inl (BadClusterMember i)
          else if length (cm_apiToken v) < 32 then Inl (BadClusterMember i)
          else Inr i)"

text \<open>The members with their indices, which the checks have shown to be integers.\<close>

definition loadClusterFile :: "js_number cluster_member list option \<Rightarrow> error + int cluster_member list" where
  "loadClusterFile validators =
     ebind (efold (\<lambda>acc v. ebind (check_member (map cm_index acc) v) (\<lambda>i.
         Inr (acc @ [\<lparr>cm_index = i, cm_url = cm_url v, cm_identityKey = cm_identityKey v, cm_apiToken = cm_apiToken v\<rparr>])))
       [] (case validators of None \<Rightarrow> [] | Some vs \<Rightarrow> vs))
     (\<lambda>members. if members = [] then Inl EmptyCluster else Inr members)"

text \<open>
  An HTTP exchange: no answer within the time limit, or a status and the JSON of the body, if it
  is JSON.  \<open>empty_object\<close> is the object \<open>{}\<close> that stands for a body that is not.
\<close>

datatype 'a http_response = NoResponse | Response nat "'a option"

definition remote_call :: "'a \<Rightarrow> 'a http_response \<Rightarrow> error + 'a" where
  "remote_call empty_object res = (case res of
     NoResponse \<Rightarrow> Inl (HttpError 0)
   | Response code body \<Rightarrow>
       let data = (case body of None \<Rightarrow> empty_object | Some x \<Rightarrow> x) in
       if code < 200 \<or> 299 < code then Inl (HttpError code) else Inr data)"

section \<open>Networks\<close>

datatype network_mode = LocalMode | RemoteMode

record 's validator_network =
  vn_threshold :: nat
  vn_groupPublicKey :: jsstring
  vn_verificationKeys :: "(int \<times> jsstring) list"
  vn_validators :: "'s list"
  vn_mode :: network_mode

record network_options =
  no_count :: nat
  no_threshold :: nat
  no_byzantine :: "int list"
  no_dkgFaults :: "int \<Rightarrow> dkg_faults"
  no_keyDir :: jsstring
  no_commitments :: commitment_source

definition keyFileFor :: "jsstring \<Rightarrow> int \<Rightarrow> jsstring" where
  "keyFileFor dir i = (if dir = [] then [] else dir @ js ''/validator-'' @ int_to_string 10 i @ js ''.json'')"

definition defaultCommitmentLedger :: "jsstring \<Rightarrow> ledger_kind" where
  "defaultCommitmentLedger orderVaultContract = (if orderVaultContract \<noteq> [] then Soroban else DevInMemory)"

text \<open>Fresh identities from the given secrets, and the peer list they make.\<close>

definition numbered :: "'a list \<Rightarrow> (int \<times> 'a) list" where
  "numbered xs = map (\<lambda>(k, x). (int k, x)) (enumerate 1 xs)"

definition createLocalNetwork ::
  "ed25519 \<Rightarrow> local_validator node_ops \<Rightarrow> network_options \<Rightarrow> byte list list \<Rightarrow> jsstring
     \<Rightarrow> error + (local_validator validator_network \<times> dkg_public_result \<times> signed_transcript)" where
  "createLocalNetwork E ops opts secrets session =
     ebind (emap (generateIdentity E) (take (no_count opts) secrets)) (\<lambda>identities.
     let peers = numbered (map id_publicKey identities) in
     ebind (emap (\<lambda>(i, identity). newLocalValidator i identity peers (i \<in> set (no_byzantine opts))
         (no_dkgFaults opts i) (Some (no_commitments opts)) (keyFileFor (no_keyDir opts) i)) (numbered identities))
       (\<lambda>validators.
     let (nodes, r) = runDkg E ops validators (no_threshold opts) peers session in
     ebind r (\<lambda>(result, transcript, statements).
       Inr (\<lparr>vn_threshold = pr_threshold result, vn_groupPublicKey = pr_groupPublicKey result,
         vn_verificationKeys = pr_verificationKeys result, vn_validators = nodes, vn_mode = LocalMode\<rparr>,
         result, transcript))))"

text \<open>
  \<open>readKey f\<close>: the parsed key file \<open>f\<close>, if it exists.  The settings are the validator count, the
  threshold, the Byzantine indices and the default ledger.
\<close>

definition loadLocalNetwork ::
  "ed25519 \<Rightarrow> (jsstring \<Rightarrow> persisted_key option) \<Rightarrow> nat \<Rightarrow> nat \<Rightarrow> int list \<Rightarrow> ledger_kind \<Rightarrow> byte list list \<Rightarrow> jsstring
     \<Rightarrow> error + local_validator validator_network option" where
  "loadLocalNetwork E readKey validatorCount validatorThreshold byzantine ledger secrets dir =
     (let files = map (\<lambda>k. keyFileFor dir (int k + 1)) [0..<validatorCount];
          keys = concat (map (\<lambda>f. case readKey f of None \<Rightarrow> [] | Some k \<Rightarrow> [k]) files)
      in if keys = [] then Inr None
      else if length keys \<noteq> length files then Inl (KeyFilesIncomplete (length keys) (length files))
      else
     (let k0 = pk_info (hd keys) in
      if list_ex (\<lambda>k. ki_groupPublicKey (pk_info k) \<noteq> ki_groupPublicKey k0 \<or> ki_threshold (pk_info k) \<noteq> ki_threshold k0) keys
        then Inl DifferentSessions
      else if ki_threshold k0 \<noteq> validatorThreshold then Inl ThresholdMismatch
      else
        ebind (emap (generateIdentity E) (take (length keys) secrets)) (\<lambda>identities.
        let peers = js_map (zip (map (\<lambda>k. ki_index (pk_info k)) keys) (map id_publicKey identities)) in
        ebind (emap (\<lambda>(k, identity). fromPersisted k identity peers (ki_index (pk_info k) \<in> set byzantine)
            (Some (Ledger ledger))) (zip keys identities)) (\<lambda>validators.
        Inr (Some \<lparr>vn_threshold = ki_threshold k0, vn_groupPublicKey = ki_groupPublicKey k0,
          vn_verificationKeys = ki_verificationKeys k0, vn_validators = validators, vn_mode = LocalMode\<rparr>)))))"

text \<open>
  \<open>infos\<close> are the settled answers of the members, in order, and \<open>nodes\<close> their clients.  A keyed
  validator whose answer leaves out a field of its key (none of the validators above does) is
  read as if the field were empty.
\<close>

definition connectRemoteNetwork ::
  "ed25519 \<Rightarrow> 's node_ops \<Rightarrow> 's list \<Rightarrow> int cluster_member list \<Rightarrow> (error + validator_info) list \<Rightarrow> nat \<Rightarrow> jsstring
     \<Rightarrow> error + 's validator_network" where
  "connectRemoteNetwork E ops nodes cluster infos threshold session =
     (let identityKeys = map (\<lambda>v. (cm_index v, cm_identityKey v)) cluster;
          reachable = oks infos;
          keyed = filter vi_hasKey reachable
      in case List.find (\<lambda>i. Some (vi_identityKey i) \<noteq> map_of identityKeys (vi_index i)) reachable of
        Some i \<Rightarrow> Inl (UnexpectedIdentity (vi_index i))
      | None \<Rightarrow>
          if keyed = [] then
            (if length reachable \<noteq> length nodes then Inl (NotAllReachable (length reachable) (length nodes))
             else
              (let (nodes', r) = runDkg E ops nodes threshold identityKeys session in
               ebind r (\<lambda>(result, _, _).
                 Inr \<lparr>vn_threshold = pr_threshold result, vn_groupPublicKey = pr_groupPublicKey result,
                   vn_verificationKeys = pr_verificationKeys result, vn_validators = nodes', vn_mode = RemoteMode\<rparr>)))
          else if length keyed \<noteq> length reachable then Inl MixedKeys
          else
           (let ref = hd keyed; t = (case vi_threshold ref of None \<Rightarrow> 0 | Some t \<Rightarrow> t) in
            if list_ex (\<lambda>i. vi_groupPublicKey i \<noteq> vi_groupPublicKey ref \<or> vi_threshold i \<noteq> vi_threshold ref) keyed
              then Inl DifferentSessions
            else if length keyed < t then Inl (NotAllReachable (length keyed) t)
            else Inr \<lparr>vn_threshold = t,
                vn_groupPublicKey = (case vi_groupPublicKey ref of None \<Rightarrow> [] | Some k \<Rightarrow> k),
                vn_verificationKeys = (case vi_verificationKeys ref of None \<Rightarrow> [] | Some ks \<Rightarrow> ks),
                vn_validators = nodes, vn_mode = RemoteMode\<rparr>))"

text \<open>
  The module's variable \<open>network\<close> and the choice made once.  \<open>remote\<close>, \<open>load\<close> and \<open>create\<close> are the three
  ways to build a network; concurrent first calls share one promise, so they are one call here.
\<close>

definition initValidatorNetwork ::
  "jsstring \<Rightarrow> jsstring \<Rightarrow> (error + 'n) \<Rightarrow> (error + 'n option) \<Rightarrow> (error + 'n) \<Rightarrow> 'n option \<Rightarrow> 'n option \<times> (error + 'n)" where
  "initValidatorNetwork clusterFile keyDir remote load create network =
     (case network of Some n \<Rightarrow> (network, Inr n)
      | None \<Rightarrow>
          (let r = (if clusterFile \<noteq> [] then remote
             else ebind (if keyDir \<noteq> [] then load else Inr None) (\<lambda>loaded.
               case loaded of Some n \<Rightarrow> Inr n | None \<Rightarrow> create))
           in case r of Inl e \<Rightarrow> (None, Inl e) | Inr n \<Rightarrow> (Some n, Inr n)))"

definition getValidatorNetwork :: "'n option \<Rightarrow> error + 'n" where
  "getValidatorNetwork network = (case network of None \<Rightarrow> Inl NotInitializedNetwork | Some n \<Rightarrow> Inr n)"

definition setValidatorNetwork :: "'n option \<Rightarrow> 'n option \<Rightarrow> 'n option" where
  "setValidatorNetwork next_network network = next_network"

section \<open>Lemmas\<close>

lemma efold_unit_ok: "efold (\<lambda>_ x. if P x then Inl (e x) else if Q x then Inl (f x) else Inr ()) () xs = Inr u \<longleftrightarrow>
    (\<forall>x \<in> set xs. \<not> P x \<and> \<not> Q x)"
  by (induction xs) (auto split: if_splits)

lemma check_statements_Inr:
  "check_statements E ks statements = Inr r \<longleftrightarrow>
    (\<exists>s0 rest. statements = s0 # rest \<and> r = rs_result (sg_payload s0) \<and>
      (\<forall>s \<in> set statements. verifySigned E statement_json DOMAIN_result s (map_of ks (sg_signer s)) \<and>
        pr_groupPublicKey (rs_result (sg_payload s)) = pr_groupPublicKey r \<and>
        rs_transcriptHash (sg_payload s) = rs_transcriptHash (sg_payload s0)))"
  by (cases statements) (auto simp: check_statements_def Let_def ebind_eq_Inr efold_unit_ok simp del: efold.simps)

lemma exchange_length: "length (fst (exchange ops nodes t session)) = length nodes"
  by (simp add: exchange_def round_of_def Let_def split: sum.split)

lemma exchange_threshold:
  "exchange ops nodes t session = (nodes4, Inr transcript) \<Longrightarrow> t \<le> length (st_broadcasts transcript)"
  by (auto simp: exchange_def round_of_def Let_def simp del: length_map split: sum.splits if_splits)

lemma runDkg_Inr:
  assumes "runDkg E ops nodes t ks session = (nodes', Inr (result, transcript, statements))"
  obtains nodes4 where "check_statements E ks statements = Inr result" "length nodes4 = length nodes"
    "promise_all (map (\<lambda>n. snd (n_finalize ops n transcript)) nodes4) = Inr statements"
    "nodes' = map (\<lambda>n. fst (n_finalize ops n transcript)) nodes4" "t \<le> length (st_broadcasts transcript)"
    "exchange ops nodes t session = (nodes4, Inr transcript)"
proof -
  obtain nodes4 r where e: "exchange ops nodes t session = (nodes4, r)" by (cases "exchange ops nodes t session")
  then have r: "r = Inr transcript"
    and c: "promise_all (map (snd \<circ> (\<lambda>n. n_finalize ops n transcript)) nodes4) = Inr statements"
      "check_statements E ks statements = Inr result" "nodes' = map (fst \<circ> (\<lambda>n. n_finalize ops n transcript)) nodes4"
    using assms by (auto simp: runDkg_def round_of_def Let_def ebind_eq_Inr split: sum.splits)
  show ?thesis
    using that [OF c(2)] e c r exchange_length [of ops nodes t session] exchange_threshold [of ops nodes t session]
    by (simp add: comp_def)
qed

lemma length_promise_all: "promise_all rs = Inr xs \<Longrightarrow> length xs = length rs"
  unfolding promise_all_def by (rule length_emap)

section \<open>A sample cluster\<close>

text \<open>Nodes that are known by their index and sign the given statement at the end.\<close>

definition sample_statement :: "dkg_public_result \<Rightarrow> result_statement" where
  "sample_statement r = \<lparr>rs_session = js ''s'', rs_transcriptHash = js ''00'', rs_result = r\<rparr>"

definition sign_statement :: "dkg_public_result \<Rightarrow> int \<Rightarrow> error + result_statement signed" where
  "sign_statement r i = signAs sample_ed25519 (sample_validator i None None) statement_json DOMAIN_result (sample_statement r)"

definition scripted_ops :: "int node_ops" where
  "scripted_ops = \<lparr>n_index = (\<lambda>i. i),
     n_begin = (\<lambda>i s t ps. (i, signAs sample_ed25519 (sample_validator i None None) (session_json body_transportKey) DOMAIN_transportKey
        \<lparr>is_session = s, is_body = \<lparr>tk_index = i, tk_transportKey = []\<rparr>\<rparr>)),
     n_deal = (\<lambda>i ks. (i, ebind (signAs sample_ed25519 (sample_validator i None None) (session_json body_broadcast) DOMAIN_broadcast
        \<lparr>is_session = [], is_body = \<lparr>db_dealer = i, db_commitments = None\<rparr>\<rparr>) (\<lambda>b. Inr (b, [])))),
     n_receive = (\<lambda>i bs ss. (i, Inr [])), n_respond = (\<lambda>i cs. (i, Inr [])),
     n_finalize = (\<lambda>i t. (i, sign_statement sample_result i))\<rparr>"

lemma sample_statement_signed:
  assumes "i = 1 \<or> i = 2"
  obtains sg where "sign_statement r i = Inr sg" "sg_payload sg = sample_statement r" "sg_signer sg = i"
    "verifySigned sample_ed25519 statement_json DOMAIN_result sg (map_of sample_peers i)"
proof -
  obtain sg where sg: "sign_statement r i = Inr sg" by (simp add: sign_statement_def sample_signAs)
  have pk: "publicKeyOf sample_ed25519 (id_secretKey (sample_identity i)) = Inr (id_publicKey (sample_identity i))"
    by (simp add: publicKeyOf_def sample_identity_def hex.dec_enc sample_ed25519_def)
  have "verifySigned sample_ed25519 statement_json DOMAIN_result sg (Some (id_publicKey (sample_identity i))) \<and>
      sg_payload sg = sample_statement r \<and> sg_signer sg = i"
    using sign_verify_lemma [OF sample_ed25519_laws, of statement_json DOMAIN_result "sample_statement r" i
        "id_secretKey (sample_identity i)" sg] sg pk by (auto simp: sign_statement_def signAs_def)
  moreover have "map_of sample_peers i = Some (id_publicKey (sample_identity i))"
    using assms by (auto simp: sample_peers_def)
  ultimately show ?thesis using that sg by simp
qed

lemma sample_statements:
  obtains s1 s2 where "sign_statement sample_result 1 = Inr s1" "sign_statement sample_result 2 = Inr s2"
    "sg_payload s1 = sample_statement sample_result"
    "check_statements sample_ed25519 sample_peers [s1, s2] = Inr sample_result"
proof -
  obtain s1 where s1: "sign_statement sample_result 1 = Inr s1" "sg_payload s1 = sample_statement sample_result" "sg_signer s1 = 1"
    "verifySigned sample_ed25519 statement_json DOMAIN_result s1 (map_of sample_peers 1)"
    using sample_statement_signed [of 1] by blast
  obtain s2 where s2: "sign_statement sample_result 2 = Inr s2" "sg_payload s2 = sample_statement sample_result" "sg_signer s2 = 2"
    "verifySigned sample_ed25519 statement_json DOMAIN_result s2 (map_of sample_peers 2)"
    using sample_statement_signed [of 2] by blast
  show ?thesis
    using that [OF s1(1) s2(1) s1(2)] s1 s2 by (simp add: check_statements_Inr sample_statement_def)
qed

section \<open>Properties\<close>



text \<open>The rest of the result is not agreed on.  The threshold, the qualified dealers and the
  verification keys are those of the first statement alone: whatever accepted list of statements
  follows, a first signer may replace them by anything it signs, and the coordinator returns
  them as the result.\<close>

theorem first_statement_decides:
  assumes "check_statements E identityKeys (s # rest) = Inr result"
    and "verifySigned E statement_json DOMAIN_result s' (map_of identityKeys (sg_signer s'))"
    and "pr_groupPublicKey (rs_result (sg_payload s')) = pr_groupPublicKey (rs_result (sg_payload s))"
    and "rs_transcriptHash (sg_payload s') = rs_transcriptHash (sg_payload s)"
  shows "check_statements E identityKeys (s' # rest) = Inr (rs_result (sg_payload s'))"
proof -
  obtain "\<forall>x \<in> set rest. verifySigned E statement_json DOMAIN_result x (map_of identityKeys (sg_signer x)) \<and>
      pr_groupPublicKey (rs_result (sg_payload x)) = pr_groupPublicKey (rs_result (sg_payload s)) \<and>
      rs_transcriptHash (sg_payload x) = rs_transcriptHash (sg_payload s)"
    using assms(1) unfolding check_statements_Inr by (elim exE conjE) simp
  then show ?thesis
    unfolding check_statements_Inr by (intro exI conjI) (auto simp: assms)
qed

text \<open>The first signer of the sample statements lists no verification keys at all.\<close>

theorem first_statement_decides_witness:
  "\<exists>s rest s'. check_statements sample_ed25519 sample_peers (s # rest) = Inr sample_result \<and>
     check_statements sample_ed25519 sample_peers (s' # rest) = Inr (sample_result\<lparr>pr_verificationKeys := []\<rparr>)"
proof -
  obtain s1 s2 where s: "sg_payload s1 = sample_statement sample_result"
    "check_statements sample_ed25519 sample_peers [s1, s2] = Inr sample_result"
    by (rule sample_statements)
  obtain s' where s': "sg_payload s' = sample_statement (sample_result\<lparr>pr_verificationKeys := []\<rparr>)" "sg_signer s' = 1"
    "verifySigned sample_ed25519 statement_json DOMAIN_result s' (map_of sample_peers 1)"
    using sample_statement_signed [of 1] by blast
  have "check_statements sample_ed25519 sample_peers (s' # [s2]) = Inr (rs_result (sg_payload s'))"
    by (rule first_statement_decides [OF s(2)]) (simp_all add: s s' sample_statement_def)
  then show ?thesis using s(2) s'(1) by (auto simp: sample_statement_def)
qed

text \<open>A connected network speaks for one key.  When every keyed validator is used as found, at least
  its threshold of validators is reachable, every reachable one holds a share and reports the
  identity key pinned for its index in the cluster file, and all report the same group key and
  threshold, which are the network's.\<close>

theorem connected_network_is_consistent:
  assumes "connectRemoteNetwork E ops nodes cluster infos threshold session = Inr net"
    and "list_ex vi_hasKey (oks infos)"
  shows "vn_validators net = nodes \<and> vn_threshold net \<le> length (oks infos) \<and>
    (\<exists>t k. (case t of None \<Rightarrow> 0 | Some t \<Rightarrow> t) = vn_threshold net \<and> (case k of None \<Rightarrow> [] | Some k \<Rightarrow> k) = vn_groupPublicKey net \<and>
      set (oks infos) \<subseteq> {i. vi_hasKey i \<and> vi_threshold i = t \<and> vi_groupPublicKey i = k \<and>
        map_of (map (\<lambda>v. (cm_index v, cm_identityKey v)) cluster) (vi_index i) = Some (vi_identityKey i)})"
proof -
  let ?ids = "map (\<lambda>v. (cm_index v, cm_identityKey v)) cluster" and ?keyed = "filter vi_hasKey (oks infos)"
  have ne: "?keyed \<noteq> []" using assms(2) by (auto simp: list_ex_iff filter_empty_conv)
  have find: "List.find (\<lambda>i. Some (vi_identityKey i) \<noteq> map_of ?ids (vi_index i)) (oks infos) = None"
    using assms(1) by (auto simp: connectRemoteNetwork_def Let_def split: option.splits)
  have rest: "length ?keyed = length (oks infos)"
    "\<not> list_ex (\<lambda>i. vi_groupPublicKey i \<noteq> vi_groupPublicKey (hd ?keyed) \<or> vi_threshold i \<noteq> vi_threshold (hd ?keyed)) ?keyed"
    "vn_threshold net \<le> length ?keyed" "vn_validators net = nodes"
    "vn_threshold net = (case vi_threshold (hd ?keyed) of None \<Rightarrow> 0 | Some t \<Rightarrow> t)"
    "vn_groupPublicKey net = (case vi_groupPublicKey (hd ?keyed) of None \<Rightarrow> [] | Some k \<Rightarrow> k)"
    using assms(1) ne unfolding connectRemoteNetwork_def Let_def find
    by (auto split: if_splits)
  have all: "?keyed = oks infos"
  proof (rule filter_True, rule ccontr)
    assume "\<not> (\<forall>i \<in> set (oks infos). vi_hasKey i)"
    then show False using rest(1) length_filter_less [of _ "oks infos" vi_hasKey] by auto
  qed
  have "set (oks infos) \<subseteq> {i. vi_hasKey i \<and> vi_threshold i = vi_threshold (hd ?keyed) \<and>
      vi_groupPublicKey i = vi_groupPublicKey (hd ?keyed) \<and> map_of ?ids (vi_index i) = Some (vi_identityKey i)}"
  proof
    fix i assume i: "i \<in> set (oks infos)"
    then have "i \<in> set ?keyed" by (simp only: all)
    then show "i \<in> {i. vi_hasKey i \<and> vi_threshold i = vi_threshold (hd ?keyed) \<and>
      vi_groupPublicKey i = vi_groupPublicKey (hd ?keyed) \<and> map_of ?ids (vi_index i) = Some (vi_identityKey i)}"
      using rest(2) find i by (auto simp: list_ex_iff find_None_iff)
  qed
  moreover have "vn_threshold net \<le> length (oks infos)" using rest(3) by (simp only: all)
  ultimately show ?thesis
    by (intro conjI exI [of _ "vi_threshold (hd ?keyed)"] exI [of _ "vi_groupPublicKey (hd ?keyed)"])
      (simp_all only: rest(4-6))
qed

theorem connected_network_is_consistent_witness:
  "\<exists>net. connectRemoteNetwork sample_ed25519 scripted_ops [1, 2]
       (map (\<lambda>i. \<lparr>cm_index = i, cm_url = [], cm_identityKey = id_publicKey (sample_identity i), cm_apiToken = []\<rparr>) [1, 2])
       (map (\<lambda>i. Inr (info (sample_validator i (Some (sample_key i)) None))) [1, 2]) 2 (js ''s'') = Inr net \<and>
     vn_validators net = [1, 2] \<and> vn_threshold net = 2"
proof -
  let ?infos = "map (\<lambda>i. Inr (info (sample_validator i (Some (sample_key i)) None)) :: error + validator_info) [1, 2]"
  let ?cluster = "map (\<lambda>i. \<lparr>cm_index = i, cm_url = [], cm_identityKey = id_publicKey (sample_identity i), cm_apiToken = []\<rparr>) [1, 2]"
  obtain net where net: "connectRemoteNetwork sample_ed25519 scripted_ops [1, 2] ?cluster ?infos 2 (js ''s'') = Inr net"
    "vn_threshold net = 2"
    by (simp add: connectRemoteNetwork_def oks_def info_def sample_validator_def Let_def)
  have "list_ex vi_hasKey (oks ?infos)" by (simp add: oks_def info_def)
  from connected_network_is_consistent [OF net(1) this] net show ?thesis by blast
qed

end
