(* ===== verification/Models.thy ===== *)
theory Models
  imports Platform
begin

text \<open>
  The rows of the database (\<open>backend/src/db/models\<close>) and the payload types they carry
  (\<open>backend/src/types\<close>).  An optional column is an \<open>option\<close>; a table is the list of its rows.
\<close>

section \<open>Orders\<close>

datatype order_status = Pending | Batched | OrderSettled | OrderFailed

record decrypted_order =
  do_user :: jsstring
  do_token_in :: jsstring
  do_token_out :: jsstring
  do_amount_in :: jsstring
  do_min_amount_out :: jsstring

record submit_order_body =
  so_encrypted_data :: jsstring
  so_threshold_pubkey :: jsstring
  so_nonce :: int

record order_row =
  o_id :: jsstring
  o_user_address :: jsstring
  o_encrypted_data :: jsstring
  o_threshold_pubkey :: jsstring
  o_token_in :: "jsstring option"
  o_token_out :: "jsstring option"
  o_amount_in :: "jsstring option"
  o_min_amount_out :: "jsstring option"
  o_amount_out :: "jsstring option"
  o_failure_reason :: "error option"
  o_nonce :: int
  o_status :: order_status
  o_batch_id :: "jsstring option"
  o_created_at :: int

section \<open>Batches and settlements\<close>

datatype batch_status = Created | Submitted | BatchSettled | BatchFailed

record batch_row =
  b_id :: jsstring
  b_order_ids :: "jsstring list"
  b_status :: batch_status
  b_content_hash :: "jsstring option"
  b_commitment_tx :: "jsstring option"
  b_created_at :: int

record settlement_result =
  sr_user :: jsstring
  sr_token_in :: jsstring
  sr_token_out :: jsstring
  sr_amount_in :: jsstring
  sr_amount_out :: jsstring
  sr_fee :: jsstring

datatype settlement_status = Settled | SettlementFailed

record settlement_row =
  s_id :: jsstring
  s_batch_id :: jsstring
  s_results :: "settlement_result list"
  s_status :: settlement_status
  s_settled_at :: int

section \<open>Validators\<close>

datatype validator_status = Active | Inactive

record validator_row =
  v_id :: nat
  v_address :: jsstring
  v_public_share :: jsstring
  v_status :: validator_status

end
