(* ===== verification/ValidatorService.thy ===== *)
theory ValidatorService
  imports ValidatorNetwork Models
begin

text \<open>
  \<open>backend/src/services/validatorService.ts\<close>: the registry of verification keys, the coordination
  of a threshold decryption over validators that may answer anything, and the checks on a
  decrypted order.
\<close>

section \<open>The decrypted order\<close>

text \<open>\<open>^[1-9][0-9]{0,37}$\<close> and \<open>^[A-Z0-9]{1,12}$\<close>.\<close>

definition is_INTEGER :: "jsstring \<Rightarrow> bool" where
  "is_INTEGER s \<longleftrightarrow> s \<noteq> [] \<and> 49 \<le> hd s \<and> hd s \<le> 57 \<and> list_all is_digit (tl s) \<and> length s \<le> 38"

definition is_SYMBOL :: "jsstring \<Rightarrow> bool" where
  "is_SYMBOL s \<longleftrightarrow> s \<noteq> [] \<and> length s \<le> 12 \<and> list_all (\<lambda>c. 65 \<le> c \<and> c \<le> 90 \<or> is_digit c) s"

definition str_prop :: "js_value \<Rightarrow> string \<Rightarrow> error + jsstring" where
  "str_prop raw k = ebind (get_prop raw (js k)) (\<lambda>v. case v of
     Some (VStr s) \<Rightarrow> Inr s | _ \<Rightarrow> Inl (MissingField (js k)))"

definition parseDecryptedOrder :: "jsstring \<Rightarrow> jsstring \<Rightarrow> js_number \<Rightarrow> error + decrypted_order" where
  "parseDecryptedOrder plaintext expectedUser expectedNonce =
     ebind (JSON_parse plaintext) (\<lambda>raw.
     ebind (str_prop raw ''user'') (\<lambda>user.
     ebind (str_prop raw ''token_in'') (\<lambda>token_in.
     ebind (str_prop raw ''token_out'') (\<lambda>token_out.
     ebind (str_prop raw ''amount_in'') (\<lambda>amount_in.
     ebind (str_prop raw ''min_amount_out'') (\<lambda>min_amount_out.
     if user \<noteq> expectedUser then Inl DifferentUser
     else ebind (get_prop raw (js ''nonce'')) (\<lambda>nonce.
     if nonce \<noteq> Some (VNum expectedNonce) then Inl DifferentNonce
     else if \<not> is_SYMBOL token_in \<or> \<not> is_SYMBOL token_out then Inl BadSymbol
     else if token_in = token_out then Inl SameToken
     else if \<not> is_INTEGER amount_in then Inl BadAmountIn
     else if min_amount_out \<noteq> js ''0'' \<and> \<not> is_INTEGER min_amount_out then Inl BadMinOut
     else Inr \<lparr>do_user = user, do_token_in = token_in, do_token_out = token_out,
       do_amount_in = amount_in, do_min_amount_out = min_amount_out\<rparr>)))))))"

section \<open>The registry\<close>

text \<open>One round of the loop: \<open>findOrCreate\<close> by address, then the update of a changed key.\<close>

definition sync_row :: "(int \<times> jsstring) list \<Rightarrow> validator_row list \<Rightarrow> int \<Rightarrow> error + validator_row list" where
  "sync_row verificationKeys rows i =
     (case map_of verificationKeys i of None \<Rightarrow> Inl ValidationError
      | Some verificationKey \<Rightarrow>
          (case List.find (\<lambda>r. v_address r = node_address i) rows of
             None \<Rightarrow> Inr (rows @ [\<lparr>v_id = length rows + 1, v_address = node_address i,
               v_public_share = verificationKey, v_status = Active\<rparr>])
           | Some row \<Rightarrow>
               if v_public_share row \<noteq> verificationKey
               then Inr (map (\<lambda>r. if v_address r = node_address i
                 then r\<lparr>v_public_share := verificationKey, v_status := Active\<rparr> else r) rows)
               else Inr rows))"

definition syncValidatorRegistry ::
  "'s node_ops \<Rightarrow> 's validator_network \<Rightarrow> validator_row list \<Rightarrow> error + validator_row list" where
  "syncValidatorRegistry ops net rows =
     efold (sync_row (vn_verificationKeys net)) rows (map (n_index ops) (vn_validators net))"

definition getActiveValidators :: "validator_row list \<Rightarrow> validator_row list" where
  "getActiveValidators rows = filter (\<lambda>r. v_status r = Active) rows"

record public_key_info =
  pi_threshold_pubkey :: jsstring
  pi_threshold :: nat
  pi_validator_count :: nat
  pi_scheme :: jsstring

definition getPublicKeyInfo :: "'s validator_network option \<Rightarrow> error + public_key_info" where
  "getPublicKeyInfo network = ebind (getValidatorNetwork network) (\<lambda>net.
     Inr \<lparr>pi_threshold_pubkey = vn_groupPublicKey net, pi_threshold = vn_threshold net,
       pi_validator_count = length (vn_validators net),
       pi_scheme = js ''ristretto255-elgamal-kem+hkdf-sha256+aes-256-gcm''\<rparr>)"

section \<open>Coordinating a decryption\<close>

text \<open>
  What a validator answers, as far as the coordinator looks at it: a list, some of whose entries
  have the shape of a share, or a value that is no array.  A local validator answers with
  \<open>local_answer\<close>.
\<close>

datatype share_answer = ShareList "decryption_share option list" | NotAList

datatype decryption_outcome = Opened jsstring decrypted_order | Rejected jsstring error

definition local_answer :: "(error + decryption_share list) \<Rightarrow> error + share_answer" where
  "local_answer r = ebind r (\<lambda>shares. Inr (ShareList (map Some shares)))"

text \<open>The checks on one entry, for the validator \<open>i\<close> with the registered key \<open>vk\<close>.\<close>

definition accepted ::
  "'p curve \<Rightarrow> (byte list \<Rightarrow> byte list) \<Rightarrow> int \<Rightarrow> jsstring \<Rightarrow> jsstring \<Rightarrow> decryption_share option \<Rightarrow> bool" where
  "accepted C H i vk ciphertext share = (case share of None \<Rightarrow> False
     | Some s \<Rightarrow> ds_index s = i \<and>
         (case parseCiphertext C ciphertext of Inl e \<Rightarrow> False | Inr p \<Rightarrow> verifyDecryptionShare C H s vk (pc_R p)))"

text \<open>\<open>validShares[k].push(share)\<close> for every accepted entry; one beyond the last order is ignored.\<close>

definition push_shares ::
  "'p curve \<Rightarrow> (byte list \<Rightarrow> byte list) \<Rightarrow> int \<Rightarrow> jsstring \<Rightarrow> jsstring list \<Rightarrow> decryption_share option list
     \<Rightarrow> decryption_share list list \<Rightarrow> decryption_share list list" where
  "push_shares C H i vk ciphertexts shares validShares =
     map (\<lambda>k. if k < length shares \<and> accepted C H i vk (ciphertexts ! k) (shares ! k)
        then validShares ! k @ [the (shares ! k)] else validShares ! k) [0..<length ciphertexts]"

definition add_response ::
  "'p curve \<Rightarrow> (byte list \<Rightarrow> byte list) \<Rightarrow> (jsstring \<times> jsstring) list \<Rightarrow> jsstring list
     \<Rightarrow> decryption_share list list \<Rightarrow> int \<times> (error + share_answer) \<Rightarrow> error + decryption_share list list" where
  "add_response C H registered ciphertexts validShares res =
     (case snd res of Inl e \<Rightarrow> Inr validShares
      | Inr shares \<Rightarrow>
          (case map_of (rev registered) (node_address (fst res)) of
             None \<Rightarrow> Inr validShares
           | Some vk \<Rightarrow>
               if vk = [] then Inr validShares
               else (case shares of NotAList \<Rightarrow> Inl TypeError
                 | ShareList ss \<Rightarrow> Inr (push_shares C H (fst res) vk ciphertexts ss validShares))))"

definition open_order ::
  "'p curve \<Rightarrow> webcrypto \<Rightarrow> nat \<Rightarrow> decryption_share list \<Rightarrow> order_row \<Rightarrow> decryption_outcome" where
  "open_order C W threshold validShares ord =
     (let r = (if length validShares < threshold then Inl (TooFewShares (length validShares) threshold)
          else ebind (combineShares C validShares threshold) (\<lambda>K.
            ebind (decryptWithSharedPoint C W (o_encrypted_data ord) K (o_user_address ord)) (\<lambda>plaintext.
              parseDecryptedOrder plaintext (o_user_address ord) (round_double (of_int (o_nonce ord))))))
      in case r of Inl e \<Rightarrow> Rejected (o_id ord) e | Inr d \<Rightarrow> Opened (o_id ord) d)"

text \<open>\<open>ask i\<close>: the settled answer of the validator with index \<open>i\<close> to the request for this batch.\<close>

definition coordinateDecryption ::
  "'p curve \<Rightarrow> webcrypto \<Rightarrow> (byte list \<Rightarrow> byte list) \<Rightarrow> 's node_ops \<Rightarrow> ('s \<Rightarrow> jsstring \<Rightarrow> jsstring list \<Rightarrow> error + share_answer)
     \<Rightarrow> 's validator_network option \<Rightarrow> validator_row list \<Rightarrow> jsstring \<Rightarrow> order_row list \<Rightarrow> error + decryption_outcome list" where
  "coordinateDecryption C W H ops ask network rows batchId orders =
     ebind (getValidatorNetwork network) (\<lambda>net.
     let registered = map (\<lambda>v. (v_address v, v_public_share v)) (getActiveValidators rows);
         ciphertexts = map o_encrypted_data orders;
         responses = map (\<lambda>v. (n_index ops v, ask v batchId ciphertexts)) (vn_validators net)
     in ebind (efold (add_response C H registered ciphertexts) (replicate (length orders) []) responses) (\<lambda>validShares.
       Inr (map2 (open_order C W (vn_threshold net)) validShares orders)))"

section \<open>The column of an order\<close>

text \<open>The registered key of a validator, and what its answer contributes to order \<open>k\<close>.\<close>

definition registered_key :: "validator_row list \<Rightarrow> int \<Rightarrow> jsstring option" where
  "registered_key rows i =
     (case map_of (rev (map (\<lambda>v. (v_address v, v_public_share v)) (getActiveValidators rows))) (node_address i) of
        None \<Rightarrow> None | Some vk \<Rightarrow> if vk = [] then None else Some vk)"

definition contribution ::
  "'p curve \<Rightarrow> (byte list \<Rightarrow> byte list) \<Rightarrow> validator_row list \<Rightarrow> jsstring \<Rightarrow> nat \<Rightarrow> int \<times> (error + share_answer) \<Rightarrow> decryption_share list" where
  "contribution C H rows ciphertext k res =
     (case (snd res, registered_key rows (fst res)) of
        (Inr (ShareList ss), Some vk) \<Rightarrow>
          if k < length ss \<and> accepted C H (fst res) vk ciphertext (ss ! k) then [the (ss ! k)] else []
      | _ \<Rightarrow> [])"

abbreviation registry :: "validator_row list \<Rightarrow> (jsstring \<times> jsstring) list" where
  "registry rows \<equiv> map (\<lambda>v. (v_address v, v_public_share v)) (getActiveValidators rows)"

definition well_formed_answer :: "validator_row list \<Rightarrow> int \<times> (error + share_answer) \<Rightarrow> bool" where
  "well_formed_answer rows res \<longleftrightarrow> snd res \<noteq> Inr NotAList \<or> registered_key rows (fst res) = None"

lemma add_response_Inr:
  assumes "length vs = length cts"
  shows "add_response C H (registry rows) cts vs res = Inr vs' \<longleftrightarrow>
    well_formed_answer rows res \<and> vs' = map (\<lambda>k. vs ! k @ contribution C H rows (cts ! k) k res) [0..<length cts]"
proof -
  have id: "map (\<lambda>k. vs ! k) [0..<length cts] = vs" using assms by (metis map_nth)
  note defs = add_response_def well_formed_answer_def contribution_def registered_key_def push_shares_def
  show ?thesis
  proof (cases "snd res")
    case (Inl e)
    then show ?thesis using id by (auto simp: defs)
  next
    case (Inr b)
    then show ?thesis
      by (cases b; cases "map_of (rev (registry rows)) (node_address (fst res))")
        (use id in \<open>auto simp: defs intro!: map_cong\<close>)
  qed
qed

lemma add_responses:
  assumes "length vs = length cts"
  shows "efold (add_response C H (registry rows) cts) vs rs =
    (if list_all (well_formed_answer rows) rs
     then Inr (map (\<lambda>k. vs ! k @ concat (map (contribution C H rows (cts ! k) k) rs)) [0..<length cts])
     else Inl TypeError)"
  using assms
proof (induction rs arbitrary: vs)
  case Nil
  then have "map (\<lambda>k. vs ! k) [0..<length cts] = vs" by (metis map_nth)
  then show ?case by simp
next
  case (Cons r rs)
  show ?case
  proof (cases "well_formed_answer rows r")
    case True
    let ?vs = "map (\<lambda>k. vs ! k @ contribution C H rows (cts ! k) k r) [0..<length cts]"
    have "add_response C H (registry rows) cts vs r = Inr ?vs"
      using add_response_Inr [OF Cons.prems] True by blast
    then show ?thesis using Cons.IH [of ?vs] True by (auto intro!: map_cong)
  next
    case False
    then have "add_response C H (registry rows) cts vs r = Inl TypeError"
      by (auto simp: add_response_def well_formed_answer_def registered_key_def split: option.splits if_splits)
    then show ?thesis using False by simp
  qed
qed

lemma coordinateDecryption_columns:
  "coordinateDecryption C W H ops ask (Some net) rows b orders =
    (let rs = map (\<lambda>v. (n_index ops v, ask v b (map o_encrypted_data orders))) (vn_validators net) in
     if list_all (well_formed_answer rows) rs
     then Inr (map (\<lambda>k. open_order C W (vn_threshold net)
         (concat (map (contribution C H rows (o_encrypted_data (orders ! k)) k) rs)) (orders ! k)) [0..<length orders])
     else Inl TypeError)"
proof -
  have m: "map2 f (map g [0..<length orders]) orders = map (\<lambda>k. f (g k) (orders ! k)) [0..<length orders]"
    for f :: "decryption_share list \<Rightarrow> order_row \<Rightarrow> decryption_outcome" and g
    by (rule nth_equalityI) simp_all
  have c: "map (\<lambda>k. replicate (length orders) [] ! k @ concat (map (contribution C H rows (map o_encrypted_data orders ! k) k) rs))
      [0..<length orders] = map (\<lambda>k. concat (map (contribution C H rows (o_encrypted_data (orders ! k)) k) rs)) [0..<length orders]"
    for rs by (rule map_cong) simp_all
  let ?rs = "map (\<lambda>v. (n_index ops v, ask v b (map o_encrypted_data orders))) (vn_validators net)"
  have "efold (add_response C H (registry rows) (map o_encrypted_data orders)) (replicate (length orders) []) ?rs =
    (if list_all (well_formed_answer rows) ?rs
     then Inr (map (\<lambda>k. concat (map (contribution C H rows (o_encrypted_data (orders ! k)) k) ?rs)) [0..<length orders])
     else Inl TypeError)"
    by (subst add_responses) (simp_all only: length_replicate length_map c)
  then show ?thesis
    by (cases "list_all (well_formed_answer rows) ?rs")
      (simp_all only: coordinateDecryption_def getValidatorNetwork_def option.case Let_def m ebind_simps if_True if_False)
qed

text \<open>Of the answers nothing matters but the entries at the order's position.\<close>

definition entry :: "nat \<Rightarrow> (error + share_answer) \<Rightarrow> decryption_share option" where
  "entry k a = (case a of Inr (ShareList ss) \<Rightarrow> if k < length ss then ss ! k else None | _ \<Rightarrow> None)"

lemma contribution_entry:
  "contribution C H rows ct k (i, a) = (case (entry k a, registered_key rows i) of
     (Some s, Some vk) \<Rightarrow> if accepted C H i vk ct (Some s) then [s] else [] | _ \<Rightarrow> [])"
  by (cases a) (auto simp: contribution_def entry_def accepted_def split: share_answer.split option.split)

lemma set_column:
  "set (concat (map (contribution C H rows ct k) (map (\<lambda>v. (n_index ops v, f v)) vs))) =
    {s. \<exists>v \<in> set vs. \<exists>vk. entry k (f v) = Some s \<and> registered_key rows (n_index ops v) = Some vk \<and>
       accepted C H (n_index ops v) vk ct (Some s)}"
  by (auto simp: contribution_entry split: option.splits if_splits) force+

section \<open>Lemmas on decrypted orders\<close>

lemma parseDecryptedOrder_Inr:
  "parseDecryptedOrder pt u n = Inr d \<Longrightarrow>
     do_user d = u \<and> is_SYMBOL (do_token_in d) \<and> is_SYMBOL (do_token_out d) \<and> do_token_in d \<noteq> do_token_out d \<and>
     is_INTEGER (do_amount_in d) \<and> (do_min_amount_out d = js ''0'' \<or> is_INTEGER (do_min_amount_out d))"
  by (auto simp: parseDecryptedOrder_def ebind_eq_Inr split: if_splits)

lemma digits_value: "list_all is_digit s \<Longrightarrow> 0 \<le> dec_value s \<and> dec_value s < 10 ^ length s"
proof (induction s rule: rev_induct)
  case (snoc c s)
  then have "0 \<le> dec_value s" "dec_value s + 1 \<le> 10 ^ length s" by simp_all
  moreover have "unat c \<le> 57" using snoc.prems by (simp add: is_digit_def word_le_nat_alt)
  then have "int (unat c - 48) \<le> 9" by arith
  ultimately show ?case by (simp add: dec_value_snoc)
qed (simp add: dec_value_def)

lemma dec_value_Cons: "dec_value (c # s) = int (unat c - 48) * 10 ^ length s + dec_value s"
proof (induction s rule: rev_induct)
  case (snoc d s)
  then show ?case using dec_value_snoc [of "c # s" d] by (simp add: dec_value_snoc)
qed (simp add: dec_value_def)

lemma INTEGER_value: "is_INTEGER s \<Longrightarrow> 0 < dec_value s \<and> dec_value s < 10 ^ 38"
proof -
  assume s: "is_INTEGER s"
  then obtain c t where c: "s = c # t" "49 \<le> c" "c \<le> 57" "list_all is_digit t" "length s \<le> 38"
    by (cases s) (auto simp: is_INTEGER_def)
  have "list_all is_digit s" using c by (auto simp: is_digit_def word_le_nat_alt)
  then have "dec_value s < 10 ^ length s" using digits_value by blast
  also have "\<dots> \<le> 10 ^ 38" using c(5) by (intro power_increasing) simp_all
  finally have "dec_value s < 10 ^ 38" .
  moreover have "49 \<le> unat c" using c(2) by (simp add: word_le_nat_alt)
  then have "0 < int (unat c - 48)" by arith
  then have "0 < int (unat c - 48) * 10 ^ length t" by (rule mult_pos_pos) simp
  then have "0 < dec_value s" using digits_value [OF c(4)] unfolding c(1) dec_value_Cons by linarith
  ultimately show ?thesis by blast
qed

section \<open>Honest validators\<close>

text \<open>
  Validator \<open>v\<close> answers the request as the code of \<open>LocalValidator\<close> does, with a key share of the
  polynomial \<open>cs\<close> and the key the registry lists for it; the proof of its entry \<open>k\<close> is not the one
  with response \<open>0\<close>, which the check refuses.
\<close>

definition honest ::
  "'p curve \<Rightarrow> (byte list \<Rightarrow> byte list) \<Rightarrow> 's node_ops \<Rightarrow> ('s \<Rightarrow> jsstring \<Rightarrow> jsstring list \<Rightarrow> error + share_answer)
     \<Rightarrow> validator_row list \<Rightarrow> int list \<Rightarrow> jsstring \<Rightarrow> jsstring list \<Rightarrow> nat \<Rightarrow> 's \<Rightarrow> bool" where
  "honest C H ops ask rows cs batchId cts k v \<longleftrightarrow>
     (\<exists>sha getBatch draws lv ks y ss.
        registered_key rows (n_index ops v) = Some (pt_toHex C (smul C (horner cs (n_index ops v)) (pt_BASE C))) \<and>
        ask v batchId cts = local_answer (requestDecryptionShares C H sha getBatch draws lv batchId (JArr (map JStr cts))) \<and>
        requestDecryptionShares C H sha getBatch draws lv batchId (JArr (map JStr cts)) = Inr ss \<and>
        lv_keyShare lv = Some ks \<and> \<not> lv_byzantine lv \<and> ks_index ks = n_index ops v \<and>
        hexToScalar (grp_order C) (ks_secret ks) = Inr y \<and> cgr (grp_order C) y (horner cs (n_index ops v)) \<and>
        ds_z (ss ! k) \<noteq> scalarToHex 0)"

lemma as_strings_JStr: "as_strings (JArr (map JStr cts)) = Some cts"
  by (simp add: as_strings_def list_all_iff comp_def)

lemma honest_share:
  assumes h: "honest C H ops ask rows cs b cts k v" and k: "k < length cts"
    and pc: "parseCiphertext C (cts ! k) = Inr pc" and s: "entry k (ask v b cts) = Some s"
  shows "\<exists>ks y draws. partialDecrypt C H draws ks (pc_R pc) = Inr s \<and> ds_z s \<noteq> scalarToHex 0 \<and>
    ks_index ks = n_index ops v \<and> hexToScalar (grp_order C) (ks_secret ks) = Inr y \<and>
    cgr (grp_order C) y (horner cs (n_index ops v))"
proof -
  obtain sha getBatch draws lv ks y ss where
    a: "ask v b cts = local_answer (Inr ss)"
    and r: "requestDecryptionShares C H sha getBatch draws lv b (JArr (map JStr cts)) = Inr ss"
    and ks: "lv_keyShare lv = Some ks" "\<not> lv_byzantine lv" "ks_index ks = n_index ops v"
    and y: "hexToScalar (grp_order C) (ks_secret ks) = Inr y" "cgr (grp_order C) y (horner cs (n_index ops v))"
    and z: "ds_z (ss ! k) \<noteq> scalarToHex 0"
    using h unfolding honest_def by metis
  from r have "partialDecrypt C H (draws k) ks (pc_R pc) = Inr (ss ! k) \<and> k < length ss"
  proof (rule requestDecryptionShares_Inr)
    fix keyShare cts' ledger
    assume "lv_keyShare lv = Some keyShare" "as_strings (JArr (map JStr cts)) = Some cts'" "length ss = length cts'"
      and e: "\<And>k. k < length cts' \<Longrightarrow> \<exists>p share. parseCiphertext C (cts' ! k) = Inr p \<and>
        partialDecrypt C H (draws k) keyShare (pc_R p) = Inr share \<and>
        ss ! k = (if lv_byzantine lv then share\<lparr>ds_share := pt_toHex C (pt_BASE C)\<rparr> else share)"
    then have "keyShare = ks" "cts' = cts" using ks(1) by (simp_all add: as_strings_JStr)
    then show ?thesis using e [of k] k pc ks(2) \<open>length ss = length cts'\<close> by auto
  qed
  moreover from this have "ss ! k = s" using s a by (simp add: entry_def local_answer_def)
  ultimately show ?thesis using ks(3) y z by blast
qed

lemma honest_answers:
  assumes h: "honest C H ops ask rows cs b cts k v" and k: "k < length cts"
  obtains s where "entry k (ask v b cts) = Some s"
    "registered_key rows (n_index ops v) = Some (pt_toHex C (smul C (horner cs (n_index ops v)) (pt_BASE C)))"
proof -
  obtain sha getBatch draws lv ss where
    reg: "registered_key rows (n_index ops v) = Some (pt_toHex C (smul C (horner cs (n_index ops v)) (pt_BASE C)))"
    and a: "ask v b cts = local_answer (Inr ss)"
    and r: "requestDecryptionShares C H sha getBatch draws lv b (JArr (map JStr cts)) = Inr ss"
    using h unfolding honest_def by metis
  from r have "k < length ss"
    by (rule requestDecryptionShares_Inr) (use k in \<open>simp add: as_strings_JStr\<close>)
  then show ?thesis using that [of "ss ! k"] a reg by (simp add: entry_def local_answer_def)
qed

lemma honest_entry:
  assumes C: "curve_laws C" and h: "honest C H ops ask rows cs b cts k v" and k: "k < length cts"
    and pc: "parseCiphertext C (cts ! k) = Inr pc" "pc_R pc = pt_toBytes C R"
  obtains s vk where "entry k (ask v b cts) = Some s" "registered_key rows (n_index ops v) = Some vk"
    "accepted C H (n_index ops v) vk (cts ! k) (Some s)" "ds_index s = n_index ops v"
proof -
  obtain s where s: "entry k (ask v b cts) = Some s"
    and reg: "registered_key rows (n_index ops v) = Some (pt_toHex C (smul C (horner cs (n_index ops v)) (pt_BASE C)))"
    by (rule honest_answers [OF h k])
  obtain ks y draws where pd: "partialDecrypt C H draws ks (pc_R pc) = Inr s" and z: "ds_z s \<noteq> scalarToHex 0"
    and ks: "ks_index ks = n_index ops v" and y: "hexToScalar (grp_order C) (ks_secret ks) = Inr y"
      "cgr (grp_order C) y (horner cs (n_index ops v))"
    using honest_share [OF h k pc(1) s] by blast
  have "ds_index s = ks_index ks"
    "verifyDecryptionShare C H s (pt_toHex C (smul C y (pt_BASE C))) (pc_R pc)"
    using partialDecrypt_complete [OF C pd y(1) pc(2)] z by simp_all
  then show ?thesis
    using that [OF s reg] smul_cgr [OF y(2), of "pt_BASE C"] pc ks by (simp add: accepted_def)
qed

lemma honest_point:
  assumes C: "curve_laws C" and h: "honest C H ops ask rows cs b cts k v" and k: "k < length cts"
    and pc: "parseCiphertext C (cts ! k) = Inr pc" "pc_R pc = pt_toBytes C R"
    and s: "entry k (ask v b cts) = Some s"
  shows "parsePoint C (ds_share s) = Inr (smul C (horner cs (n_index ops v)) R)"
proof -
  obtain ks y draws where pd: "partialDecrypt C H draws ks (pc_R pc) = Inr s"
    and y: "hexToScalar (grp_order C) (ks_secret ks) = Inr y" "cgr (grp_order C) y (horner cs (n_index ops v))"
    using honest_share [OF h k pc(1) s] by blast
  obtain Rp where "pc_R pc = pt_toBytes C Rp" "Rp \<noteq> pt_ZERO C" "ds_share s = pt_toHex C (smul C y Rp)"
    using partialDecrypt_point [OF C pd y(1)] by blast
  then have R: "R \<noteq> pt_ZERO C" "ds_share s = pt_toHex C (smul C y R)" using pc(2) C by (auto simp: toBytes_inj)
  have "smul C y R \<noteq> pt_ZERO C"
    using secret_point_nonzero [OF C _ _ R(1)] hexToScalar_range [OF y(1)] by simp
  then show ?thesis using R(2) C smul_cgr [OF y(2), of R] by (simp add: parsePoint_toHex)
qed

text \<open>A column all of whose shares carry the right point opens the order.\<close>

lemma open_order_ok:
  assumes C: "curve_laws C" and W: "webcrypto_laws W"
    and n: "length nonce = 12" and ct: "encryptOrder C W draws nonce m Y (o_user_address ord) = Inr (o_encrypted_data ord)"
    and Y: "Y = pt_toHex C (smul C (horner cs 0) (pt_BASE C))" "length cs \<le> t" "0 < t"
    and m: "well_formed m" "take 1 m \<noteq> [0xFEFF]"
    and pc: "parseCiphertext C (o_encrypted_data ord) = Inr pc" "pc_R pc = pt_toBytes C R"
    and enough: "t \<le> card (ds_index ` set shares)"
    and right: "\<And>s. s \<in> set shares \<Longrightarrow> parsePoint C (ds_share s) = Inr (smul C (horner cs (ds_index s)) R)"
    and idx: "\<And>s. s \<in> set shares \<Longrightarrow> 0 < ds_index s \<and> ds_index s < grp_order C"
  shows "open_order C W t shares ord =
    (case parseDecryptedOrder m (o_user_address ord) (round_double (of_int (o_nonce ord))) of
       Inl e \<Rightarrow> Rejected (o_id ord) e | Inr d \<Rightarrow> Opened (o_id ord) d)"
proof -
  have "card (ds_index ` set shares) \<le> length shares"
    using card_image_le [OF finite_set, of ds_index shares] card_length [of shares] by linarith
  moreover have "combineShares C shares t = Inr (pt_toBytes C (smul C (horner cs 0) R))"
    by (rule combineShares_poly [OF C Y(3) enough Y(2) right idx])
  moreover have "decryptWithSharedPoint C W (o_encrypted_data ord) (pt_toBytes C (smul C (horner cs 0) R)) (o_user_address ord) = Inr m"
    using decrypt_encrypt [OF C W n ct _ m pc] Y(1) C by (simp add: curve)
  ultimately show ?thesis using enough by (simp add: open_order_def)
qed

lemma honest_quorum_opens:
  assumes C: "curve_laws C" and W: "webcrypto_laws W"
    and key: "vn_groupPublicKey net = pt_toHex C (smul C (horner cs 0) (pt_BASE C))"
      "length cs \<le> vn_threshold net" "0 < vn_threshold net"
    and idx: "\<forall>v \<in> set (vn_validators net). 0 < n_index ops v \<and> n_index ops v < grp_order C"
    and k: "k < length orders" and nonce: "length nonce = NONCE_BYTES"
    and sealed: "encryptOrder C W draws nonce m (vn_groupPublicKey net) (o_user_address (orders ! k)) = Inr (o_encrypted_data (orders ! k))"
    and m: "well_formed m" "take 1 m \<noteq> [0xFEFF]"
    and pc: "parseCiphertext C (o_encrypted_data (orders ! k)) = Inr pc" "pc_R pc = pt_toBytes C R" "R \<noteq> pt_ZERO C"
    and hs: "hs \<subseteq> set (vn_validators net)" "vn_threshold net \<le> card (n_index ops ` hs)"
      "\<forall>v \<in> hs. honest C H ops ask rows cs batchId (map o_encrypted_data orders) k v"
    and arrays: "\<forall>v \<in> set (vn_validators net). ask v batchId (map o_encrypted_data orders) \<noteq> Inr NotAList"
    and sound: "\<forall>v \<in> set (vn_validators net). \<forall>s vk. entry k (ask v batchId (map o_encrypted_data orders)) = Some s \<longrightarrow>
      registered_key rows (n_index ops v) = Some vk \<longrightarrow>
      accepted C H (n_index ops v) vk (o_encrypted_data (orders ! k)) (Some s) \<longrightarrow>
      parsePoint C (ds_share s) = Inr (smul C (horner cs (n_index ops v)) R)"
  shows "\<exists>outcomes. coordinateDecryption C W H ops ask (Some net) rows batchId orders = Inr outcomes \<and>
    length outcomes = length orders \<and>
    outcomes ! k = (case parseDecryptedOrder m (o_user_address (orders ! k)) (round_double (of_int (o_nonce (orders ! k)))) of
       Inl e \<Rightarrow> Rejected (o_id (orders ! k)) e | Inr d \<Rightarrow> Opened (o_id (orders ! k)) d)"
proof -
  let ?cts = "map o_encrypted_data orders"
  let ?rs = "map (\<lambda>v. (n_index ops v, ask v batchId ?cts)) (vn_validators net)"
  let ?shares = "concat (map (contribution C H rows (o_encrypted_data (orders ! k)) k) ?rs)"
  have n: "length nonce = 12" using nonce by (simp add: NONCE_BYTES_def)
  have "list_all (well_formed_answer rows) ?rs"
    using arrays by (simp add: list_all_iff well_formed_answer_def)
  moreover have "open_order C W (vn_threshold net) ?shares (orders ! k) =
     (case parseDecryptedOrder m (o_user_address (orders ! k)) (round_double (of_int (o_nonce (orders ! k)))) of
       Inl e \<Rightarrow> Rejected (o_id (orders ! k)) e | Inr d \<Rightarrow> Opened (o_id (orders ! k)) d)"
  proof (rule open_order_ok [OF C W n sealed key m pc(1,2)])
    have "n_index ops ` hs \<subseteq> ds_index ` set ?shares"
    proof
      fix i assume "i \<in> n_index ops ` hs"
      then obtain v where v: "v \<in> hs" "i = n_index ops v" by blast
      then have h: "honest C H ops ask rows cs batchId ?cts k v" using hs(3) by blast
      have kc: "k < length ?cts" and pcc: "parseCiphertext C (?cts ! k) = Inr pc" using k pc(1) by simp_all
      obtain s vk where "entry k (ask v batchId ?cts) = Some s" "registered_key rows (n_index ops v) = Some vk"
        "accepted C H (n_index ops v) vk (?cts ! k) (Some s)" "ds_index s = i"
        using honest_entry [OF C h kc pcc pc(2)] v(2) by metis
      then have "s \<in> set ?shares" using v(1) hs(1) k unfolding set_column by auto
      then show "i \<in> ds_index ` set ?shares" using \<open>ds_index s = i\<close> by blast
    qed
    then have "card (n_index ops ` hs) \<le> card (ds_index ` set ?shares)" by (intro card_mono) simp_all
    then show "vn_threshold net \<le> card (ds_index ` set ?shares)" using hs(2) by simp
  next
    fix s assume "s \<in> set ?shares"
    then obtain v vk where v: "v \<in> set (vn_validators net)" "entry k (ask v batchId ?cts) = Some s"
      "registered_key rows (n_index ops v) = Some vk" "accepted C H (n_index ops v) vk (o_encrypted_data (orders ! k)) (Some s)"
      unfolding set_column by blast
    then have "ds_index s = n_index ops v" by (simp add: accepted_def)
    with v sound idx show "parsePoint C (ds_share s) = Inr (smul C (horner cs (ds_index s)) R)"
      "0 < ds_index s \<and> ds_index s < grp_order C" by auto
  qed
  ultimately show ?thesis using k by (simp add: coordinateDecryption_columns Let_def)
qed

section \<open>A sample network\<close>

text \<open>
  Three validators, known by their indices: \<open>1\<close> and \<open>2\<close> hold the shares of the sample key
  generation, \<open>3\<close> is unreachable.  One order is sealed to their group key.
\<close>

definition offline_ops :: "int node_ops" where
  "offline_ops = \<lparr>n_index = (\<lambda>i. i), n_begin = (\<lambda>i _ _ _. (i, Inl (HttpError 0))), n_deal = (\<lambda>i _. (i, Inl (HttpError 0))),
     n_receive = (\<lambda>i _ _. (i, Inl (HttpError 0))), n_respond = (\<lambda>i _. (i, Inl (HttpError 0))),
     n_finalize = (\<lambda>i _. (i, Inl (HttpError 0)))\<rparr>"

definition sample_net :: "int validator_network" where
  "sample_net = \<lparr>vn_threshold = 2, vn_groupPublicKey = pt_toHex sample_curve (smul sample_curve 7 (pt_BASE sample_curve)),
     vn_verificationKeys = [], vn_validators = [1, 2, 3], vn_mode = RemoteMode\<rparr>"

definition sample_rows :: "validator_row list" where
  "sample_rows = map (\<lambda>i. \<lparr>v_id = nat i, v_address = node_address i,
     v_public_share = pt_toHex sample_curve (smul sample_curve (horner [7, 3] i) (pt_BASE sample_curve)), v_status = Active\<rparr>) [1, 2, 3]"

definition sample_ask :: "(int \<Rightarrow> error + share_answer) \<Rightarrow> int \<Rightarrow> jsstring \<Rightarrow> jsstring list \<Rightarrow> error + share_answer" where
  "sample_ask other i b cts = (if i = 1 \<or> i = 2 then local_answer (requestDecryptionShares sample_curve (\<lambda>_. [7]) sample_sha256 (\<lambda>_. Inr None)
     (\<lambda>_. [sample_draw 3]) ((sample_validator i (Some (sample_key i)) None)\<lparr>lv_commitments := Some InsecureSkip\<rparr>)
     b (JArr (map JStr cts))) else other i)"

definition sample_text :: jsstring where
  "sample_text = JSON_stringify [(js ''user'', JStr (js ''GA'')), (js ''token_in'', JStr (js ''USDC'')), (js ''token_out'', JStr (js ''USDT'')),
     (js ''amount_in'', JStr (js ''15'')), (js ''min_amount_out'', JStr (js ''0'')), (js ''nonce'', JInt 9)]"

definition sample_decrypted :: decrypted_order where
  "sample_decrypted = \<lparr>do_user = js ''GA'', do_token_in = js ''USDC'', do_token_out = js ''USDT'',
     do_amount_in = js ''15'', do_min_amount_out = js ''0''\<rparr>"

definition sample_row :: "jsstring \<Rightarrow> order_row" where
  "sample_row ct = \<lparr>o_id = js ''o1'', o_user_address = js ''GA'', o_encrypted_data = ct,
     o_threshold_pubkey = vn_groupPublicKey sample_net, o_token_in = None, o_token_out = None, o_amount_in = None,
     o_min_amount_out = None, o_amount_out = None, o_failure_reason = None, o_nonce = 9, o_status = Batched,
     o_batch_id = Some (js ''b1''), o_created_at = 0\<rparr>"

lemma sample_text_wf: "well_formed sample_text" "take 1 sample_text \<noteq> [0xFEFF]"
proof -
  have "ascii sample_text"
    unfolding sample_text_def by (rule ascii_object) (simp add: js_def)
  then show "well_formed sample_text" "take 1 sample_text \<noteq> [0xFEFF]"
    unfolding sample_text_def by (rule stringify_wf)+
qed

lemma sample_text_parse: "parseDecryptedOrder sample_text (js ''GA'') (round_double (of_int 9)) = Inr sample_decrypted"
proof -
  let ?v = "VObj [(js ''user'', VStr (js ''GA'')), (js ''token_in'', VStr (js ''USDC'')),
     (js ''token_out'', VStr (js ''USDT'')), (js ''amount_in'', VStr (js ''15'')), (js ''min_amount_out'', VStr (js ''0'')),
     (js ''nonce'', VNum (Fin 9))]"
  have p: "JSON_parse sample_text = Inr ?v"
    unfolding sample_text_def
    by (rule parses_object) (use parses_int [of 9] in \<open>simp_all add: parses_string\<close>)
  have r: "round_double (of_int 9) = Fin 9" using round_double_int [of 9] by simp
  have g: "str_prop ?v ''user'' = Inr (js ''GA'')" "str_prop ?v ''token_in'' = Inr (js ''USDC'')"
    "str_prop ?v ''token_out'' = Inr (js ''USDT'')" "str_prop ?v ''amount_in'' = Inr (js ''15'')"
    "str_prop ?v ''min_amount_out'' = Inr (js ''0'')" "get_prop ?v (js ''nonce'') = Inr (Some (VNum (Fin 9)))"
    by (simp_all add: str_prop_def get_prop_def js_def)
  have c: "is_SYMBOL (js ''USDC'')" "is_SYMBOL (js ''USDT'')" "js ''USDC'' \<noteq> js ''USDT''" "is_INTEGER (js ''15'')"
    by (simp_all add: js_def is_SYMBOL_def is_INTEGER_def is_digit_def)
  show ?thesis
    by (simp only: parseDecryptedOrder_def p ebind_simps g r c simp_thms if_False if_True sample_decrypted_def)
qed

text \<open>The sealed sample order and what the two validators answer about it.\<close>

lemma sample_sealed:
  obtains ct pc R where "encryptOrder sample_curve sample_crypto [sample_draw 4] (replicate 12 9) sample_text
      (vn_groupPublicKey sample_net) (js ''GA'') = Inr ct"
    "parseCiphertext sample_curve ct = Inr pc" "pc_R pc = pt_toBytes sample_curve R" "R \<noteq> pt_ZERO sample_curve"
proof -
  have "(7 :: int) mod 101 \<noteq> 0" by simp
  from sample_encryptOrder_ok [OF this, of sample_crypto "replicate 12 9" sample_text "js ''GA''"]
  obtain ct where ct: "encryptOrder sample_curve sample_crypto [sample_draw 4] (replicate 12 9) sample_text
      (vn_groupPublicKey sample_net) (js ''GA'') = Inr ct" by (auto simp: sample_net_def)
  show ?thesis using that order_parses [OF sample_curve_laws sample_crypto_laws _ ct] ct by auto
qed

lemma sample_registered: "i = 1 \<or> i = 2 \<or> i = 3 \<Longrightarrow> registered_key sample_rows i =
    Some (pt_toHex sample_curve (smul sample_curve (horner [7, 3] i) (pt_BASE sample_curve)))"
proof -
  have ne: "node_address 1 \<noteq> node_address 2" "node_address 1 \<noteq> node_address 3" "node_address 2 \<noteq> node_address 3"
    by (simp_all add: node_address_def int_to_string_def nat_to_string_def radix_digits.simps digit_unit_def)
  have nonempty: "bytesToHex (zp_toBytes P) \<noteq> []" for P
    using length_toBytes [OF sample_curve_laws, of P] length_bytesToHex [of "zp_toBytes P"] by auto
  show "i = 1 \<or> i = 2 \<or> i = 3 \<Longrightarrow> ?thesis"
    by (auto simp: registered_key_def sample_rows_def getActiveValidators_def ne ne [symmetric] nonempty)
qed

lemma sample_honest:
  assumes "i = 1 \<or> i = 2" and ct: "parseCiphertext sample_curve ct = Inr pc" "pc_R pc = pt_toBytes sample_curve R" "R \<noteq> pt_ZERO sample_curve"
  shows "honest sample_curve (\<lambda>_. [7]) offline_ops (sample_ask other) sample_rows [7, 3] b [ct] 0 i"
proof -
  let ?lv = "(sample_validator i (Some (sample_key i)) None)\<lparr>lv_commitments := Some InsecureSkip\<rparr>"
  have dr: "randomScalar (grp_order sample_curve) [sample_draw 3] = Inr 3"
    using sample_randomScalar [of 3 "[]"] by simp
  have y: "hexToScalar (grp_order sample_curve) (ks_secret (sample_key i)) = Inr (7 + 3 * i)"
    using assms(1) sample_hexToScalar [of "7 + 3 * i"] by (auto simp: sample_key_def)
  obtain s where s: "partialDecrypt sample_curve (\<lambda>_. [7]) [sample_draw 3] (sample_key i) (pc_R pc) = Inr s"
    using partialDecrypt_ok [OF sample_curve_laws y ct(2,3) dr] by blast
  have r: "requestDecryptionShares sample_curve (\<lambda>_. [7]) sample_sha256 (\<lambda>_. Inr None) (\<lambda>_. [sample_draw 3]) ?lv b
      (JArr (map JStr [ct])) = Inr [s]"
    using s ct(1) by (simp add: requestDecryptionShares_def as_strings_def)
  have "ds_z s = scalarToHex (modL 101 (3 + 7 * (7 + 3 * i)))"
    using s y ct(2,3) multiply_ok [OF sample_curve_laws] dr assms(1) parsePoint_bytes [OF sample_curve_laws, of R]
    by (auto simp: partialDecrypt_def Let_def sample_challenge modL_mod)
  then have "ds_z s \<noteq> scalarToHex 0"
    using sample_toHex_eq_0 [of "modL 101 (3 + 7 * (7 + 3 * i))"] assms(1) by (auto simp: modL_mod)
  moreover have "ks_index (sample_key i) = i" by (simp add: sample_key_def)
  moreover have "cgr (grp_order sample_curve) (7 + 3 * i) (horner [7, 3] i)" by (simp add: mult.commute)
  moreover have "registered_key sample_rows i =
      Some (pt_toHex sample_curve (smul sample_curve (horner [7, 3] i) (pt_BASE sample_curve)))"
    using sample_registered assms(1) by blast
  moreover have "sample_ask other i b [ct] = local_answer (requestDecryptionShares sample_curve (\<lambda>_. [7]) sample_sha256 (\<lambda>_. Inr None)
      (\<lambda>_. [sample_draw 3]) ?lv b (JArr (map JStr [ct])))"
    using assms(1) by (auto simp: sample_ask_def)
  ultimately show ?thesis
    unfolding honest_def using r y
    by (intro exI [of _ sample_sha256] exI [of _ "\<lambda>_. Inr None"] exI [of _ "\<lambda>_. [sample_draw 3]"] exI [of _ ?lv]
        exI [of _ "sample_key i"] exI [of _ "7 + 3 * i"] exI [of _ "[s]"])
      (simp add: offline_ops_def)
qed

text \<open>The coordinator opens the sample order, unless validator 3 answers with a non-array.\<close>

lemma sample_opened:
  assumes "entry 0 (other 3) = None" and "other 3 \<noteq> Inr NotAList"
  shows "\<exists>ct. encryptOrder sample_curve sample_crypto [sample_draw 4] (replicate 12 9) sample_text
      (vn_groupPublicKey sample_net) (js ''GA'') = Inr ct \<and>
    (\<exists>outcomes. coordinateDecryption sample_curve sample_crypto (\<lambda>_. [7]) offline_ops (sample_ask other)
       (Some sample_net) sample_rows (js ''b1'') [sample_row ct] = Inr outcomes \<and>
     length outcomes = 1 \<and> outcomes ! 0 = Opened (js ''o1'') sample_decrypted)"
proof -
  obtain ct pc R where ct: "encryptOrder sample_curve sample_crypto [sample_draw 4] (replicate 12 9) sample_text
      (vn_groupPublicKey sample_net) (js ''GA'') = Inr ct"
    and pc: "parseCiphertext sample_curve ct = Inr pc" "pc_R pc = pt_toBytes sample_curve R" "R \<noteq> pt_ZERO sample_curve"
    by (rule sample_sealed)
  have h: "honest sample_curve (\<lambda>_. [7]) offline_ops (sample_ask other) sample_rows [7, 3] (js ''b1'') [ct] 0 i"
    if "i = 1 \<or> i = 2" for i using sample_honest [OF that pc] .
  have right: "parsePoint sample_curve (ds_share s) = Inr (smul sample_curve (horner [7, 3] i) R)"
    if i: "i = 1 \<or> i = 2" and s: "entry 0 (sample_ask other i (js ''b1'') [ct]) = Some s" for i s
    using honest_point [OF sample_curve_laws h [OF i], of pc R s] s pc by (simp add: offline_ops_def)
  have "\<exists>outcomes. coordinateDecryption sample_curve sample_crypto (\<lambda>_. [7]) offline_ops (sample_ask other) (Some sample_net) sample_rows (js ''b1'') [sample_row ct]
        = Inr outcomes \<and> length outcomes = length [sample_row ct] \<and>
      outcomes ! 0 = (case parseDecryptedOrder sample_text (o_user_address ([sample_row ct] ! 0)) (round_double (of_int (o_nonce ([sample_row ct] ! 0)))) of
         Inl e \<Rightarrow> Rejected (o_id ([sample_row ct] ! 0)) e | Inr d \<Rightarrow> Opened (o_id ([sample_row ct] ! 0)) d)"
  proof (rule honest_quorum_opens [where cs = "[7, 3]" and hs = "{1, 2}" and R = R and nonce = "replicate 12 9" and draws = "[sample_draw 4]"])
    show "\<forall>v \<in> {1, 2}. honest sample_curve (\<lambda>_. [7]) offline_ops (sample_ask other) sample_rows [7, 3] (js ''b1'')
        (map o_encrypted_data [sample_row ct]) 0 v"
      using h by (simp add: sample_row_def)
    show "\<forall>v \<in> set (vn_validators sample_net). \<forall>s vk. entry 0 (sample_ask other v (js ''b1'') (map o_encrypted_data [sample_row ct])) = Some s \<longrightarrow>
        registered_key sample_rows (n_index offline_ops v) = Some vk \<longrightarrow>
        accepted sample_curve (\<lambda>_. [7]) (n_index offline_ops v) vk (o_encrypted_data ([sample_row ct] ! 0)) (Some s) \<longrightarrow>
        parsePoint sample_curve (ds_share s) = Inr (smul sample_curve (horner [7, 3] (n_index offline_ops v)) R)"
      using right [of 1] right [of 2] assms(1) by (auto simp: sample_net_def offline_ops_def sample_row_def sample_ask_def)
    show "\<forall>v \<in> set (vn_validators sample_net). sample_ask other v (js ''b1'') (map o_encrypted_data [sample_row ct]) \<noteq> Inr NotAList"
      using assms(2) by (auto simp: sample_net_def sample_ask_def local_answer_def ebind_def split: sum.split)
  qed (use sample_curve_laws sample_crypto_laws ct pc sample_text_wf in
        \<open>simp_all add: sample_net_def sample_row_def offline_ops_def NONCE_BYTES_def\<close>)
  then show ?thesis using ct sample_text_parse by (auto simp: sample_row_def)
qed

lemmas sample_opened_offline = sample_opened [of "\<lambda>_. Inl (HttpError 0)", simplified entry_def sum.case, simplified]

section \<open>Properties\<close>





text \<open>One order does not affect another.  The outcome of an order depends only on the network, the
  registry, the order's own row and the entries of the validators' answers at its position:
  two decryptions that agree on these agree on the outcome, whatever the other orders of the
  batch, the other entries and the batch id.\<close>

theorem outcome_depends_on_column:
  assumes "coordinateDecryption C W H ops ask (Some net) rows b orders = Inr outcomes"
    and "coordinateDecryption C W H ops ask' (Some net) rows b' orders' = Inr outcomes'"
    and "k < length orders" and "k < length orders'" and "orders ! k = orders' ! k"
    and "\<forall>v \<in> set (vn_validators net).
      entry k (ask v b (map o_encrypted_data orders)) = entry k (ask' v b' (map o_encrypted_data orders'))"
  shows "outcomes ! k = outcomes' ! k"
proof -
  let ?col = "\<lambda>ask b orders. map (\<lambda>v. contribution C H rows (o_encrypted_data (orders' ! k)) k
      (n_index ops v, ask v b (map o_encrypted_data orders))) (vn_validators net)"
  have "?col ask b orders = ?col ask' b' orders'"
    using assms(6) by (simp add: contribution_entry)
  moreover have "outcomes ! k = open_order C W (vn_threshold net) (concat (?col ask b orders)) (orders' ! k)"
    using assms(1,3,5) by (auto simp: coordinateDecryption_columns Let_def comp_def split: if_splits)
  moreover have "outcomes' ! k = open_order C W (vn_threshold net) (concat (?col ask' b' orders')) (orders' ! k)"
    using assms(2,4) by (auto simp: coordinateDecryption_columns Let_def comp_def split: if_splits)
  ultimately show ?thesis by (simp only:)
qed

text \<open>Whether validator 3 is unreachable or answers with an empty list, the outcome is the same.\<close>

theorem outcome_depends_on_column_witness:
  "\<exists>ct outcomes outcomes'. coordinateDecryption sample_curve sample_crypto (\<lambda>_. [7]) offline_ops (sample_ask (\<lambda>_. Inl (HttpError 0)))
       (Some sample_net) sample_rows (js ''b1'') [sample_row ct] = Inr outcomes \<and>
     coordinateDecryption sample_curve sample_crypto (\<lambda>_. [7]) offline_ops (sample_ask (\<lambda>_. Inr (ShareList [])))
       (Some sample_net) sample_rows (js ''b1'') [sample_row ct] = Inr outcomes' \<and> outcomes ! 0 = outcomes' ! 0"
proof -
  obtain ct outcomes where ct: "encryptOrder sample_curve sample_crypto [sample_draw 4] (replicate 12 9) sample_text
      (vn_groupPublicKey sample_net) (js ''GA'') = Inr ct"
    and o: "coordinateDecryption sample_curve sample_crypto (\<lambda>_. [7]) offline_ops (sample_ask (\<lambda>_. Inl (HttpError 0)))
       (Some sample_net) sample_rows (js ''b1'') [sample_row ct] = Inr outcomes"
    using sample_opened_offline by blast
  obtain outcomes' where o': "coordinateDecryption sample_curve sample_crypto (\<lambda>_. [7]) offline_ops (sample_ask (\<lambda>_. Inr (ShareList [])))
       (Some sample_net) sample_rows (js ''b1'') [sample_row ct] = Inr outcomes'"
    using sample_opened [of "\<lambda>_. Inr (ShareList [])"] ct by (auto simp: entry_def)
  have "outcomes ! 0 = outcomes' ! 0"
    by (rule outcome_depends_on_column [OF o o']) (simp_all add: sample_net_def sample_ask_def entry_def)
  with o o' show ?thesis by blast
qed

text \<open>C32: The promise that bad answers are dropped has an exception.  If one registered validator answers
  with a JSON value that is no array (an error page with status 200 is read as an empty
  object), the decryption of the whole batch throws, whatever the others answer.\<close>

theorem non_array_answer_blocks_batch:
  assumes "v \<in> set (vn_validators net)" and "registered_key rows (n_index ops v) = Some vk"
    and "ask v batchId (map o_encrypted_data orders) = Inr NotAList"
  shows "coordinateDecryption C W H ops ask (Some net) rows batchId orders = Inl TypeError"
  using assms by (auto simp: coordinateDecryption_columns Let_def list_all_iff well_formed_answer_def)

theorem non_array_answer_blocks_batch_witness:
  "coordinateDecryption sample_curve sample_crypto (\<lambda>_. [7]) offline_ops (sample_ask (\<lambda>_. Inr NotAList))
     (Some sample_net) sample_rows (js ''b1'') [sample_row []] = Inl TypeError"
proof -
  have i: "n_index offline_ops 3 = 3" by (simp add: offline_ops_def)
  have v: "3 \<in> set (vn_validators sample_net)" by (simp add: sample_net_def)
  have a: "sample_ask (\<lambda>_. Inr NotAList) 3 (js ''b1'') (map o_encrypted_data [sample_row []]) = Inr NotAList"
    by (simp only: sample_ask_def) simp
  have "\<exists>vk. registered_key sample_rows (n_index offline_ops 3) = Some vk"
    unfolding i using sample_registered [of 3] by blast
  then obtain vk where "registered_key sample_rows (n_index offline_ops 3) = Some vk" ..
  from non_array_answer_blocks_batch [where ask = "sample_ask (\<lambda>_. Inr NotAList)", OF v this a] show ?thesis .
qed

end
