(* ===== verification/Settlement.thy ===== *)
theory Settlement
  imports ValidatorService "HOL-Library.List_Lexorder"
begin

text \<open>
  The settlement half of \<open>backend/src/services/sorobanService.ts\<close>: the arguments of the contract
  call \<open>settle_batch\<close> and what becomes of its result.  The Stellar SDK is not part of the
  repository: whether a string is an address is an argument, the values of the SDK's
  constructors are the terms of \<open>sc_val\<close>.
\<close>

datatype sc_val =
    ScAddress jsstring
  | ScI128 int
  | ScBytes "byte list"
  | ScVec "sc_val list"
  | ScMap "(jsstring \<times> sc_val) list"

definition resolveTokenAddress :: "(jsstring \<times> jsstring) list \<Rightarrow> jsstring \<Rightarrow> error + jsstring" where
  "resolveTokenAddress tokenContracts symbol =
     (case map_of tokenContracts symbol of None \<Rightarrow> Inl (AppError 500)
      | Some a \<Rightarrow> if a = [] then Inl (AppError 500) else Inr a)"

text \<open>The entries of a struct, sorted by their keys.\<close>

definition scMap :: "(jsstring \<times> sc_val) list \<Rightarrow> sc_val" where
  "scMap entries = ScMap (sort_key fst entries)"

definition newAddress :: "(jsstring \<Rightarrow> bool) \<Rightarrow> jsstring \<Rightarrow> error + sc_val" where
  "newAddress is_address s = (if is_address s then Inr (ScAddress s) else Inl TypeError)"

definition decryptedOrderToScVal ::
  "(jsstring \<Rightarrow> bool) \<Rightarrow> (jsstring \<times> jsstring) list \<Rightarrow> decrypted_order \<Rightarrow> error + sc_val" where
  "decryptedOrderToScVal is_address tokenContracts ord =
     ebind (newAddress is_address (do_user ord)) (\<lambda>user.
     ebind (ebind (resolveTokenAddress tokenContracts (do_token_in ord)) (newAddress is_address)) (\<lambda>token_in.
     ebind (ebind (resolveTokenAddress tokenContracts (do_token_out ord)) (newAddress is_address)) (\<lambda>token_out.
       Inr (scMap [(js ''user'', user), (js ''token_in'', token_in), (js ''token_out'', token_out),
         (js ''amount_in'', ScI128 (dec_value (do_amount_in ord))),
         (js ''min_amount_out'', ScI128 (dec_value (do_min_amount_out ord)))]))))"

text \<open>A struct of the returned vector, as \<open>scValToNative\<close> presents it.\<close>

record native_result =
  nr_user :: jsstring
  nr_token_in :: jsstring
  nr_token_out :: jsstring
  nr_amount_in :: int
  nr_amount_out :: int
  nr_fee :: int

definition nativeSettlementResult :: "native_result \<Rightarrow> settlement_result" where
  "nativeSettlementResult r = \<lparr>sr_user = nr_user r, sr_token_in = nr_token_in r, sr_token_out = nr_token_out r,
     sr_amount_in = int_to_string 10 (nr_amount_in r), sr_amount_out = int_to_string 10 (nr_amount_out r),
     sr_fee = int_to_string 10 (nr_fee r)\<rparr>"

record soroban_config =
  sc_settlementEngineContract :: jsstring
  sc_tokenContracts :: "(jsstring \<times> jsstring) list"

text \<open>\<open>call\<close>: what the contract call with these arguments returns or throws.\<close>

definition soroban_settleBatch ::
  "soroban_config \<Rightarrow> (jsstring \<Rightarrow> bool) \<Rightarrow> (byte list \<Rightarrow> sc_val \<Rightarrow> error + native_result list)
     \<Rightarrow> jsstring \<Rightarrow> decrypted_order list \<Rightarrow> error + settlement_result list" where
  "soroban_settleBatch cfg is_address call batchId orders =
     (if sc_settlementEngineContract cfg = [] then
        Inr (map (\<lambda>d. \<lparr>sr_user = do_user d, sr_token_in = do_token_in d, sr_token_out = do_token_out d,
          sr_amount_in = do_amount_in d, sr_amount_out = js ''0'', sr_fee = js ''0''\<rparr>) orders)
      else
        ebind (emap (decryptedOrderToScVal is_address (sc_tokenContracts cfg)) orders) (\<lambda>vals.
        ebind (batchIdBytes batchId) (\<lambda>b.
        ebind (call b (ScVec vals)) (\<lambda>raw. Inr (map nativeSettlementResult raw)))))"

text \<open>The struct the contract receives: the keys of \<open>DecryptedOrder\<close> in the order Soroban requires.\<close>

lemma decryptedOrderToScVal_Inr:
  "decryptedOrderToScVal is_address tcs ord = Inr v \<longleftrightarrow>
     (\<exists>a b. resolveTokenAddress tcs (do_token_in ord) = Inr a \<and> resolveTokenAddress tcs (do_token_out ord) = Inr b \<and>
        is_address (do_user ord) \<and> is_address a \<and> is_address b \<and>
        v = ScMap [(js ''amount_in'', ScI128 (dec_value (do_amount_in ord))),
          (js ''min_amount_out'', ScI128 (dec_value (do_min_amount_out ord))),
          (js ''token_in'', ScAddress a), (js ''token_out'', ScAddress b), (js ''user'', ScAddress (do_user ord))])"
proof -
  have s: "scMap [(js ''user'', u), (js ''token_in'', a), (js ''token_out'', b), (js ''amount_in'', c), (js ''min_amount_out'', d)]
      = ScMap [(js ''amount_in'', c), (js ''min_amount_out'', d), (js ''token_in'', a), (js ''token_out'', b), (js ''user'', u)]"
    for u a b c d by (simp add: scMap_def js_def)
  show ?thesis
    by (auto simp: decryptedOrderToScVal_def s newAddress_def ebind_eq_Inr split: if_splits)
qed

end
