(* ===== verification/Controllers.thy ===== *)
theory Controllers
  imports Settlement
begin

text \<open>
  \<open>backend/src/controllers\<close> and \<open>services/batchingService.ts\<close> on the database.  Each handler is the
  sequence of its database calls, which are the definitions of the first sections; other
  requests may run between two of them (theory \<open>Interleaving\<close>), the composed handlers are the run
  without interruption.  Random ids and the clock are arguments.
\<close>

record db =
  db_orders :: "order_row list"
  db_batches :: "batch_row list"
  db_settlements :: "settlement_row list"

definition map_orders :: "(order_row \<Rightarrow> order_row) \<Rightarrow> db \<Rightarrow> db" where
  "map_orders f d = d\<lparr>db_orders := map f (db_orders d)\<rparr>"

definition set_batch_status :: "jsstring \<Rightarrow> batch_status \<Rightarrow> db \<Rightarrow> db" where
  "set_batch_status b st d = d\<lparr>db_batches := map (\<lambda>r. if b_id r = b then r\<lparr>b_status := st\<rparr> else r) (db_batches d)\<rparr>"

definition find_order :: "jsstring \<Rightarrow> db \<Rightarrow> order_row option" where
  "find_order i d = List.find (\<lambda>o'. o_id o' = i) (db_orders d)"

definition find_batch :: "jsstring \<Rightarrow> db \<Rightarrow> batch_row option" where
  "find_batch b d = List.find (\<lambda>r. b_id r = b) (db_batches d)"

section \<open>Orders\<close>

definition submit_check :: "jsstring \<Rightarrow> submit_order_body \<Rightarrow> db \<Rightarrow> error + unit" where
  "submit_check userAddress orderData d =
     (if list_ex (\<lambda>o'. o_user_address o' = userAddress \<and> o_nonce o' = so_nonce orderData) (db_orders d)
      then Inl (AppError 409) else Inr ())"

definition new_order :: "jsstring \<Rightarrow> int \<Rightarrow> jsstring \<Rightarrow> submit_order_body \<Rightarrow> order_row" where
  "new_order i now userAddress orderData = \<lparr>o_id = i, o_user_address = userAddress,
     o_encrypted_data = so_encrypted_data orderData, o_threshold_pubkey = so_threshold_pubkey orderData,
     o_token_in = None, o_token_out = None, o_amount_in = None, o_min_amount_out = None, o_amount_out = None,
     o_failure_reason = None, o_nonce = so_nonce orderData, o_status = Pending, o_batch_id = None, o_created_at = now\<rparr>"

definition submit_insert :: "jsstring \<Rightarrow> int \<Rightarrow> jsstring \<Rightarrow> submit_order_body \<Rightarrow> db \<Rightarrow> db" where
  "submit_insert i now userAddress orderData d = d\<lparr>db_orders := db_orders d @ [new_order i now userAddress orderData]\<rparr>"

definition submitOrder :: "jsstring \<Rightarrow> int \<Rightarrow> jsstring \<Rightarrow> submit_order_body \<Rightarrow> db \<Rightarrow> db \<times> (error + order_row)" where
  "submitOrder i now userAddress orderData d = (case submit_check userAddress orderData d of
     Inl e \<Rightarrow> (d, Inl e)
   | Inr _ \<Rightarrow> (submit_insert i now userAddress orderData d, Inr (new_order i now userAddress orderData)))"

definition getOrder :: "jsstring \<Rightarrow> db \<Rightarrow> error + order_row" where
  "getOrder i d = (case find_order i d of None \<Rightarrow> Inl (AppError 404) | Some r \<Rightarrow> Inr r)"

definition getUserOrders :: "jsstring \<Rightarrow> db \<Rightarrow> order_row list" where
  "getUserOrders userAddress d = rev (sort_key o_created_at (filter (\<lambda>o'. o_user_address o' = userAddress) (db_orders d)))"

section \<open>Batches\<close>

text \<open>\<open>createBatch\<close> up to the sealing: the distinct ids and their ciphertexts.\<close>

definition create_find :: "jsstring list \<Rightarrow> db \<Rightarrow> error + (jsstring list \<times> jsstring list)" where
  "create_find orderIds d =
     (if orderIds = [] then Inl (AppError 400)
      else
        (let uniqueIds = js_unique orderIds;
             orders = filter (\<lambda>o'. o_id o' \<in> set uniqueIds \<and> o_status o' = Pending) (db_orders d)
         in if length orders \<noteq> length uniqueIds then Inl (AppError 400)
            else Inr (uniqueIds, map (\<lambda>i. case map_of (rev (map (\<lambda>o'. (o_id o', o_encrypted_data o')) orders)) i of
                None \<Rightarrow> [] | Some c \<Rightarrow> c) uniqueIds)))"

definition create_record :: "jsstring \<Rightarrow> int \<Rightarrow> jsstring list \<Rightarrow> jsstring \<Rightarrow> jsstring option \<Rightarrow> db \<Rightarrow> db" where
  "create_record i now orderIds contentHash txHash d =
     d\<lparr>db_batches := db_batches d @ [\<lparr>b_id = i, b_order_ids = orderIds, b_status = Created,
        b_content_hash = Some contentHash, b_commitment_tx = txHash, b_created_at = now\<rparr>]\<rparr>"

definition create_mark :: "jsstring \<Rightarrow> jsstring list \<Rightarrow> db \<Rightarrow> db" where
  "create_mark i orderIds = map_orders (\<lambda>o'. if o_id o' \<in> set orderIds
     then o'\<lparr>o_status := Batched, o_batch_id := Some i\<rparr> else o')"

text \<open>\<open>seal\<close> is \<open>sorobanService.createBatch\<close> on the state of the ledger.\<close>

type_synonym 'l sealer = "'l \<Rightarrow> jsstring \<Rightarrow> jsstring list \<Rightarrow> 'l \<times> (error + (jsstring \<times> jsstring option))"

definition createBatch ::
  "'l sealer \<Rightarrow> jsstring \<Rightarrow> int \<Rightarrow> jsstring list \<Rightarrow> 'l \<Rightarrow> db \<Rightarrow> 'l \<times> db \<times> (error + batch_row)" where
  "createBatch seal i now orderIds l d =
     (case create_find orderIds d of Inl e \<Rightarrow> (l, d, Inl e)
      | Inr (uniqueIds, ciphertexts) \<Rightarrow>
          (case seal l i ciphertexts of
             (l', Inl e) \<Rightarrow> (l', d, Inl e)
           | (l', Inr (contentHash, txHash)) \<Rightarrow>
               (let d' = create_record i now uniqueIds contentHash txHash d in
                (l', create_mark i uniqueIds d', Inr (last (db_batches d'))))))"

definition getBatch :: "jsstring \<Rightarrow> db \<Rightarrow> error + batch_row" where
  "getBatch b d = (case find_batch b d of None \<Rightarrow> Inl (AppError 404) | Some r \<Rightarrow> Inr r)"

definition getBatches :: "db \<Rightarrow> batch_row list" where
  "getBatches d = rev (sort_key b_created_at (db_batches d))"

section \<open>Settlement\<close>

definition getSettlementResults :: "jsstring \<Rightarrow> db \<Rightarrow> error + settlement_row" where
  "getSettlementResults b d = (case List.find (\<lambda>r. s_batch_id r = b) (db_settlements d) of
     None \<Rightarrow> Inl (AppError 404) | Some r \<Rightarrow> Inr r)"

text \<open>The conditional update that claims a batch.\<close>

definition claimable :: "jsstring \<Rightarrow> batch_row \<Rightarrow> bool" where
  "claimable b r \<longleftrightarrow> b_id r = b \<and> b_status r \<in> {Created, BatchFailed}"

definition settle_claim :: "jsstring \<Rightarrow> db \<Rightarrow> db \<times> nat" where
  "settle_claim b d =
     (d\<lparr>db_batches := map (\<lambda>r. if claimable b r then r\<lparr>b_status := Submitted\<rparr> else r) (db_batches d)\<rparr>,
      length (filter (claimable b) (db_batches d)))"

text \<open>The batch's orders in the order that was sealed.\<close>

definition settle_orders :: "batch_row \<Rightarrow> db \<Rightarrow> order_row list" where
  "settle_orders batch d =
     (let rows = filter (\<lambda>o'. o_id o' \<in> set (b_order_ids batch)) (db_orders d);
          byId = map_of (rev (map (\<lambda>o'. (o_id o', o')) rows))
      in concat (map (\<lambda>i. case byId i of None \<Rightarrow> [] | Some r \<Rightarrow> [r]) (b_order_ids batch)))"

definition decrypted_of :: "decryption_outcome list \<Rightarrow> (jsstring \<times> decrypted_order) list" where
  "decrypted_of outcomes = concat (map (\<lambda>r. case r of Opened i d \<Rightarrow> [(i, d)] | Rejected i e \<Rightarrow> []) outcomes)"

definition fill_order :: "decrypted_order \<Rightarrow> jsstring option \<Rightarrow> order_row \<Rightarrow> order_row" where
  "fill_order d amount_out r = r\<lparr>o_token_in := Some (do_token_in d), o_token_out := Some (do_token_out d),
     o_amount_in := Some (do_amount_in d), o_min_amount_out := Some (do_min_amount_out d),
     o_amount_out := amount_out, o_status := OrderSettled\<rparr>"

text \<open>The updates of the orders: the \<open>k\<close>-th decrypted one gets the \<open>k\<close>-th result.\<close>

definition settle_write ::
  "bool \<Rightarrow> decryption_outcome list \<Rightarrow> settlement_result list \<Rightarrow> db \<Rightarrow> db" where
  "settle_write onchain outcomes results d =
     (let settled = fold (\<lambda>(k, i, ord). map_orders (\<lambda>r. if o_id r = i
             then fill_order ord (if onchain \<and> k < length results then Some (sr_amount_out (results ! k)) else None) r else r))
           (enumerate 0 (decrypted_of outcomes)) d
      in fold (\<lambda>out. case out of Opened i ord \<Rightarrow> id
           | Rejected i e \<Rightarrow> map_orders (\<lambda>r. if o_id r = i then r\<lparr>o_status := OrderFailed, o_failure_reason := Some e\<rparr> else r))
         outcomes settled)"

definition settle_create :: "jsstring \<Rightarrow> int \<Rightarrow> jsstring \<Rightarrow> settlement_result list \<Rightarrow> db \<Rightarrow> db" where
  "settle_create i now b results d = d\<lparr>db_settlements := db_settlements d @
     [\<lparr>s_id = i, s_batch_id = b, s_results = results, s_status = Settled, s_settled_at = now\<rparr>]\<rparr>"

text \<open>
  \<open>decrypt\<close> and \<open>chain\<close> are the calls to the validator service and to the chain.  An exception
  after the claim sets the batch to \<open>failed\<close>.
\<close>

definition settleBatch ::
  "bool \<Rightarrow> (jsstring \<Rightarrow> order_row list \<Rightarrow> error + decryption_outcome list)
     \<Rightarrow> (jsstring \<Rightarrow> decrypted_order list \<Rightarrow> error + settlement_result list)
     \<Rightarrow> jsstring \<Rightarrow> int \<Rightarrow> jsstring \<Rightarrow> db \<Rightarrow> db \<times> (error + settlement_row)" where
  "settleBatch onchain decrypt chain i now batchId d =
     (case find_batch batchId d of None \<Rightarrow> (d, Inl (AppError 404))
      | Some batch \<Rightarrow>
          (let (d1, claimed) = settle_claim batchId d in
           if claimed = 0 then (d1, Inl (AppError 409))
           else
             (case ebind (decrypt batchId (settle_orders batch d1)) (\<lambda>outcomes.
                let decrypted = decrypted_of outcomes in
                ebind (if decrypted \<noteq> [] then chain batchId (map snd decrypted) else Inr []) (\<lambda>results.
                  Inr (outcomes, results))) of
                Inl e \<Rightarrow> (set_batch_status batchId BatchFailed d1, Inl e)
              | Inr (outcomes, results) \<Rightarrow>
                  (let d2 = settle_create i now batchId results (settle_write onchain outcomes results d1)
                   in (set_batch_status batchId BatchSettled d2, Inr (last (db_settlements d2)))))))"

section \<open>The batching loop\<close>

definition pending_ids :: "nat \<Rightarrow> db \<Rightarrow> jsstring list" where
  "pending_ids batchSize d =
     map o_id (take batchSize (sort_key o_created_at (filter (\<lambda>o'. o_status o' = Pending) (db_orders d))))"

text \<open>One tick: \<open>None\<close> when nothing is pending, else the batch, sealed and settled.\<close>

definition runOnce ::
  "'l sealer \<Rightarrow> bool \<Rightarrow> (jsstring \<Rightarrow> order_row list \<Rightarrow> error + decryption_outcome list)
     \<Rightarrow> (jsstring \<Rightarrow> decrypted_order list \<Rightarrow> error + settlement_result list)
     \<Rightarrow> nat \<Rightarrow> jsstring \<Rightarrow> jsstring \<Rightarrow> int \<Rightarrow> 'l \<Rightarrow> db \<Rightarrow> 'l \<times> db \<times> (error + batch_row option)" where
  "runOnce seal onchain decrypt chain batchSize batchId settlementId now l d =
     (let ids = pending_ids batchSize d in
      if ids = [] then (l, d, Inr None)
      else
        (case createBatch seal batchId now ids l d of
           (l1, d1, Inl e) \<Rightarrow> (l1, d1, Inl e)
         | (l1, d1, Inr batch) \<Rightarrow>
             (case settleBatch onchain decrypt chain settlementId now (b_id batch) d1 of
                (d2, Inl e) \<Rightarrow> (l1, d2, Inl e)
              | (d2, Inr _) \<Rightarrow> (l1, d2, Inr (Some batch)))))"

text \<open>The module's \<open>timer\<close> and \<open>running\<close>.\<close>

record batching =
  bt_timer :: bool
  bt_running :: bool

definition startBatchingLoop :: "batching \<Rightarrow> batching" where
  "startBatchingLoop b = (if bt_timer b then b else b\<lparr>bt_timer := True\<rparr>)"

definition stopBatchingLoop :: "batching \<Rightarrow> batching" where
  "stopBatchingLoop b = (if bt_timer b then b\<lparr>bt_timer := False\<rparr> else b)"

text \<open>A tick of the timer, whether it starts a run, and the end of a run, however it ends.\<close>

definition tick :: "batching \<Rightarrow> batching \<times> bool" where
  "tick b = (if bt_timer b \<and> \<not> bt_running b then (b\<lparr>bt_running := True\<rparr>, True) else (b, False))"

definition tick_done :: "batching \<Rightarrow> batching" where
  "tick_done b = b\<lparr>bt_running := False\<rparr>"

end
