(* ===== verification/Interleaving.thy ===== *)
theory Interleaving
  imports Controllers "HOL-Library.Multiset"
begin

text \<open>
  Requests to the backend run concurrently: between two database calls of one handler other
  handlers run.  A state is the database, the ledger that batches are sealed on, and the multiset
  of handlers in flight, each a task that holds the handler's local variables at its next call.
  A step is one call of one task, a failure of a call inside the \<open>try\<close> of \<open>settleBatch\<close>, or the end
  of the process, which loses all tasks and keeps database and ledger.
\<close>

section \<open>Steps\<close>

datatype task =
    TSubmit jsstring submit_order_body
  | TSeal jsstring "jsstring list" "jsstring list"
  | TRecord jsstring "jsstring list" "jsstring list" jsstring "jsstring option"
  | TMark jsstring "jsstring list"
  | TClaim batch_row
  | TLoad batch_row
  | TDecrypt batch_row "order_row list"
  | TExecute batch_row "decryption_outcome list"
  | TWrite batch_row "decryption_outcome list" "settlement_result list"
  | TStore batch_row "settlement_result list"
  | TClose batch_row
  | TAbort batch_row

record 'l backend =
  be_db :: db
  be_ledger :: 'l
  be_tasks :: "task multiset"
  be_used :: "jsstring set"

text \<open>The tasks inside the \<open>try\<close> of \<open>settleBatch\<close>, with the batch.\<close>

fun in_try :: "task \<Rightarrow> batch_row option" where
  "in_try (TLoad r) = Some r"
| "in_try (TDecrypt r _) = Some r"
| "in_try (TExecute r _) = Some r"
| "in_try (TWrite r _ _) = Some r"
| "in_try (TStore r _) = Some r"
| "in_try (TClose r) = Some r"
| "in_try _ = None"

type_synonym 'l seal_calls =
  "'l \<Rightarrow> jsstring \<Rightarrow> jsstring list \<Rightarrow> 'l \<Rightarrow> error + (jsstring \<times> jsstring option) \<Rightarrow> bool"

text \<open>
  \<open>seal\<close>, \<open>decrypts\<close> and \<open>chain\<close> relate a call to the results it may have; \<open>lstep\<close> are the steps of the
  ledger that others cause; \<open>be_used\<close> holds the random ids drawn so far.
\<close>

inductive be_step ::
  "'l seal_calls \<Rightarrow> ('l \<Rightarrow> 'l \<Rightarrow> bool) \<Rightarrow> (jsstring \<Rightarrow> order_row list \<Rightarrow> error + decryption_outcome list \<Rightarrow> bool)
     \<Rightarrow> (jsstring \<Rightarrow> decrypted_order list \<Rightarrow> error + settlement_result list \<Rightarrow> bool) \<Rightarrow> bool
     \<Rightarrow> 'l backend \<Rightarrow> 'l backend \<Rightarrow> bool"
  for seal lstep decrypts chain onchain where
  submit_check: "submit_check u body (be_db s) = Inr () \<Longrightarrow>
    be_step seal lstep decrypts chain onchain s (s\<lparr>be_tasks := add_mset (TSubmit u body) (be_tasks s)\<rparr>)"
| submit_insert: "be_tasks s = add_mset (TSubmit u body) ts \<Longrightarrow> i \<notin> be_used s \<Longrightarrow>
    be_step seal lstep decrypts chain onchain s
      (s\<lparr>be_db := submit_insert i now u body (be_db s), be_tasks := ts, be_used := insert i (be_used s)\<rparr>)"
| create_find: "create_find ids (be_db s) = Inr (us, cts) \<Longrightarrow> i \<notin> be_used s \<Longrightarrow>
    be_step seal lstep decrypts chain onchain s
      (s\<lparr>be_tasks := add_mset (TSeal i us cts) (be_tasks s), be_used := insert i (be_used s)\<rparr>)"
| create_seal: "be_tasks s = add_mset (TSeal i us cts) ts \<Longrightarrow> seal (be_ledger s) i cts l' (Inr (h, tx)) \<Longrightarrow>
    be_step seal lstep decrypts chain onchain s
      (s\<lparr>be_ledger := l', be_tasks := add_mset (TRecord i us cts h tx) ts\<rparr>)"
| create_seal_fails: "be_tasks s = add_mset (TSeal i us cts) ts \<Longrightarrow> seal (be_ledger s) i cts l' (Inl e) \<Longrightarrow>
    be_step seal lstep decrypts chain onchain s (s\<lparr>be_ledger := l', be_tasks := ts\<rparr>)"
| create_record: "be_tasks s = add_mset (TRecord i us cts h tx) ts \<Longrightarrow>
    be_step seal lstep decrypts chain onchain s
      (s\<lparr>be_db := create_record i now us h tx (be_db s), be_tasks := add_mset (TMark i us) ts\<rparr>)"
| create_mark: "be_tasks s = add_mset (TMark i us) ts \<Longrightarrow>
    be_step seal lstep decrypts chain onchain s (s\<lparr>be_db := create_mark i us (be_db s), be_tasks := ts\<rparr>)"
| settle_find: "find_batch b (be_db s) = Some r \<Longrightarrow>
    be_step seal lstep decrypts chain onchain s (s\<lparr>be_tasks := add_mset (TClaim r) (be_tasks s)\<rparr>)"
| settle_claim: "be_tasks s = add_mset (TClaim r) ts \<Longrightarrow> settle_claim (b_id r) (be_db s) = (d', n) \<Longrightarrow> n \<noteq> 0 \<Longrightarrow>
    be_step seal lstep decrypts chain onchain s (s\<lparr>be_db := d', be_tasks := add_mset (TLoad r) ts\<rparr>)"
| settle_refuse: "be_tasks s = add_mset (TClaim r) ts \<Longrightarrow> settle_claim (b_id r) (be_db s) = (d', 0) \<Longrightarrow>
    be_step seal lstep decrypts chain onchain s (s\<lparr>be_tasks := ts\<rparr>)"
| settle_load: "be_tasks s = add_mset (TLoad r) ts \<Longrightarrow>
    be_step seal lstep decrypts chain onchain s (s\<lparr>be_tasks := add_mset (TDecrypt r (settle_orders r (be_db s))) ts\<rparr>)"
| settle_decrypt: "be_tasks s = add_mset (TDecrypt r rows) ts \<Longrightarrow> decrypts (b_id r) rows (Inr outcomes) \<Longrightarrow>
    be_step seal lstep decrypts chain onchain s (s\<lparr>be_tasks := add_mset (TExecute r outcomes) ts\<rparr>)"
| settle_execute: "be_tasks s = add_mset (TExecute r outcomes) ts \<Longrightarrow>
    (if decrypted_of outcomes = [] then results = [] else chain (b_id r) (map snd (decrypted_of outcomes)) (Inr results)) \<Longrightarrow>
    be_step seal lstep decrypts chain onchain s (s\<lparr>be_tasks := add_mset (TWrite r outcomes results) ts\<rparr>)"
| settle_write: "be_tasks s = add_mset (TWrite r outcomes results) ts \<Longrightarrow>
    be_step seal lstep decrypts chain onchain s
      (s\<lparr>be_db := settle_write onchain outcomes results (be_db s), be_tasks := add_mset (TStore r results) ts\<rparr>)"
| settle_create: "be_tasks s = add_mset (TStore r results) ts \<Longrightarrow> i \<notin> be_used s \<Longrightarrow>
    be_step seal lstep decrypts chain onchain s
      (s\<lparr>be_db := settle_create i now (b_id r) results (be_db s), be_tasks := add_mset (TClose r) ts, be_used := insert i (be_used s)\<rparr>)"
| settle_close: "be_tasks s = add_mset (TClose r) ts \<Longrightarrow>
    be_step seal lstep decrypts chain onchain s (s\<lparr>be_db := set_batch_status (b_id r) BatchSettled (be_db s), be_tasks := ts\<rparr>)"
| settle_throw: "be_tasks s = add_mset t ts \<Longrightarrow> in_try t = Some r \<Longrightarrow>
    be_step seal lstep decrypts chain onchain s (s\<lparr>be_tasks := add_mset (TAbort r) ts\<rparr>)"
| settle_catch: "be_tasks s = add_mset (TAbort r) ts \<Longrightarrow>
    be_step seal lstep decrypts chain onchain s (s\<lparr>be_db := set_batch_status (b_id r) BatchFailed (be_db s), be_tasks := ts\<rparr>)"
| ledger: "lstep (be_ledger s) l' \<Longrightarrow> be_step seal lstep decrypts chain onchain s (s\<lparr>be_ledger := l'\<rparr>)"
| crash: "be_step seal lstep decrypts chain onchain s (s\<lparr>be_tasks := {#}\<rparr>)"

inductive_cases be_stepE: "be_step seal lstep decrypts chain onchain s s'"

definition new_backend :: "'l \<Rightarrow> 'l backend" where
  "new_backend l = \<lparr>be_db = \<lparr>db_orders = [], db_batches = [], db_settlements = []\<rparr>, be_ledger = l,
     be_tasks = {#}, be_used = {}\<rparr>"

definition reachable ::
  "'l seal_calls \<Rightarrow> ('l \<Rightarrow> 'l \<Rightarrow> bool) \<Rightarrow> (jsstring \<Rightarrow> order_row list \<Rightarrow> error + decryption_outcome list \<Rightarrow> bool)
     \<Rightarrow> (jsstring \<Rightarrow> decrypted_order list \<Rightarrow> error + settlement_result list \<Rightarrow> bool) \<Rightarrow> bool \<Rightarrow> 'l \<Rightarrow> 'l backend \<Rightarrow> bool" where
  "reachable seal lstep decrypts chain onchain l = (be_step seal lstep decrypts chain onchain)\<^sup>*\<^sup>* (new_backend l)"

section \<open>The tables\<close>

definition order_ids :: "db \<Rightarrow> jsstring set" where
  "order_ids d = o_id ` set (db_orders d)"

definition batch_ids :: "db \<Rightarrow> jsstring set" where
  "batch_ids d = b_id ` set (db_batches d)"

text \<open>What of an order or a batch never changes.\<close>

definition order_keys :: "db \<Rightarrow> (jsstring \<times> jsstring) list" where
  "order_keys d = map (\<lambda>o'. (o_id o', o_encrypted_data o')) (db_orders d)"

definition batch_keys :: "db \<Rightarrow> (jsstring \<times> jsstring list) list" where
  "batch_keys d = map (\<lambda>r. (b_id r, b_order_ids r)) (db_batches d)"

definition batch_states :: "db \<Rightarrow> (jsstring \<times> batch_status) list" where
  "batch_states d = map (\<lambda>r. (b_id r, b_status r)) (db_batches d)"

lemma map_orders_simps [simp]:
  "db_batches (map_orders f d) = db_batches d" "db_settlements (map_orders f d) = db_settlements d"
  by (simp_all add: map_orders_def)

lemma order_keys_map_orders:
  "(\<And>r. o_id (f r) = o_id r \<and> o_encrypted_data (f r) = o_encrypted_data r) \<Longrightarrow> order_keys (map_orders f d) = order_keys d"
  by (simp add: order_keys_def map_orders_def)

lemma order_keys_fold:
  "(\<And>x d. x \<in> set xs \<Longrightarrow> order_keys (g x d) = order_keys d) \<Longrightarrow> order_keys (fold g xs d) = order_keys d"
  by (induction xs arbitrary: d) simp_all

lemma db_batches_fold:
  "(\<And>x d. x \<in> set xs \<Longrightarrow> db_batches (g x d) = db_batches d) \<Longrightarrow> db_batches (fold g xs d) = db_batches d"
  by (induction xs arbitrary: d) simp_all

lemma settle_write_keeps [simp]:
  "order_keys (settle_write oc outs res d) = order_keys d" "db_batches (settle_write oc outs res d) = db_batches d"
  unfolding settle_write_def Let_def
  by (subst order_keys_fold, fastforce intro!: order_keys_map_orders split: decryption_outcome.split,
      subst order_keys_fold, auto intro!: order_keys_map_orders simp: fill_order_def)
    (subst db_batches_fold, simp split: decryption_outcome.split, subst db_batches_fold, auto)

lemma order_keys_simps [simp]:
  "order_keys (create_mark i us d) = order_keys d" "order_keys (create_record i now us h tx d) = order_keys d"
  "order_keys (set_batch_status b st d) = order_keys d" "order_keys (settle_create i now b res d) = order_keys d"
  "order_keys (submit_insert i now u body d) = order_keys d @ [(i, so_encrypted_data body)]"
  by (simp_all add: create_mark_def order_keys_map_orders create_record_def set_batch_status_def settle_create_def
      submit_insert_def new_order_def) (simp_all add: order_keys_def)

lemma db_batches_simps [simp]:
  "db_batches (create_mark i us d) = db_batches d" "db_batches (settle_create i now b res d) = db_batches d"
  "db_batches (submit_insert i now u body d) = db_batches d"
  by (simp_all add: create_mark_def settle_create_def submit_insert_def)

lemma batch_keys_simps [simp]:
  "batch_keys (create_mark i us d) = batch_keys d" "batch_keys (settle_create i now b res d) = batch_keys d"
  "batch_keys (submit_insert i now u body d) = batch_keys d" "batch_keys (settle_write oc outs res d) = batch_keys d"
  by (simp_all add: batch_keys_def)

lemma settle_claim_eq: "settle_claim b d = (d', n) \<Longrightarrow>
    order_keys d' = order_keys d \<and> batch_keys d' = batch_keys d \<and>
    batch_states d' = map (\<lambda>(i, st). (i, if i = b \<and> st \<in> {Created, BatchFailed} then Submitted else st)) (batch_states d) \<and>
    (n \<noteq> 0 \<longleftrightarrow> (\<exists>st \<in> {Created, BatchFailed}. (b, st) \<in> set (batch_states d)))"
  by (auto simp: settle_claim_def order_keys_def batch_keys_def batch_states_def claimable_def filter_empty_conv) force+

lemma set_status_eq:
  "batch_keys (set_batch_status b st d) = batch_keys d"
  "batch_states (set_batch_status b st d) = map (\<lambda>(i, st'). (i, if i = b then st else st')) (batch_states d)"
  by (auto simp: set_batch_status_def batch_keys_def batch_states_def)

lemma record_eq:
  "batch_keys (create_record i now us h tx d) = batch_keys d @ [(i, us)]"
  "batch_states (create_record i now us h tx d) = batch_states d @ [(i, Created)]"
  by (simp_all add: create_record_def batch_keys_def batch_states_def)

section \<open>One settlement at a time\<close>

definition task_batch :: "task \<Rightarrow> batch_row option" where
  "task_batch t = (case t of TAbort r \<Rightarrow> Some r | _ \<Rightarrow> in_try t)"

definition settling :: "jsstring \<Rightarrow> task \<Rightarrow> bool" where
  "settling b t \<longleftrightarrow> (\<exists>r. task_batch t = Some r \<and> b_id r = b)"

fun creating :: "task \<Rightarrow> jsstring option" where
  "creating (TSeal i _ _) = Some i"
| "creating (TRecord i _ _ _ _) = Some i"
| "creating _ = None"

text \<open>The batches that claims in flight are about exist.\<close>

fun claiming :: "task \<Rightarrow> batch_row option" where
  "claiming (TClaim r) = Some r"
| "claiming _ = None"

text \<open>What a task says of the ids and of the batches, and what no two tasks share.\<close>

definition task_ok :: "(jsstring \<times> batch_status) list \<Rightarrow> jsstring set \<Rightarrow> task \<Rightarrow> bool" where
  "task_ok st used t \<longleftrightarrow>
     (\<forall>i. creating t = Some i \<longrightarrow> i \<in> used \<and> i \<notin> fst ` set st) \<and>
     (\<forall>r. claiming t = Some r \<longrightarrow> b_id r \<in> fst ` set st) \<and>
     (\<forall>b. settling b t \<longrightarrow> (b, Submitted) \<in> set st)"

definition single :: "task multiset \<Rightarrow> bool" where
  "single ts \<longleftrightarrow> (\<forall>i. size {#t \<in># ts. creating t = Some i#} \<le> 1) \<and> (\<forall>b. size {#t \<in># ts. settling b t#} \<le> 1)"

definition excl_inv :: "'l backend \<Rightarrow> bool" where
  "excl_inv s \<longleftrightarrow>
     distinct (map fst (batch_states (be_db s))) \<and> fst ` set (batch_states (be_db s)) \<subseteq> be_used s \<and>
     single (be_tasks s) \<and> (\<forall>t \<in># be_tasks s. task_ok (batch_states (be_db s)) (be_used s) t)"

lemma settling_simps [simp]:
  "settling b (TSubmit u body) = False" "settling b (TSeal i us cts) = False" "settling b (TRecord i us cts h tx) = False"
  "settling b (TMark i us) = False" "settling b (TClaim r) = False" "settling b (TLoad r) = (b_id r = b)"
  "settling b (TDecrypt r rows) = (b_id r = b)" "settling b (TExecute r outs) = (b_id r = b)"
  "settling b (TWrite r outs res) = (b_id r = b)" "settling b (TStore r res) = (b_id r = b)"
  "settling b (TClose r) = (b_id r = b)" "settling b (TAbort r) = (b_id r = b)"
  by (simp_all add: settling_def task_batch_def)

lemma excl_new: "excl_inv (new_backend l)"
  by (simp add: excl_inv_def new_backend_def batch_states_def single_def)

lemma single_mono: "single ts \<Longrightarrow> ts' \<subseteq># ts \<Longrightarrow> single ts'"
  unfolding single_def by (meson le_trans multiset_filter_mono size_mset_mono)

lemma single_replace:
  assumes "single (add_mset t ts)" "\<And>b. settling b t' \<Longrightarrow> settling b t" "\<And>i. creating t' = Some i \<Longrightarrow> creating t = Some i"
  shows "single (add_mset t' ts)"
  unfolding single_def
proof (intro conjI allI)
  fix i
  have "size {#x \<in># add_mset t' ts. creating x = Some i#} \<le> size {#x \<in># add_mset t ts. creating x = Some i#}"
    using assms(3) [of i] by simp
  then show "size {#x \<in># add_mset t' ts. creating x = Some i#} \<le> 1"
    using assms(1) le_trans unfolding single_def by blast
next
  fix b
  have "size {#x \<in># add_mset t' ts. settling b x#} \<le> size {#x \<in># add_mset t ts. settling b x#}"
    using assms(2) [of b] by simp
  then show "size {#x \<in># add_mset t' ts. settling b x#} \<le> 1"
    using assms(1) le_trans unfolding single_def by blast
qed

lemma task_ok_mono: "task_ok st used t \<Longrightarrow> used \<subseteq> used' \<Longrightarrow> task_ok st used' t"
  by (auto simp: task_ok_def)

lemma excl_invI:
  assumes "excl_inv s" "batch_states (be_db s') = batch_states (be_db s)" "be_used s \<subseteq> be_used s'" "single (be_tasks s')"
    and "\<And>t. t \<in># be_tasks s' \<Longrightarrow> t \<in># be_tasks s \<or> task_ok (batch_states (be_db s)) (be_used s') t"
  shows "excl_inv s'"
  using assms unfolding excl_inv_def assms(2) by (meson subset_trans task_ok_mono)

text \<open>A step that leaves the batches alone and replaces a task by one of the same kind, or drops it.\<close>

lemma excl_replace:
  assumes "excl_inv s" "be_tasks s = add_mset t ts" "batch_states (be_db s') = batch_states (be_db s)"
    and "be_used s \<subseteq> be_used s'" "be_tasks s' = add_mset t' ts"
    and "\<And>b. settling b t' \<Longrightarrow> settling b t" "\<And>i. creating t' = Some i \<Longrightarrow> creating t = Some i" "claiming t' = None"
  shows "excl_inv s'"
proof (rule excl_invI [OF assms(1,3,4)])
  show "single (be_tasks s')"
    using assms(1) single_replace [of t ts t'] assms(6,7) by (simp add: excl_inv_def assms(2,5))
  have "task_ok (batch_states (be_db s)) (be_used s) t" using assms(1) by (simp add: excl_inv_def assms(2))
  then have "task_ok (batch_states (be_db s)) (be_used s) t'"
    using assms(6-8) unfolding task_ok_def by simp
  then show "x \<in># be_tasks s \<or> task_ok (batch_states (be_db s)) (be_used s') x" if "x \<in># be_tasks s'" for x
    using that task_ok_mono [OF _ assms(4)] by (auto simp: assms(2,5))
qed

lemma excl_drop:
  assumes "excl_inv s" "be_tasks s' \<subseteq># be_tasks s" "batch_states (be_db s') = batch_states (be_db s)" "be_used s \<subseteq> be_used s'"
  shows "excl_inv s'"
proof (rule excl_invI [OF assms(1,3,4)])
  show "single (be_tasks s')" using assms(1,2) single_mono by (auto simp: excl_inv_def)
qed (use mset_subset_eqD [OF assms(2)] in blast)

lemma excl_add:
  assumes "excl_inv s" "batch_states (be_db s') = batch_states (be_db s)" "be_used s \<subseteq> be_used s'"
    and "be_tasks s' = add_mset t (be_tasks s)" "task_ok (batch_states (be_db s)) (be_used s') t"
    and "\<And>b. \<not> settling b t" "\<And>i x. creating t = Some i \<Longrightarrow> x \<in># be_tasks s \<Longrightarrow> creating x \<noteq> Some i"
  shows "excl_inv s'"
proof (rule excl_invI [OF assms(1-3)])
  have "size {#x \<in># add_mset t (be_tasks s). creating x = Some i#} \<le> 1" for i
  proof (cases "creating t = Some i")
    case True
    then have "{#x \<in># be_tasks s. creating x = Some i#} = {#}" using assms(7) by auto
    then show ?thesis using True by simp
  next
    case False
    then show ?thesis using assms(1) by (simp add: excl_inv_def single_def)
  qed
  then show "single (be_tasks s')"
    using assms(1,6) by (simp add: excl_inv_def single_def assms(4))
qed (use assms(4,5) in auto)

lemma single_rest:
  assumes "size {#y \<in># add_mset t ts. P y#} \<le> 1" "P t" "x \<in># ts"
  shows "\<not> P x"
proof -
  have "{#y \<in># ts. P y#} = {#}" using assms(1,2) by simp
  then show ?thesis using assms(3) by auto
qed

lemma single_creating: "single (add_mset t ts) \<Longrightarrow> creating t = Some i \<Longrightarrow> x \<in># ts \<Longrightarrow> creating x \<noteq> Some i"
  using single_rest [of "\<lambda>y. creating y = Some i" t ts x] unfolding single_def by blast

lemma single_settling: "single (add_mset t ts) \<Longrightarrow> settling b t \<Longrightarrow> x \<in># ts \<Longrightarrow> \<not> settling b x"
  using single_rest [of "settling b" t ts x] unfolding single_def by blast

lemma map_state_ids:
  "map fst (map (\<lambda>(i, x). (i, g i x)) st) = map fst st" "fst ` set (map (\<lambda>(i, x). (i, g i x)) st) = fst ` set st"
proof -
  show "map fst (map (\<lambda>(i, x). (i, g i x)) st) = map fst st" by (simp add: comp_def case_prod_beta')
  then show "fst ` set (map (\<lambda>(i, x). (i, g i x)) st) = fst ` set st" by (metis list.set_map)
qed

lemma map_state_keep: "(b, y) \<in> set st \<Longrightarrow> g b y = z \<Longrightarrow> (b, z) \<in> set (map (\<lambda>(i, x). (i, g i x)) st)"
  by (force simp: image_iff)

text \<open>A task stays consistent when the states of batches change that it is not settling.\<close>

lemma task_ok_map:
  assumes "task_ok st used t" and "\<And>b. settling b t \<Longrightarrow> g b Submitted = Submitted"
  shows "task_ok (map (\<lambda>(i, x). (i, g i x)) st) used t"
  using assms map_state_keep [of _ Submitted st g Submitted] unfolding task_ok_def map_state_ids(2) by blast

text \<open>The steps that change the state of a batch.\<close>

lemma excl_record:
  assumes inv: "excl_inv s" and ts: "be_tasks s = add_mset (TRecord i us cts h tx) ts"
  shows "excl_inv (s\<lparr>be_db := create_record i now us h tx (be_db s), be_tasks := add_mset (TMark i us) ts\<rparr>)"
proof -
  let ?st = "batch_states (be_db s)"
  have ok: "distinct (map fst ?st)" "fst ` set ?st \<subseteq> be_used s" "single (add_mset (TRecord i us cts h tx) ts)"
    "\<And>t. t \<in># ts \<Longrightarrow> task_ok ?st (be_used s) t" and i: "i \<in> be_used s" "i \<notin> fst ` set ?st"
    using inv ts by (auto simp: excl_inv_def task_ok_def)
  have "task_ok (?st @ [(i, Created)]) (be_used s) t" if "t \<in># ts" for t
    using ok(4) [OF that] single_creating [OF ok(3) _ that] by (auto simp: task_ok_def)
  moreover have "task_ok (?st @ [(i, Created)]) (be_used s) (TMark i us)" by (simp add: task_ok_def)
  moreover have "single (add_mset (TMark i us) ts)" by (rule single_replace [OF ok(3)]) simp_all
  ultimately show ?thesis using ok i by (auto simp: excl_inv_def record_eq)
qed

lemma state_unique: "distinct (map fst st) \<Longrightarrow> (b, x) \<in> set st \<Longrightarrow> (b, y) \<in> set st \<Longrightarrow> x = y"
  by (meson eq_key_imp_eq_value)

lemma excl_claim:
  assumes inv: "excl_inv s" and ts: "be_tasks s = add_mset (TClaim r) ts"
    and c: "settle_claim (b_id r) (be_db s) = (d', n)" "n \<noteq> 0"
  shows "excl_inv (s\<lparr>be_db := d', be_tasks := add_mset (TLoad r) ts\<rparr>)"
proof -
  let ?st = "batch_states (be_db s)" and ?b = "b_id r"
  let ?g = "\<lambda>i st. if i = ?b \<and> st \<in> {Created, BatchFailed} then Submitted else st"
  have st: "batch_states d' = map (\<lambda>(i, x). (i, ?g i x)) ?st" using settle_claim_eq [OF c(1)] by blast
  obtain x where x: "(?b, x) \<in> set ?st" "x \<in> {Created, BatchFailed}" using settle_claim_eq [OF c(1)] c(2) by blast
  have ok: "distinct (map fst ?st)" "fst ` set ?st \<subseteq> be_used s" "single (add_mset (TClaim r) ts)"
    "\<And>t. t \<in># ts \<Longrightarrow> task_ok ?st (be_used s) t"
    using inv ts by (auto simp: excl_inv_def)
  have idle: "\<not> settling ?b t" if "t \<in># ts" for t
  proof
    assume "settling ?b t"
    then have "(?b, Submitted) \<in> set ?st" using ok(4) [OF that] unfolding task_ok_def by blast
    then show False using state_unique [OF ok(1) x(1)] x(2) by blast
  qed
  have "\<forall>t \<in># ts. task_ok (batch_states d') (be_used s) t"
  proof (intro ballI)
    fix t assume "t \<in># ts"
    show "task_ok (batch_states d') (be_used s) t"
      unfolding st by (rule task_ok_map [where g = ?g, OF ok(4) [OF \<open>t \<in># ts\<close>]]) simp
  qed
  moreover have "(?b, Submitted) \<in> set (batch_states d')"
    unfolding st by (rule map_state_keep [OF x(1)]) (use x(2) in simp)
  then have "task_ok (batch_states d') (be_used s) (TLoad r)" by (simp add: task_ok_def)
  moreover have "single (add_mset (TLoad r) ts)"
  proof -
    have "{#t \<in># ts. settling ?b t#} = {#}" using idle by auto
    then have "size {#t \<in># add_mset (TLoad r) ts. settling b' t#} \<le> 1" for b'
      using ok(3) by (cases "b' = ?b") (simp_all add: single_def)
    then show ?thesis using ok(3) by (simp add: single_def)
  qed
  moreover have "map fst (batch_states d') = map fst ?st" "fst ` set (batch_states d') = fst ` set ?st"
    unfolding st by (rule map_state_ids)+
  ultimately show ?thesis using ok(1,2) by (simp add: excl_inv_def)
qed

lemma excl_finish:
  assumes inv: "excl_inv s" and ts: "be_tasks s = add_mset t ts" "settling b t"
  shows "excl_inv (s\<lparr>be_db := set_batch_status b st' (be_db s), be_tasks := ts\<rparr>)"
proof -
  let ?st = "batch_states (be_db s)" and ?d = "set_batch_status b st' (be_db s)"
  have ok: "distinct (map fst ?st)" "fst ` set ?st \<subseteq> be_used s" "single (add_mset t ts)"
    "\<And>t. t \<in># ts \<Longrightarrow> task_ok ?st (be_used s) t"
    using inv ts by (auto simp: excl_inv_def)
  have "\<forall>x \<in># ts. task_ok (batch_states ?d) (be_used s) x"
  proof (intro ballI)
    fix x assume x: "x \<in># ts"
    show "task_ok (batch_states ?d) (be_used s) x"
      unfolding set_status_eq
      by (rule task_ok_map [where g = "\<lambda>i y. if i = b then st' else y", OF ok(4) [OF x]])
        (use single_settling [OF ok(3) ts(2) x] in auto)
  qed
  moreover have "single ts" using single_mono [OF ok(3)] by simp
  moreover have "map fst (batch_states ?d) = map fst ?st" "fst ` set (batch_states ?d) = fst ` set ?st"
    unfolding set_status_eq by (rule map_state_ids)+
  ultimately show ?thesis using ok(1,2) by (simp add: excl_inv_def)
qed

lemma find_batch_state: "find_batch b d = Some r \<Longrightarrow> b_id r = b \<and> b_id r \<in> fst ` set (batch_states d)"
  by (auto simp: find_batch_def find_Some_iff batch_states_def image_image)

lemma settling_in_try: "in_try t = Some r \<Longrightarrow> settling b t \<longleftrightarrow> b_id r = b"
  by (cases t) auto

lemma batch_states_simps [simp]:
  "batch_states (create_mark i us d) = batch_states d" "batch_states (settle_create i now b res d) = batch_states d"
  "batch_states (submit_insert i now u body d) = batch_states d" "batch_states (settle_write oc outs res d) = batch_states d"
  by (simp_all add: batch_states_def)

lemma excl_step: "be_step seal lstep decrypts chain onchain s s' \<Longrightarrow> excl_inv s \<Longrightarrow> excl_inv s'"
proof (induction rule: be_step.induct)
  case (submit_check u body s)
  show ?case by (rule excl_add [of s _ "TSubmit u body"]) (use submit_check in \<open>simp_all add: task_ok_def\<close>)
next
  case (submit_insert s u body ts i now)
  show ?case by (rule excl_drop [of s]) (use submit_insert in \<open>auto\<close>)
next
  case (create_find ids s us cts i)
  show ?case by (rule excl_add [of s _ "TSeal i us cts"]) (use create_find in \<open>auto simp: task_ok_def excl_inv_def\<close>)
next
  case (create_seal s i us cts ts l' h tx)
  show ?case by (rule excl_replace [of s "TSeal i us cts" ts _ "TRecord i us cts h tx"]) (use create_seal in \<open>simp_all\<close>)
next
  case (create_seal_fails s i us cts ts l' e)
  show ?case by (rule excl_drop [of s]) (use create_seal_fails in \<open>auto\<close>)
next
  case (create_record s i us cts h tx ts now)
  then show ?case using excl_record by blast
next
  case (create_mark s i us ts)
  show ?case by (rule excl_drop [of s]) (use create_mark in \<open>auto\<close>)
next
  case (settle_find b s r)
  show ?case by (rule excl_add [of s _ "TClaim r"]) (use settle_find in \<open>auto simp: task_ok_def dest: find_batch_state\<close>)
next
  case (settle_claim s r ts d' n)
  then show ?case using excl_claim by blast
next
  case (settle_refuse s r ts d')
  show ?case by (rule excl_drop [of s]) (use settle_refuse in \<open>auto\<close>)
next
  case (settle_load s r ts)
  show ?case by (rule excl_replace [of s "TLoad r" ts _ "TDecrypt r (settle_orders r (be_db s))"]) (use settle_load in \<open>simp_all\<close>)
next
  case (settle_decrypt s r rows ts outcomes)
  show ?case by (rule excl_replace [of s "TDecrypt r rows" ts _ "TExecute r outcomes"]) (use settle_decrypt in \<open>simp_all\<close>)
next
  case (settle_execute s r outcomes ts results)
  show ?case by (rule excl_replace [of s "TExecute r outcomes" ts _ "TWrite r outcomes results"]) (use settle_execute in \<open>simp_all\<close>)
next
  case (settle_write s r outcomes results ts)
  show ?case by (rule excl_replace [of s "TWrite r outcomes results" ts _ "TStore r results"]) (use settle_write in \<open>simp_all\<close>)
next
  case (settle_create s r results ts i now)
  show ?case by (rule excl_replace [of s "TStore r results" ts _ "TClose r"]) (use settle_create in \<open>auto\<close>)
next
  case (settle_close s r ts)
  show ?case by (rule excl_finish [of s "TClose r" ts]) (use settle_close in \<open>simp_all\<close>)
next
  case (settle_throw s t ts r)
  show ?case by (rule excl_replace [of s t ts _ "TAbort r"]) (use settle_throw in \<open>simp_all add: settling_in_try\<close>)
next
  case (settle_catch s r ts)
  show ?case by (rule excl_finish [of s "TAbort r" ts]) (use settle_catch in \<open>simp_all\<close>)
next
  case (ledger s l')
  show ?case by (rule excl_drop [of s]) (use ledger in \<open>auto\<close>)
next
  case (crash s)
  show ?case by (rule excl_drop [of s]) (use crash in \<open>auto\<close>)
qed

lemma reachable_excl: "reachable seal lstep decrypts chain onchain l s \<Longrightarrow> excl_inv s"
  unfolding reachable_def
  by (induction rule: rtranclp_induct) (auto intro: excl_new excl_step)

end
