(* ===== verification/Lifecycle.thy ===== *)
theory Lifecycle
  imports Interleaving
begin

text \<open>
  What the interleaved handlers keep: batches are settled one attempt at a time, run through a
  fixed life cycle, and are sealed before validators are asked to open them.
\<close>

section \<open>The life cycle of a batch\<close>

definition batch_status_of :: "jsstring \<Rightarrow> 'l backend \<Rightarrow> batch_status option" where
  "batch_status_of b s = map_of (batch_states (be_db s)) b"

text \<open>The abstract machine: one batch, no requests, no interleaving.\<close>

inductive lifecycle :: "batch_status option \<Rightarrow> batch_status option \<Rightarrow> bool" where
  seal: "lifecycle None (Some Created)"
| claim: "lifecycle (Some Created) (Some Submitted)"
| retry: "lifecycle (Some BatchFailed) (Some Submitted)"
| settle: "lifecycle (Some Submitted) (Some BatchSettled)"
| fail: "lifecycle (Some Submitted) (Some BatchFailed)"

inductive_simps lifecycle_settled: "lifecycle (Some BatchSettled) x"

lemma map_of_map_state: "map_of (map (\<lambda>(i, x). (i, g i x)) st) b = map_option (g b) (map_of st b)"
  by (induction st) auto

lemma status_claim:
  assumes "settle_claim b d = (d', n)" "n \<noteq> 0" "distinct (map fst (batch_states d))"
  shows "map_of (batch_states d') c = map_of (batch_states d) c \<or>
    lifecycle (map_of (batch_states d) c) (map_of (batch_states d') c)"
proof -
  let ?g = "\<lambda>i st. if i = b \<and> st \<in> {Created, BatchFailed} then Submitted else st"
  have st: "batch_states d' = map (\<lambda>(i, x). (i, ?g i x)) (batch_states d)" using settle_claim_eq [OF assms(1)] by blast
  obtain x where x: "(b, x) \<in> set (batch_states d)" "x \<in> {Created, BatchFailed}" using settle_claim_eq [OF assms(1)] assms(2) by blast
  have mx: "map_of (batch_states d) b = Some x" using x(1) assms(3) by simp
  show ?thesis
  proof (cases "c = b")
    case True
    then show ?thesis using mx x(2) unfolding st map_of_map_state by (auto intro: lifecycle.intros)
  next
    case False
    then have "map_option (?g c) (map_of (batch_states d) c) = map_of (batch_states d) c"
      by (cases "map_of (batch_states d) c") simp_all
    then show ?thesis unfolding st map_of_map_state by simp
  qed
qed

lemma status_finish:
  assumes "map_of (batch_states d) b = Some Submitted" "st' \<in> {BatchSettled, BatchFailed}"
  shows "map_of (batch_states (set_batch_status b st' d)) c = map_of (batch_states d) c \<or>
    lifecycle (map_of (batch_states d) c) (map_of (batch_states (set_batch_status b st' d)) c)"
proof (cases "c = b")
  case True
  then show ?thesis using assms unfolding set_status_eq map_of_map_state by (auto intro: lifecycle.intros)
next
  case False
  then have "map_option (\<lambda>y. if c = b then st' else y) (map_of (batch_states d) c) = map_of (batch_states d) c"
    by (cases "map_of (batch_states d) c") simp_all
  then show ?thesis unfolding set_status_eq map_of_map_state [where g = "\<lambda>i y. if i = b then st' else y"] by simp
qed

lemma excl_settling:
  assumes "excl_inv s" "t \<in># be_tasks s" "settling b t"
  shows "map_of (batch_states (be_db s)) b = Some Submitted"
  using assms by (auto simp: excl_inv_def task_ok_def)

lemma status_step:
  assumes "be_step seal lstep decrypts chain onchain s s'" "excl_inv s"
  shows "batch_status_of b s' = batch_status_of b s \<or> lifecycle (batch_status_of b s) (batch_status_of b s')"
  using assms
proof (induction rule: be_step.induct)
  case (create_record s i us cts h tx ts now)
  then have "i \<notin> fst ` set (batch_states (be_db s))" by (auto simp: excl_inv_def task_ok_def)
  then have "map_of (batch_states (be_db s)) i = None" by (simp add: map_of_eq_None_iff)
  then show ?case
    by (cases "b = i") (auto simp: batch_status_of_def record_eq map_add_def lifecycle.seal split: option.splits)
next
  case (settle_claim s r ts d' n)
  then show ?case using status_claim [of "b_id r" "be_db s" d' n b] by (simp add: batch_status_of_def excl_inv_def)
next
  case (settle_close s r ts)
  then have "map_of (batch_states (be_db s)) (b_id r) = Some Submitted"
    by (intro excl_settling [of s "TClose r"]) simp_all
  then show ?case using status_finish [of "be_db s" "b_id r" BatchSettled b] by (simp add: batch_status_of_def)
next
  case (settle_catch s r ts)
  then have "map_of (batch_states (be_db s)) (b_id r) = Some Submitted"
    by (intro excl_settling [of s "TAbort r"]) simp_all
  then show ?case using status_finish [of "be_db s" "b_id r" BatchFailed b] by (simp add: batch_status_of_def)
qed (simp_all add: batch_status_of_def)

lemma lifecycle_run:
  assumes "(be_step seal lstep decrypts chain onchain)\<^sup>*\<^sup>* s s'" "excl_inv s"
  shows "lifecycle\<^sup>*\<^sup>* (batch_status_of b s) (batch_status_of b s') \<and> excl_inv s'"
  using assms
proof (induction rule: rtranclp_induct)
  case (step s1 s2)
  then have l: "lifecycle\<^sup>*\<^sup>* (batch_status_of b s) (batch_status_of b s1)" and e: "excl_inv s1" by auto
  from status_step [OF step.hyps(2) e, of b] have "lifecycle\<^sup>*\<^sup>* (batch_status_of b s) (batch_status_of b s2)"
  proof
    assume "lifecycle (batch_status_of b s1) (batch_status_of b s2)"
    with l show ?thesis by (rule rtranclp.rtrancl_into_rtrancl)
  qed (use l in simp)
  then show ?case using excl_step [OF step.hyps(2) e] by blast
qed simp

lemma settled_final: "lifecycle\<^sup>*\<^sup>* x y \<Longrightarrow> x = Some BatchSettled \<Longrightarrow> y = x"
  by (induction rule: rtranclp_induct) (auto simp: lifecycle_settled)

section \<open>Sealed before opened\<close>

text \<open>The ciphertexts that a list of order ids stands for.\<close>

definition ciphertexts_of :: "db \<Rightarrow> jsstring list \<Rightarrow> jsstring list \<Rightarrow> bool" where
  "ciphertexts_of d ids cts \<longleftrightarrow> list_all2 (\<lambda>i c. (i, c) \<in> set (order_keys d)) ids cts"

lemma ciphertexts_mono: "ciphertexts_of d ids cts \<Longrightarrow> set (order_keys d) \<subseteq> set (order_keys d') \<Longrightarrow> ciphertexts_of d' ids cts"
  unfolding ciphertexts_of_def by (erule list_all2_mono) (rule subsetD)

lemma rows_by_id:
  assumes "distinct (map fst (order_keys d))" "o1 \<in> set (db_orders d)" "P o1"
  shows "map_of (rev (map (\<lambda>o'. (o_id o', f o')) (filter P (db_orders d)))) (o_id o1) = Some (f o1)"
proof -
  have ids: "map fst (order_keys d) = map o_id (db_orders d)" by (simp add: order_keys_def)
  have "distinct (map o_id (filter P (db_orders d)))"
    using assms(1) unfolding ids by (rule distinct_map_filter)
  then have "distinct (map fst (rev (map (\<lambda>o'. (o_id o', f o')) (filter P (db_orders d)))))"
    by (simp add: comp_def flip: rev_map)
  then show ?thesis using assms(2,3) by simp
qed

lemma create_find_Inr:
  assumes "create_find ids d = Inr (us, cts)" "distinct (map fst (order_keys d))"
  shows "ciphertexts_of d us cts"
proof -
  let ?P = "\<lambda>o'. o_id o' \<in> set us \<and> o_status o' = Pending" and ?orders = "filter (\<lambda>o'. o_id o' \<in> set us \<and> o_status o' = Pending) (db_orders d)"
  have us: "us = js_unique ids" and len: "length ?orders = length us"
    and cts: "cts = map (\<lambda>i. case map_of (rev (map (\<lambda>o'. (o_id o', o_encrypted_data o')) ?orders)) i of None \<Rightarrow> [] | Some c \<Rightarrow> c) us"
    using assms(1) by (auto simp: create_find_def Let_def split: if_splits)
  have ids: "map fst (order_keys d) = map o_id (db_orders d)" by (simp add: order_keys_def)
  have dist: "distinct (map o_id ?orders)" using assms(2) unfolding ids by (rule distinct_map_filter)
  have "set (map o_id ?orders) \<subseteq> set us" by auto
  moreover have "card (set us) \<le> card (set (map o_id ?orders))"
    using distinct_card [OF dist] len card_length [of us] by simp
  ultimately have eq: "set (map o_id ?orders) = set us" by (simp add: card_seteq)
  have "(u, case map_of (rev (map (\<lambda>o'. (o_id o', o_encrypted_data o')) ?orders)) u of None \<Rightarrow> [] | Some c \<Rightarrow> c) \<in> set (order_keys d)"
    if u: "u \<in> set us" for u
  proof -
    have "u \<in> set (map o_id ?orders)" unfolding eq by (rule u)
    then obtain o1 where o1: "o1 \<in> set ?orders" "o_id o1 = u" by auto
    then have "map_of (rev (map (\<lambda>o'. (o_id o', o_encrypted_data o')) ?orders)) u = Some (o_encrypted_data o1)"
      using rows_by_id [OF assms(2), of o1 ?P o_encrypted_data] by auto
    then show ?thesis using o1 by (auto simp: order_keys_def)
  qed
  then show ?thesis unfolding ciphertexts_of_def cts by (simp add: list_all2_map2 list_all2_same)
qed

lemma settle_orders_sealed:
  assumes "ciphertexts_of d (b_order_ids r) cts" "distinct (map fst (order_keys d))"
  shows "map o_id (settle_orders r d) = b_order_ids r \<and> map o_encrypted_data (settle_orders r d) = cts"
proof -
  let ?m = "map_of (rev (map (\<lambda>o'. (o_id o', o')) (filter (\<lambda>o'. o_id o' \<in> set (b_order_ids r)) (db_orders d))))"
  have "map o_id (concat (map (\<lambda>i. case ?m i of None \<Rightarrow> [] | Some x \<Rightarrow> [x]) ids)) = ids \<and>
      map o_encrypted_data (concat (map (\<lambda>i. case ?m i of None \<Rightarrow> [] | Some x \<Rightarrow> [x]) ids)) = cs"
    if "list_all2 (\<lambda>i c. (i, c) \<in> set (order_keys d)) ids cs" "set ids \<subseteq> set (b_order_ids r)" for ids cs
    using that
  proof (induction rule: list_all2_induct)
    case (Cons i ids c cs)
    then obtain o1 where o1: "o1 \<in> set (db_orders d)" "o_id o1 = i" "o_encrypted_data o1 = c"
      by (auto simp: order_keys_def)
    have "?m i = Some o1"
      using rows_by_id [OF assms(2) o1(1), of "\<lambda>o'. o_id o' \<in> set (b_order_ids r)" "\<lambda>o'. o'"] Cons.prems o1(2) by simp
    then show ?case using Cons o1 by simp
  qed simp
  from this [of "b_order_ids r" cts] show ?thesis
    using assms(1) by (simp add: ciphertexts_of_def settle_orders_def Let_def)
qed

definition accepts :: "(byte list \<Rightarrow> byte list) \<Rightarrow> (jsstring \<Rightarrow> error + batch_record option) \<Rightarrow> jsstring \<Rightarrow> jsstring list \<Rightarrow> bool" where
  "accepts sha g b cts = is_ok (assertBatchSealed sha g b cts)"

fun task_sealed ::
  "(byte list \<Rightarrow> byte list) \<Rightarrow> (jsstring \<Rightarrow> error + batch_record option) \<Rightarrow> db \<Rightarrow> task \<Rightarrow> bool" where
  "task_sealed sha g d (TSeal i us cts) = ciphertexts_of d us cts"
| "task_sealed sha g d (TRecord i us cts h tx) = (ciphertexts_of d us cts \<and> accepts sha g i cts)"
| "task_sealed sha g d (TClaim r) = ((b_id r, b_order_ids r) \<in> set (batch_keys d))"
| "task_sealed sha g d (TLoad r) = ((b_id r, b_order_ids r) \<in> set (batch_keys d))"
| "task_sealed sha g d (TDecrypt r rows) = (map o_id rows = b_order_ids r \<and>
     accepts sha g (b_id r) (map o_encrypted_data rows))"
| "task_sealed sha g d _ = True"

definition batches_sealed :: "(byte list \<Rightarrow> byte list) \<Rightarrow> (jsstring \<Rightarrow> error + batch_record option) \<Rightarrow> db \<Rightarrow> bool" where
  "batches_sealed sha g d \<longleftrightarrow>
     (\<forall>(b, ids) \<in> set (batch_keys d). \<exists>cts. ciphertexts_of d ids cts \<and> accepts sha g b cts)"

definition sealed_inv :: "(byte list \<Rightarrow> byte list) \<Rightarrow> ('l \<Rightarrow> jsstring \<Rightarrow> error + batch_record option) \<Rightarrow> 'l backend \<Rightarrow> bool" where
  "sealed_inv sha g s \<longleftrightarrow>
     distinct (map fst (order_keys (be_db s))) \<and> fst ` set (order_keys (be_db s)) \<subseteq> be_used s \<and>
     batches_sealed sha (g (be_ledger s)) (be_db s) \<and>
     (\<forall>t \<in># be_tasks s. task_sealed sha (g (be_ledger s)) (be_db s) t)"

lemma task_sealed_mono:
  assumes "task_sealed sha g d t" "\<And>b cts. accepts sha g b cts \<Longrightarrow> accepts sha g' b cts"
    and "set (order_keys d) \<subseteq> set (order_keys d')" "set (batch_keys d) \<subseteq> set (batch_keys d')"
  shows "task_sealed sha g' d' t"
  using assms by (cases t) (auto intro: ciphertexts_mono)

lemma batches_sealed_mono:
  assumes "batches_sealed sha g d" "\<And>b cts. accepts sha g b cts \<Longrightarrow> accepts sha g' b cts"
    and "set (order_keys d) \<subseteq> set (order_keys d')" "set (batch_keys d') \<subseteq> set (batch_keys d)"
  shows "batches_sealed sha g' d'"
  unfolding batches_sealed_def
proof clarify
  fix b ids assume "(b, ids) \<in> set (batch_keys d')"
  then obtain cts where "ciphertexts_of d ids cts" "accepts sha g b cts"
    using assms(1,4) unfolding batches_sealed_def by blast
  then show "\<exists>cts. ciphertexts_of d' ids cts \<and> accepts sha g' b cts"
    using ciphertexts_mono [OF _ assms(3)] assms(2) by blast
qed

lemma sealed_new: "sealed_inv sha g (new_backend l)"
  by (simp add: sealed_inv_def new_backend_def order_keys_def batch_keys_def batches_sealed_def)

lemma find_batch_key: "find_batch b d = Some r \<Longrightarrow> (b_id r, b_order_ids r) \<in> set (batch_keys d)"
  by (auto simp: find_batch_def find_Some_iff batch_keys_def)

text \<open>
  What the backend relies on when it seals: a call moves the ledger by steps of the ledger, and
  when it returns, the ledger accepts the list.
\<close>

locale sealing = commitment_ledger +
  fixes sha :: "byte list \<Rightarrow> byte list"
    and seal :: "'a seal_calls"
  assumes seal_step: "seal l b cts l' r \<Longrightarrow> step\<^sup>*\<^sup>* l l'"
    and seal_accepted: "seal l b cts l' (Inr (h, tx)) \<Longrightarrow> accepts sha (getBatch l') b cts"
begin

lemma accepts_mono: "step\<^sup>*\<^sup>* l l' \<Longrightarrow> accepts sha (getBatch l) b cts \<Longrightarrow> accepts sha (getBatch l') b cts"
  using sealed_stays by (fastforce simp: accepts_def is_ok_def split: sum.splits)

text \<open>A step that adds no batch and at most one task.\<close>

lemma sealed_invI:
  assumes "sealed_inv sha getBatch s" "step\<^sup>*\<^sup>* (be_ledger s) (be_ledger s')"
    and "distinct (map fst (order_keys (be_db s')))" "fst ` set (order_keys (be_db s')) \<subseteq> be_used s'"
    and "set (order_keys (be_db s)) \<subseteq> set (order_keys (be_db s'))" "batch_keys (be_db s') = batch_keys (be_db s)"
    and "\<And>t. t \<in># be_tasks s' \<Longrightarrow> t \<in># be_tasks s \<or> task_sealed sha (getBatch (be_ledger s')) (be_db s') t"
  shows "sealed_inv sha getBatch s'"
  unfolding sealed_inv_def
proof (intro conjI ballI)
  note up = accepts_mono [OF assms(2)]
  show "batches_sealed sha (getBatch (be_ledger s')) (be_db s')"
    by (rule batches_sealed_mono [OF _ up]) (use assms(1,5,6) in \<open>auto simp: sealed_inv_def\<close>)
  show "task_sealed sha (getBatch (be_ledger s')) (be_db s') t" if "t \<in># be_tasks s'" for t
    using assms(7) [OF that]
  proof
    assume "t \<in># be_tasks s"
    then have "task_sealed sha (getBatch (be_ledger s)) (be_db s) t" using assms(1) by (simp add: sealed_inv_def)
    then show ?thesis by (rule task_sealed_mono [OF _ up]) (use assms(5,6) in auto)
  qed
qed (use assms(3,4) in auto)

lemma sealed_same:
  assumes "sealed_inv sha getBatch s" "step\<^sup>*\<^sup>* (be_ledger s) (be_ledger s')" "order_keys (be_db s') = order_keys (be_db s)"
    and "batch_keys (be_db s') = batch_keys (be_db s)" "be_used s \<subseteq> be_used s'"
    and "\<And>t. t \<in># be_tasks s' \<Longrightarrow> t \<in># be_tasks s \<or> task_sealed sha (getBatch (be_ledger s')) (be_db s') t"
  shows "sealed_inv sha getBatch s'"
  by (rule sealed_invI [OF assms(1,2)]) (use assms in \<open>auto simp: sealed_inv_def\<close>)

lemma sealed_record:
  assumes inv: "sealed_inv sha getBatch s" and ts: "be_tasks s = add_mset (TRecord i us cts h tx) ts"
  shows "sealed_inv sha getBatch (s\<lparr>be_db := create_record i now us h tx (be_db s), be_tasks := add_mset (TMark i us) ts\<rparr>)"
proof -
  let ?g = "getBatch (be_ledger s)" and ?d = "create_record i now us h tx (be_db s)"
  have new: "ciphertexts_of (be_db s) us cts" "accepts sha ?g i cts" and old: "batches_sealed sha ?g (be_db s)"
    and tasks: "\<And>t. t \<in># ts \<Longrightarrow> task_sealed sha ?g (be_db s) t"
    using inv ts by (auto simp: sealed_inv_def)
  have c: "ciphertexts_of ?d = ciphertexts_of (be_db s)" by (intro ext) (simp add: ciphertexts_of_def)
  have "batches_sealed sha ?g ?d"
    using new old unfolding batches_sealed_def record_eq c by auto
  moreover have "task_sealed sha ?g ?d t" if "t \<in># ts" for t
    by (rule task_sealed_mono [OF tasks [OF that]]) (auto simp: record_eq)
  ultimately show ?thesis using inv by (simp add: sealed_inv_def)
qed

lemma sealed_load:
  assumes inv: "sealed_inv sha getBatch s" and ts: "be_tasks s = add_mset (TLoad r) ts"
  shows "task_sealed sha (getBatch (be_ledger s)) (be_db s) (TDecrypt r (settle_orders r (be_db s)))"
proof -
  have "(b_id r, b_order_ids r) \<in> set (batch_keys (be_db s))" using inv ts by (simp add: sealed_inv_def)
  then obtain cts where c: "ciphertexts_of (be_db s) (b_order_ids r) cts" "accepts sha (getBatch (be_ledger s)) (b_id r) cts"
    using inv unfolding sealed_inv_def batches_sealed_def by blast
  then show ?thesis using settle_orders_sealed [OF c(1)] inv by (simp add: sealed_inv_def)
qed

lemma sealed_submit:
  assumes "sealed_inv sha getBatch s" "i \<notin> be_used s" "be_tasks s = add_mset t ts"
  shows "sealed_inv sha getBatch
    (s\<lparr>be_db := submit_insert i now u body (be_db s), be_tasks := ts, be_used := insert i (be_used s)\<rparr>)"
  by (rule sealed_invI [OF assms(1)]) (use assms in \<open>auto simp: sealed_inv_def\<close>)

lemma sealed_step: "be_step seal step decrypts chain onchain s s' \<Longrightarrow> sealed_inv sha getBatch s \<Longrightarrow> sealed_inv sha getBatch s'"
proof (induction rule: be_step.induct)
  case (submit_insert s u body ts i now)
  then show ?case by (intro sealed_submit)
next
  case (create_find ids s us cts i)
  have "ciphertexts_of (be_db s) us cts"
    by (rule create_find_Inr [OF create_find(1)]) (use create_find in \<open>simp add: sealed_inv_def\<close>)
  then show ?case by (intro sealed_same [OF create_find.prems]) auto
next
  case (create_seal s i us cts ts l' h tx)
  have c: "ciphertexts_of (be_db s) us cts" using create_seal by (simp add: sealed_inv_def)
  show ?case
    by (rule sealed_same [OF create_seal.prems])
      (use create_seal c seal_step [OF create_seal(2)] seal_accepted [OF create_seal(2)] in auto)
next
  case (create_seal_fails s i us cts ts l' e)
  show ?case
    by (rule sealed_same [OF create_seal_fails.prems]) (use create_seal_fails seal_step [OF create_seal_fails(2)] in auto)
next
  case (create_record s i us cts h tx ts now)
  then show ?case by (intro sealed_record)
next
  case (settle_find b s r)
  have "(b_id r, b_order_ids r) \<in> set (batch_keys (be_db s))" using find_batch_key [OF settle_find(1)] .
  then show ?case by (intro sealed_same [OF settle_find.prems]) auto
next
  case (settle_claim s r ts d' n)
  have "task_sealed sha (getBatch (be_ledger s)) (be_db s) (TClaim r)" using settle_claim by (simp add: sealed_inv_def)
  then show ?case
    using settle_claim_eq [OF settle_claim(2)] settle_claim(1) by (intro sealed_same [OF settle_claim.prems]) auto
next
  case (settle_load s r ts)
  show ?case by (rule sealed_same [OF settle_load.prems]) (use settle_load sealed_load [OF settle_load(2,1)] in auto)
next
  case (ledger s l')
  show ?case by (rule sealed_same [OF ledger.prems]) (use ledger in auto)
next
  case (settle_throw s t ts r)
  then show ?case by (intro sealed_same [OF settle_throw.prems]) auto
next
  case (submit_check u body s)
  show ?case by (rule sealed_same [OF submit_check.prems]) (use submit_check in \<open>auto simp: set_status_eq\<close>)
next
  case (create_mark s i us ts)
  show ?case by (rule sealed_same [OF create_mark.prems]) (use create_mark in \<open>auto simp: set_status_eq\<close>)
next
  case (settle_refuse s r ts d')
  show ?case by (rule sealed_same [OF settle_refuse.prems]) (use settle_refuse in \<open>auto simp: set_status_eq\<close>)
next
  case (settle_decrypt s r rows ts outcomes)
  show ?case by (rule sealed_same [OF settle_decrypt.prems]) (use settle_decrypt in \<open>auto simp: set_status_eq\<close>)
next
  case (settle_execute s r outcomes ts results)
  show ?case by (rule sealed_same [OF settle_execute.prems]) (use settle_execute in \<open>auto simp: set_status_eq\<close>)
next
  case (settle_write s r outcomes results ts)
  show ?case by (rule sealed_same [OF settle_write.prems]) (use settle_write in \<open>auto simp: set_status_eq\<close>)
next
  case (settle_create s r results ts i now)
  show ?case by (rule sealed_same [OF settle_create.prems]) (use settle_create in \<open>auto simp: set_status_eq\<close>)
next
  case (settle_close s r ts)
  show ?case by (rule sealed_same [OF settle_close.prems]) (use settle_close in \<open>auto simp: set_status_eq\<close>)
next
  case (settle_catch s r ts)
  show ?case by (rule sealed_same [OF settle_catch.prems]) (use settle_catch in \<open>auto simp: set_status_eq\<close>)
next
  case (crash s)
  show ?case by (rule sealed_same [OF crash.prems]) (use crash in \<open>auto simp: set_status_eq\<close>)
qed

lemma reachable_sealed: "reachable seal step decrypts chain onchain l s \<Longrightarrow> sealed_inv sha getBatch s"
  unfolding reachable_def by (induction rule: rtranclp_induct) (auto intro: sealed_new sealed_step)

lemma decrypt_accepted:
  assumes "reachable seal step decrypts chain onchain l s" "TDecrypt r rows \<in># be_tasks s"
  shows "map o_id rows = b_order_ids r \<and> accepts sha (getBatch (be_ledger s)) (b_id r) (map o_encrypted_data rows)"
  using reachable_sealed [OF assms(1)] assms(2) by (auto simp: sealed_inv_def)

end

section \<open>The two ledgers\<close>

text \<open>
  \<open>sorobanService.createBatch\<close> as the relation of a call to its results, at any time of the clock.
  An invocation of the contract may also fail without effect.
\<close>

definition dev_seals :: "(byte list \<Rightarrow> byte list) \<Rightarrow> dev_ledger seal_calls" where
  "dev_seals sha l b cts l' r \<longleftrightarrow> (\<exists>now. case createBatch_dev sha l now b cts of
     Inl e \<Rightarrow> l' = l \<and> r = Inl e | Inr (l1, h) \<Rightarrow> l' = l1 \<and> r = Inr (h, None))"

definition vault_seals :: "(byte list \<Rightarrow> byte list) \<Rightarrow> address \<Rightarrow> vault seal_calls" where
  "vault_seals sha signer v b cts v' r \<longleftrightarrow>
     (\<exists>now confirmed tx x. createBatch_onchain sha v signer now confirmed b cts = (v', x) \<and>
        r = (case x of Inl e \<Rightarrow> Inl e | Inr h \<Rightarrow> Inr (h, Some tx))) \<or>
     (v' = v \<and> (\<exists>e. r = Inl e))"

lemma dev_sealsE:
  assumes "dev_seals sha l b cts l' r"
  obtains e where "l' = l" "r = Inl e"
  | now h where "batchCommitment sha cts = Inr h" "dev_record l now b (length cts) h = Inr l'" "r = Inr (h, None)"
proof -
  from assms obtain now where "case createBatch_dev sha l now b cts of
     Inl e \<Rightarrow> l' = l \<and> r = Inl e | Inr (l1, h) \<Rightarrow> l' = l1 \<and> r = Inr (h, None)"
    unfolding dev_seals_def by blast
  then show thesis
    using that createBatch_dev_Inr [of sha l now b cts l'] by (cases "createBatch_dev sha l now b cts") auto
qed

lemma dev_record_get: "dev_record l now b n h = Inr l' \<Longrightarrow>
  map_of l' b = Some \<lparr>br_orderCount = n, br_contentHash = h, br_timestamp = now div 1000\<rparr>"
  by (auto simp: dev_record_def update_conv split: if_splits)

lemma dev_seals_step: "dev_seals sha l b cts l' r \<Longrightarrow> dev_step\<^sup>*\<^sup>* l l'"
  by (elim dev_sealsE) (simp, meson dev_step_def r_into_rtranclp)

lemma dev_seals_accepted: "dev_seals sha l b cts l' (Inr (h, tx)) \<Longrightarrow> accepts sha (dev_getBatch l') b cts"
  by (elim dev_sealsE)
    (auto simp: accepts_def assertBatchSealed_def dev_getBatch_def dest: dev_record_get)

lemma vault_sealsE:
  assumes "vault_seals sha signer v b cts v' r"
  obtains "v' = v" "\<And>h tx. r \<noteq> Inr (h, tx)"
  | bytes n hb hash now where "createBatch_args sha b cts = Inr (bytes, n, hb, hash)" "create_batch v {signer} now bytes n hb = Inr v'"
proof -
  from assms consider (fails) "v' = v" "\<exists>e. r = Inl e"
    | (call) now confirmed tx x where "createBatch_onchain sha v signer now confirmed b cts = (v', x)"
        "r = (case x of Inl e \<Rightarrow> Inl e | Inr h \<Rightarrow> Inr (h, Some tx))"
    unfolding vault_seals_def by blast
  then show thesis
  proof cases
    case call
    show thesis
    proof (cases "createBatch_args sha b cts")
      case (Inl e)
      then have "v' = v" "r = Inl e" using call by (auto simp: createBatch_onchain_def)
      then show ?thesis using that(1) by simp
    next
      case (Inr a)
      obtain bytes n hb hash where a: "a = (bytes, n, hb, hash)" by (cases a)
      show ?thesis
        using call Inr a that by (cases "create_batch v {signer} now bytes n hb") (auto simp: createBatch_onchain_def)
    qed
  qed (use that(1) in auto)
qed

lemma vault_seals_step: "vault_seals sha signer v b cts v' r \<Longrightarrow> vault_step\<^sup>*\<^sup>* v v'"
  by (elim vault_sealsE) (auto dest: batch_step)

lemma vault_seals_accepted:
  assumes "vault_seals sha signer v b cts v' (Inr (h, tx))"
  shows "accepts sha (vault_getBatch v') b cts"
proof -
  from assms obtain now confirmed x tx' where c: "createBatch_onchain sha v signer now confirmed b cts = (v', x)"
    and "Inr (h, tx) = (case x of Inl e \<Rightarrow> Inl e | Inr h \<Rightarrow> Inr (h, Some tx'))"
    unfolding vault_seals_def by blast
  then have "x = Inr h" by (cases x) auto
  then obtain r where "assertBatchSealed sha (vault_getBatch v') b cts = Inr r"
    using createBatch_onchain_sealed c by blast
  then show ?thesis by (simp add: accepts_def)
qed

interpretation dev_sealing: sealing dev_getBatch dev_step sha "dev_seals sha" for sha
  by unfold_locales (rule dev_seals_step, assumption, rule dev_seals_accepted)

interpretation vault_sealing: sealing vault_getBatch vault_step sha "vault_seals sha signer" for sha signer
  by unfold_locales (rule vault_seals_step, assumption, rule vault_seals_accepted)

section \<open>Runs\<close>

lemma reachable_step:
  "reachable seal lstep decrypts chain onchain l s \<Longrightarrow> be_step seal lstep decrypts chain onchain s s' \<Longrightarrow>
     reachable seal lstep decrypts chain onchain l s'"
  unfolding reachable_def by (rule rtranclp.rtrancl_into_rtrancl)

lemma run_submit:
  assumes "reachable seal lstep decrypts chain onchain l s" "submit_check u body (be_db s) = Inr ()" "i \<notin> be_used s"
  shows "reachable seal lstep decrypts chain onchain l
    (s\<lparr>be_db := submit_insert i now u body (be_db s), be_used := insert i (be_used s)\<rparr>)"
proof -
  note 1 = reachable_step [OF assms(1) be_step.submit_check [OF assms(2)]]
  show ?thesis
    by (rule reachable_step [OF 1]) (use be_step.submit_insert [of "s\<lparr>be_tasks := add_mset (TSubmit u body) (be_tasks s)\<rparr>" u body "be_tasks s" i] assms(3) in simp)
qed

lemma run_find:
  assumes "reachable seal lstep decrypts chain onchain l s" "create_find ids (be_db s) = Inr (us, cts)" "i \<notin> be_used s"
  shows "reachable seal lstep decrypts chain onchain l
    (s\<lparr>be_tasks := add_mset (TSeal i us cts) (be_tasks s), be_used := insert i (be_used s)\<rparr>)"
  by (rule reachable_step [OF assms(1) be_step.create_find [OF assms(2,3)]])

lemma run_seal:
  assumes "reachable seal lstep decrypts chain onchain l s" "be_tasks s = add_mset (TSeal i us cts) ts"
    and "seal (be_ledger s) i cts l' (Inr (h, tx))"
  shows "reachable seal lstep decrypts chain onchain l
    (s\<lparr>be_ledger := l', be_db := create_mark i us (create_record i now us h tx (be_db s)), be_tasks := ts\<rparr>)"
proof -
  let ?s1 = "s\<lparr>be_ledger := l', be_tasks := add_mset (TRecord i us cts h tx) ts\<rparr>"
  let ?s2 = "?s1\<lparr>be_db := create_record i now us h tx (be_db ?s1), be_tasks := add_mset (TMark i us) ts\<rparr>"
  have 1: "reachable seal lstep decrypts chain onchain l ?s1"
    by (rule reachable_step [OF assms(1)]) (rule be_step.create_seal [where cts = cts], rule assms(2), rule assms(3))
  have 2: "reachable seal lstep decrypts chain onchain l ?s2"
    by (rule reachable_step [OF 1]) (rule be_step.create_record, simp)
  show ?thesis
    using reachable_step [OF 2 be_step.create_mark [of ?s2 i us ts]] by simp
qed

lemma run_settle:
  assumes "reachable seal lstep decrypts chain onchain l s" "find_batch b (be_db s) = Some r"
    and "b_id r = b" "settle_claim b (be_db s) = (d', n)" "n \<noteq> 0"
  shows "reachable seal lstep decrypts chain onchain l
    (s\<lparr>be_db := d', be_tasks := add_mset (TDecrypt r (settle_orders r d')) (be_tasks s)\<rparr>)"
proof -
  let ?s1 = "s\<lparr>be_tasks := add_mset (TClaim r) (be_tasks s)\<rparr>"
  let ?s2 = "?s1\<lparr>be_db := d', be_tasks := add_mset (TLoad r) (be_tasks s)\<rparr>"
  have 1: "reachable seal lstep decrypts chain onchain l ?s1"
    by (rule reachable_step [OF assms(1)]) (rule be_step.settle_find, rule assms(2))
  have 2: "reachable seal lstep decrypts chain onchain l ?s2"
    by (rule reachable_step [OF 1]) (rule be_step.settle_claim [where n = n], use assms(3-5) in simp_all)
  show ?thesis
    using reachable_step [OF 2 be_step.settle_load [of ?s2 r "be_tasks s"]] by simp
qed

text \<open>One order, found by two calls of \<open>createBatch\<close> before either marks it, and both batches claimed.\<close>

lemma two_batches_run:
  fixes body :: submit_order_body
  assumes "seal l b1 [so_encrypted_data body] l1 (Inr (h1, t1))" "seal l1 b2 [so_encrypted_data body] l2 (Inr (h2, t2))"
    and "i \<noteq> b1" "i \<noteq> b2" "b1 \<noteq> b2"
  shows "\<exists>s r1 r2 row. reachable seal lstep decrypts chain onchain l s \<and> b_id r1 = b1 \<and> b_id r2 = b2 \<and>
    o_id row = i \<and> o_encrypted_data row = so_encrypted_data body \<and>
    be_tasks s = {#TDecrypt r1 [row], TDecrypt r2 [row]#}"
proof -
  let ?R = "reachable seal lstep decrypts chain onchain l"
  let ?c = "so_encrypted_data body" and ?o = "new_order i 0 u body"
  let ?o1 = "?o\<lparr>o_status := Batched, o_batch_id := Some b1\<rparr>" and ?o2 = "?o\<lparr>o_status := Batched, o_batch_id := Some b2\<rparr>"
  let ?r1 = "\<lparr>b_id = b1, b_order_ids = [i], b_status = Created, b_content_hash = Some h1, b_commitment_tx = t1, b_created_at = 0\<rparr>"
  let ?r2 = "\<lparr>b_id = b2, b_order_ids = [i], b_status = Created, b_content_hash = Some h2, b_commitment_tx = t2, b_created_at = 0\<rparr>"
  let ?state = "\<lambda>os bs l ts us. \<lparr>be_db = \<lparr>db_orders = os, db_batches = bs, db_settlements = []\<rparr>, be_ledger = l,
     be_tasks = ts, be_used = us\<rparr>"
  have 0: "?R (new_backend l)" by (simp add: reachable_def)
  have 1: "?R (?state [?o] [] l {#} {i})"
    using run_submit [OF 0, of u body i 0] by (simp add: new_backend_def submit_check_def submit_insert_def)
  have find: "create_find [i] \<lparr>db_orders = [?o], db_batches = [], db_settlements = []\<rparr> = Inr ([i], [?c])"
    by (simp add: create_find_def new_order_def js_unique_def Let_def)
  have 2: "?R (?state [?o] [] l {#TSeal b1 [i] [?c]#} {b1, i})"
    using run_find [OF 1, of "[i]" "[i]" "[?c]" b1] find assms(3) by simp
  have 3: "?R (?state [?o] [] l {#TSeal b1 [i] [?c], TSeal b2 [i] [?c]#} {b2, b1, i})"
    using run_find [OF 2, of "[i]" "[i]" "[?c]" b2] find assms(4,5) by (simp add: add_mset_commute)
  have 4: "?R (?state [?o1] [?r1] l1 {#TSeal b2 [i] [?c]#} {b2, b1, i})"
    using run_seal [OF 3, of b1 "[i]" "[?c]" "{#TSeal b2 [i] [?c]#}" l1 h1 t1 0] assms(1)
    by (simp add: create_mark_def map_orders_def create_record_def new_order_def)
  have 5: "?R (?state [?o2] [?r1, ?r2] l2 {#} {b2, b1, i})"
    using run_seal [OF 4, of b2 "[i]" "[?c]" "{#}" l2 h2 t2 0] assms(2)
    by (simp add: create_mark_def map_orders_def create_record_def new_order_def)
  have 6: "?R (?state [?o2] [?r1\<lparr>b_status := Submitted\<rparr>, ?r2] l2 {#TDecrypt ?r1 [?o2]#} {b2, b1, i})"
    using run_settle [OF 5, of b1 ?r1] assms(5)
    by (simp add: find_batch_def settle_claim_def claimable_def settle_orders_def new_order_def Let_def)
  have 7: "?R (?state [?o2] [?r1\<lparr>b_status := Submitted\<rparr>, ?r2\<lparr>b_status := Submitted\<rparr>] l2
      {#TDecrypt ?r1 [?o2], TDecrypt ?r2 [?o2]#} {b2, b1, i})"
    using run_settle [OF 6, of b2 ?r2] assms(5)
    by (simp add: find_batch_def settle_claim_def claimable_def settle_orders_def new_order_def Let_def add_mset_commute)
  have row: "o_id ?o2 = i" "o_encrypted_data ?o2 = ?c" by (simp_all add: new_order_def)
  show ?thesis
    by (rule exI, rule exI [of _ ?r1], rule exI [of _ ?r2], rule exI [of _ ?o2]) (use 7 row in auto)
qed

end
