(* ===== verification/BatchFlow.thy ===== *)
theory BatchFlow
  imports Lifecycle
begin

text \<open>
  The properties of batches across concurrent requests: one settlement at a time, the life cycle,
  sealing before decryption, and two behaviours a caller may not expect (an order in two batches,
  an outage of the validators that fails its orders for good).
\<close>

section \<open>Sample seals\<close>

lemma sample_input: "\<exists>x. commitment_input [js ''a''] = Inr x"
proof -
  have "emap frame [js ''a''] = Inr [[0, 0, 0, 1, 97]]"
    by (simp add: frame_def u32_def js_def utf8_encode_ascii)
  moreover have "u32 (length [js ''a'']) = Inr [0, 0, 0, 1]" by (simp add: u32_def)
  ultimately show ?thesis by (auto simp: commitment_input_Inr)
qed

lemma dev_can_seal:
  assumes "commitment_input cts = Inr x" "map_of l b = None"
  shows "\<exists>l' h. dev_seals sha l b cts l' (Inr (h, None)) \<and> (\<forall>c. c \<noteq> b \<longrightarrow> map_of l' c = map_of l c)"
proof -
  have "createBatch_dev sha l 0 b cts = Inr (AList.update b \<lparr>br_orderCount = length cts,
      br_contentHash = bytesToHex (sha x), br_timestamp = 0\<rparr> l, bytesToHex (sha x))"
    using assms by (simp add: createBatch_dev_def batchCommitment_def dev_record_def)
  then show ?thesis
    by (intro exI conjI) (auto simp: dev_seals_def update_conv intro!: exI [of _ "0 :: nat"])
qed

lemma vault_can_seal:
  assumes "commitment_input cts = Inr x" "v_admin v = Some signer" "batchIdBytes b = Inr bytes" "get_batch v bytes = None"
  shows "\<exists>v' h. vault_seals sha signer v b cts v' (Inr (h, Some tx)) \<and> v_admin v' = Some signer \<and>
    (\<forall>c. c \<noteq> bytes \<longrightarrow> get_batch v' c = get_batch v c)"
proof -
  let ?n = "of_nat (length cts)" and ?h = "sha x"
  have a: "createBatch_args sha b cts = Inr (bytes, ?n, ?h, bytesToHex ?h)"
    using assms(1,3) by (simp add: createBatch_args_def batchCommitment_def hex.dec_enc)
  obtain v' where c: "create_batch v {signer} 0 bytes ?n ?h = Inr v'"
    using assms(2,4) by (auto simp: create_batch_Inr)
  have "createBatch_onchain sha v signer 0 True b cts = (v', Inr (bytesToHex ?h))"
    by (simp add: createBatch_onchain_def a c)
  then have "vault_seals sha signer v b cts v' (Inr (bytesToHex ?h, Some tx))"
    unfolding vault_seals_def by (intro disjI1 exI conjI) (assumption, simp)
  then show ?thesis
    using create_batch_get [OF c] vault_step_admin [OF batch_step [OF c] assms(2)] by auto
qed

definition sample_body :: submit_order_body where
  "sample_body = \<lparr>so_encrypted_data = js ''a'', so_threshold_pubkey = js ''k'', so_nonce = 1\<rparr>"

definition second_batch_id :: jsstring where
  "second_batch_id = replicate 32 49"

lemma sample_ids: "\<exists>x. batchIdBytes sample_batch_id = Inr x \<and> (\<exists>y. batchIdBytes second_batch_id = Inr y \<and> x \<noteq> y)"
proof -
  have "batchIdBytes sample_batch_id = Inr (replicate 16 0)" by code_simp
  moreover have "batchIdBytes second_batch_id = Inr (replicate 16 17)" by code_simp
  ultimately show ?thesis by simp
qed

lemma dev_run:
  "\<exists>s r1 r2 row. reachable (dev_seals sha) dev_step decrypts chain onchain [] s \<and> b_id r1 = js ''b'' \<and> b_id r2 = js ''c'' \<and>
    o_encrypted_data row = js ''a'' \<and> be_tasks s = {#TDecrypt r1 [row], TDecrypt r2 [row]#}"
proof -
  obtain x where x: "commitment_input [js ''a''] = Inr x" using sample_input by blast
  obtain l1 h1 where 1: "dev_seals sha [] (js ''b'') [js ''a''] l1 (Inr (h1, None))"
    "\<forall>c. c \<noteq> js ''b'' \<longrightarrow> map_of l1 c = None"
    using dev_can_seal [OF x, of "[]" "js ''b''" sha] by auto
  then have "map_of l1 (js ''c'') = None" by (simp add: js_def)
  then obtain l2 h2 where 2: "dev_seals sha l1 (js ''c'') [js ''a''] l2 (Inr (h2, None))"
    using dev_can_seal [OF x] by blast
  have "\<exists>s r1 r2 row. reachable (dev_seals sha) dev_step decrypts chain onchain [] s \<and> b_id r1 = js ''b'' \<and> b_id r2 = js ''c'' \<and>
    o_id row = js ''o'' \<and> o_encrypted_data row = so_encrypted_data sample_body \<and> be_tasks s = {#TDecrypt r1 [row], TDecrypt r2 [row]#}"
    by (rule two_batches_run) (use 1 2 in \<open>simp_all add: sample_body_def\<close>, simp_all add: js_def)
  then show ?thesis by (auto simp: sample_body_def)
qed

lemma vault_run:
  "\<exists>s r1 r2 row. reachable (vault_seals sha (js ''backend'')) vault_step decrypts chain onchain sample_vault s \<and>
    o_encrypted_data row = js ''a'' \<and> be_tasks s = {#TDecrypt r1 [row], TDecrypt r2 [row]#}"
proof -
  obtain x where x: "commitment_input [js ''a''] = Inr x" using sample_input by blast
  obtain i j where i: "batchIdBytes sample_batch_id = Inr i" and j: "batchIdBytes second_batch_id = Inr j" and ij: "i \<noteq> j"
    using sample_ids by blast
  obtain v1 h1 where 1: "vault_seals sha (js ''backend'') sample_vault sample_batch_id [js ''a''] v1 (Inr (h1, Some []))"
    "v_admin v1 = Some (js ''backend'')" "\<forall>c. c \<noteq> i \<longrightarrow> get_batch v1 c = None"
    using vault_can_seal [OF x _ i, of sample_vault "js ''backend''" sha "[]"]
    by (auto simp: sample_vault_def new_vault_def get_batch_def)
  have n: "get_batch v1 j = None" using 1(3) ij by metis
  obtain v2 h2 where 2: "vault_seals sha (js ''backend'') v1 second_batch_id [js ''a''] v2 (Inr (h2, Some []))"
    using vault_can_seal [OF x 1(2) j n, of sha "[]"] by auto
  have "length (js ''o'') = 1" "length sample_batch_id = 32" "length second_batch_id = 32" "hd sample_batch_id \<noteq> hd second_batch_id"
    by (simp_all add: js_def sample_batch_id_def second_batch_id_def)
  then have ne: "js ''o'' \<noteq> sample_batch_id" "js ''o'' \<noteq> second_batch_id" "sample_batch_id \<noteq> second_batch_id" by auto
  have "\<exists>s r1 r2 row. reachable (vault_seals sha (js ''backend'')) vault_step decrypts chain onchain sample_vault s \<and>
    b_id r1 = sample_batch_id \<and> b_id r2 = second_batch_id \<and> o_id row = js ''o'' \<and>
    o_encrypted_data row = so_encrypted_data sample_body \<and> be_tasks s = {#TDecrypt r1 [row], TDecrypt r2 [row]#}"
    by (rule two_batches_run) (use 1(1) 2 ne in \<open>simp_all add: sample_body_def\<close>)
  then show ?thesis by (auto simp: sample_body_def)
qed

section \<open>Properties\<close>

text \<open>C17: However requests interleave, fail and crash, at most one attempt to settle a batch is running, and
  while one runs the batch is recorded as submitted: the conditional update of \<open>settleBatch\<close> is
  a lock.\<close>

theorem one_settlement_at_a_time:
  assumes "reachable seal lstep decrypts chain onchain l s"
  shows "size {#t \<in># be_tasks s. settling b t#} \<le> 1 \<and>
    ((\<exists>t. t \<in># be_tasks s \<and> settling b t) \<longrightarrow> batch_status_of b s = Some Submitted)"
  using reachable_excl [OF assms] excl_settling [OF reachable_excl [OF assms]]
  by (auto simp: batch_status_of_def excl_inv_def single_def)

theorem one_settlement_at_a_time_witness:
  "\<exists>s. reachable (dev_seals (\<lambda>_. [])) dev_step (\<lambda>_ _ _. True) (\<lambda>_ _ _. True) True [] s \<and>
     size {#t \<in># be_tasks s. settling (js ''b'') t#} = 1 \<and> batch_status_of (js ''b'') s = Some Submitted"
proof -
  obtain s r1 r2 row where s: "reachable (dev_seals (\<lambda>_. [])) dev_step (\<lambda>_ _ _. True) (\<lambda>_ _ _. True) True [] s"
    "b_id r1 = js ''b''" "b_id r2 = js ''c''" "be_tasks s = {#TDecrypt r1 [row], TDecrypt r2 [row]#}"
    using dev_run [of "\<lambda>_. []" "\<lambda>_ _ _. True" "\<lambda>_ _ _. True" True] by blast
  have "size {#t \<in># be_tasks s. settling (js ''b'') t#} = 1" using s(2-4) by (simp add: js_def)
  then show ?thesis using one_settlement_at_a_time [OF s(1), of "js ''b''"] s(1,2,4) by auto
qed

text \<open>C18: The rows of the batches table refine the life cycle of one batch: sealed, then submitted, then settled
  or failed, and from failed only back to submitted.  No interleaving, failure or crash moves a
  batch otherwise, and a settled batch stays settled.\<close>

theorem batches_follow_lifecycle:
  assumes "reachable seal lstep decrypts chain onchain l s" "(be_step seal lstep decrypts chain onchain)\<^sup>*\<^sup>* s s'"
  shows "lifecycle\<^sup>*\<^sup>* (batch_status_of b s) (batch_status_of b s') \<and>
    (batch_status_of b s = Some BatchSettled \<longrightarrow> batch_status_of b s' = Some BatchSettled)"
  using lifecycle_run [OF assms(2) reachable_excl [OF assms(1)], of b] settled_final by metis

theorem batches_follow_lifecycle_witness:
  "\<exists>s. reachable (dev_seals (\<lambda>_. [])) dev_step (\<lambda>_ _ _. True) (\<lambda>_ _ _. True) True [] s \<and>
     lifecycle\<^sup>*\<^sup>* None (batch_status_of (js ''b'') s) \<and> batch_status_of (js ''b'') s = Some Submitted"
proof -
  obtain s r1 r2 row where s: "reachable (dev_seals (\<lambda>_. [])) dev_step (\<lambda>_ _ _. True) (\<lambda>_ _ _. True) True [] s"
    "b_id r1 = js ''b''" "be_tasks s = {#TDecrypt r1 [row], TDecrypt r2 [row]#}"
    using dev_run [of "\<lambda>_. []" "\<lambda>_ _ _. True" "\<lambda>_ _ _. True" True] by blast
  have "reachable (dev_seals (\<lambda>_. [])) dev_step (\<lambda>_ _ _. True) (\<lambda>_ _ _. True) True [] (new_backend [])"
    by (simp add: reachable_def)
  from batches_follow_lifecycle [OF this s(1) [unfolded reachable_def], of "js ''b''"]
  have "lifecycle\<^sup>*\<^sup>* None (batch_status_of (js ''b'') s)"
    by (simp add: batch_status_of_def new_backend_def batch_states_def)
  moreover have "batch_status_of (js ''b'') s = Some Submitted"
    using excl_settling [OF reachable_excl [OF s(1)], of "TDecrypt r1 [row]"] s(2,3) by (simp add: batch_status_of_def)
  ultimately show ?thesis using s(1) by blast
qed

text \<open>C16: Sealed before opened.  Whenever a settlement asks the validators for decryption shares, the list of
  ciphertexts it sends is that of the orders recorded for the batch, in the recorded order, and
  the order vault already accepts exactly this list for the batch: the check every validator makes
  succeeds, whatever requests ran in between.\<close>

theorem decryption_follows_sealing:
  assumes "reachable (vault_seals sha signer) vault_step decrypts chain onchain v s" "TDecrypt r rows \<in># be_tasks s"
  shows "map o_id rows = b_order_ids r \<and>
    is_ok (assertBatchSealed sha (vault_getBatch (be_ledger s)) (b_id r) (map o_encrypted_data rows))"
  using vault_sealing.decrypt_accepted [OF assms] by (simp add: accepts_def)

theorem decryption_follows_sealing_witness:
  "\<exists>s r row. reachable (vault_seals (\<lambda>_. []) (js ''backend'')) vault_step (\<lambda>_ _ _. True) (\<lambda>_ _ _. True) True sample_vault s \<and>
     o_encrypted_data row = js ''a'' \<and> TDecrypt r [row] \<in># be_tasks s \<and>
     is_ok (assertBatchSealed (\<lambda>_. []) (vault_getBatch (be_ledger s)) (b_id r) [js ''a''])"
proof -
  obtain s r r2 row where s: "reachable (vault_seals (\<lambda>_. []) (js ''backend'')) vault_step (\<lambda>_ _ _. True) (\<lambda>_ _ _. True) True sample_vault s"
    "o_encrypted_data row = js ''a''" "be_tasks s = {#TDecrypt r [row], TDecrypt r2 [row]#}"
    using vault_run [of "\<lambda>_. []" "\<lambda>_ _ _. True" "\<lambda>_ _ _. True" True] by blast
  have t: "TDecrypt r [row] \<in># be_tasks s" by (simp add: s(3))
  from decryption_follows_sealing [OF s(1) t]
  have "is_ok (assertBatchSealed (\<lambda>_. []) (vault_getBatch (be_ledger s)) (b_id r) [js ''a''])" by (simp add: s(2))
  then show ?thesis using s(1,2) t by blast
qed

text \<open>C34: One order can be sealed in two batches and opened for both.  \<open>createBatch\<close> looks for pending orders
  before it waits for the seal and marks them only afterwards, so two calls at the same time
  both find the order; both batches are then claimed, and the validators are asked to open it
  twice, which two settlements may each execute.\<close>

theorem order_in_two_batches:
  "\<exists>s r1 r2 row. reachable (dev_seals sha) dev_step decrypts chain onchain [] s \<and> b_id r1 \<noteq> b_id r2 \<and>
     TDecrypt r1 [row] \<in># be_tasks s \<and> TDecrypt r2 [row] \<in># be_tasks s"
proof -
  obtain s r1 r2 row where s: "reachable (dev_seals sha) dev_step decrypts chain onchain [] s"
    "b_id r1 = js ''b''" "b_id r2 = js ''c''" "be_tasks s = {#TDecrypt r1 [row], TDecrypt r2 [row]#}"
    using dev_run [of sha decrypts chain onchain] by blast
  then have "b_id r1 \<noteq> b_id r2" by (simp add: js_def)
  with s show ?thesis by fastforce
qed

section \<open>An outage\<close>

text \<open>The settlement when no order could be opened.\<close>

lemma outage_outcomes:
  assumes "0 < vn_threshold net"
  shows "\<exists>e. coordinateDecryption C W H ops (\<lambda>_ _ _. Inl err) (Some net) rows b orders
    = Inr (map (\<lambda>r. Rejected (o_id r) e) orders)"
proof -
  let ?e = "TooFewShares 0 (vn_threshold net)"
  have f: "efold (add_response C H registered cts) vs (map (\<lambda>v. (n_index ops v, Inl err)) xs) = Inr vs" for registered cts vs xs
    by (induction xs) (simp_all add: add_response_def)
  have "map2 (open_order C W (vn_threshold net)) (replicate (length orders) []) orders
      = map (\<lambda>r. Rejected (o_id r) ?e) orders"
    using assms by (induction orders) (simp_all add: open_order_def)
  then show ?thesis by (auto simp: coordinateDecryption_def getValidatorNetwork_def f)
qed

lemma fail_orders:
  "let d' = fold (\<lambda>out. case out of Opened i ord \<Rightarrow> id
           | Rejected i e \<Rightarrow> map_orders (\<lambda>r. if o_id r = i then r\<lparr>o_status := OrderFailed, o_failure_reason := Some e\<rparr> else r))
         (map (\<lambda>r. Rejected (o_id r) e) rows) d
   in db_batches d' = db_batches d \<and>
      (\<forall>x \<in> set (db_orders d'). \<exists>y \<in> set (db_orders d). o_id y = o_id x \<and>
         (o_status x = OrderFailed \<or> (x = y \<and> o_id x \<notin> o_id ` set rows)))"
proof (induction rows arbitrary: d)
  case (Cons r rows)
  let ?f = "\<lambda>x. if o_id x = o_id r then x\<lparr>o_status := OrderFailed, o_failure_reason := Some e\<rparr> else x"
  show ?case
    unfolding Let_def
  proof (intro conjI ballI)
    fix x
    assume "x \<in> set (db_orders (fold (\<lambda>out. case out of Opened i ord \<Rightarrow> id
           | Rejected i e \<Rightarrow> map_orders (\<lambda>r. if o_id r = i then r\<lparr>o_status := OrderFailed, o_failure_reason := Some e\<rparr> else r))
         (map (\<lambda>r. Rejected (o_id r) e) (r # rows)) d))"
    then obtain y where y: "y \<in> set (db_orders d)" "o_id (?f y) = o_id x"
      "o_status x = OrderFailed \<or> (x = ?f y \<and> o_id x \<notin> o_id ` set rows)"
      using Cons [of "map_orders ?f d", unfolded Let_def] by (auto simp: map_orders_def)
    then show "\<exists>y \<in> set (db_orders d). o_id y = o_id x \<and>
         (o_status x = OrderFailed \<or> (x = y \<and> o_id x \<notin> o_id ` set (r # rows)))"
      by (intro bexI [of _ y]) (auto split: if_splits)
  qed (use Cons [of "map_orders ?f d", unfolded Let_def] in simp)
qed auto

lemma settle_orders_ids:
  "x \<in> set (db_orders d) \<Longrightarrow> o_id x \<in> set (b_order_ids r) \<Longrightarrow> o_id x \<in> o_id ` set (settle_orders r d)"
proof -
  assume x: "x \<in> set (db_orders d)" "o_id x \<in> set (b_order_ids r)"
  let ?ps = "rev (map (\<lambda>o'. (o_id o', o')) (filter (\<lambda>o'. o_id o' \<in> set (b_order_ids r)) (db_orders d)))"
  have "o_id x \<in> fst ` set ?ps" using x by (simp add: image_image)
  then have "map_of ?ps (o_id x) \<noteq> None" by (simp add: map_of_eq_None_iff)
  then obtain y where y: "map_of ?ps (o_id x) = Some y" by blast
  then have "o_id y = o_id x" by (auto dest!: map_of_SomeD)
  moreover have "y \<in> set (settle_orders r d)"
    using x(2) y unfolding settle_orders_def Let_def by (auto intro!: bexI [of _ "o_id x"])
  ultimately show ?thesis by (metis image_eqI)
qed

lemma find_batch_in: "find_batch b d = Some r \<Longrightarrow> r \<in> set (db_batches d) \<and> b_id r = b"
  by (auto simp: find_batch_def find_Some_iff)

lemma find_batch_None: "find_batch b d = None \<longleftrightarrow> b \<notin> fst ` set (batch_keys d)"
  unfolding find_batch_def find_None_iff batch_keys_def by (simp add: image_image) blast

lemma claim_none: "(\<And>x. x \<in> set (db_batches d) \<Longrightarrow> \<not> claimable b x) \<Longrightarrow> settle_claim b d = (d, 0)"
  by (auto simp: settle_claim_def filter_empty_conv intro!: db.equality map_idI)

lemma settle_refused: "find_batch b d \<noteq> None \<Longrightarrow> settle_claim b d = (d, 0) \<Longrightarrow>
  settleBatch oc decrypt chain i now b d = (d, Inl (AppError 409))"
  by (auto simp: settleBatch_def)

lemma set_status_all: "x \<in> set (db_batches (set_batch_status b st d)) \<Longrightarrow> b_id x = b \<Longrightarrow> b_status x = st"
proof -
  assume "x \<in> set (db_batches (set_batch_status b st d))" and b: "b_id x = b"
  then have "x \<in> (\<lambda>r. if b_id r = b then r\<lparr>b_status := st\<rparr> else r) ` set (db_batches d)"
    by (simp add: set_batch_status_def)
  then obtain r where "x = (if b_id r = b then r\<lparr>b_status := st\<rparr> else r)" by (rule imageE)
  then show ?thesis using b by (cases "b_id r = b") simp_all
qed

text \<open>C35: An outage of the validators is not retried.  When every validator is unreachable,
  \<open>coordinateDecryption\<close> does not throw but rejects each order, so \<open>settleBatch\<close> returns a
  settlement: all orders of the batch become failed, the batch becomes settled, and the retry
  endpoint answers 409 from then on.\<close>

theorem outage_fails_orders:
  assumes "find_batch b d = Some batch" "claimable b batch" "0 < vn_threshold net"
  shows "case settleBatch oc (coordinateDecryption C W H ops (\<lambda>_ _ _. Inl err) (Some net) rows) chain i now b d of (d', r) \<Rightarrow>
    is_ok r \<and> (\<forall>x \<in> set (db_orders d'). o_id x \<in> set (b_order_ids batch) \<longrightarrow> o_status x = OrderFailed) \<and>
    (\<forall>x \<in> set (db_batches d'). b_id x = b \<longrightarrow> b_status x = BatchSettled) \<and>
    settleBatch oc' decrypt' chain' i' now' b d' = (d', Inl (AppError 409))"
proof -
  obtain d1 n where c: "settle_claim b d = (d1, n)" "n \<noteq> 0"
    using find_batch_in [OF assms(1)] assms(2) by (auto simp: settle_claim_def filter_empty_conv)
  obtain e where e: "coordinateDecryption C W H ops (\<lambda>_ _ _. Inl err) (Some net) rows b (settle_orders batch d1)
    = Inr (map (\<lambda>r. Rejected (o_id r) e) (settle_orders batch d1))" using outage_outcomes [OF assms(3)] by blast
  let ?outs = "map (\<lambda>r. Rejected (o_id r) e) (settle_orders batch d1)"
  have no: "decrypted_of ?outs = []" by (simp add: decrypted_of_def)
  let ?d2 = "settle_write oc ?outs [] d1"
  let ?d3 = "set_batch_status b BatchSettled (settle_create i now b [] ?d2)"
  have run: "settleBatch oc (coordinateDecryption C W H ops (\<lambda>_ _ _. Inl err) (Some net) rows) chain i now b d
      = (?d3, Inr (last (db_settlements (settle_create i now b [] ?d2))))"
    using assms(1) c e no by (simp add: settleBatch_def split_def Let_def)
  have w: "db_batches ?d2 = db_batches d1" and o2: "\<forall>x \<in> set (db_orders ?d2). \<exists>y \<in> set (db_orders d1). o_id y = o_id x \<and>
         (o_status x = OrderFailed \<or> (x = y \<and> o_id x \<notin> o_id ` set (settle_orders batch d1)))"
    using fail_orders [of e "settle_orders batch d1" d1] by (simp_all add: settle_write_def no Let_def)
  have orders: "db_orders ?d3 = db_orders ?d2" by (simp add: set_batch_status_def settle_create_def)
  have fail: "\<forall>x \<in> set (db_orders ?d3). o_id x \<in> set (b_order_ids batch) \<longrightarrow> o_status x = OrderFailed"
  proof (intro ballI impI)
    fix x assume x: "x \<in> set (db_orders ?d3)" "o_id x \<in> set (b_order_ids batch)"
    obtain y where y: "y \<in> set (db_orders d1)" "o_id y = o_id x"
      "o_status x = OrderFailed \<or> o_id x \<notin> o_id ` set (settle_orders batch d1)"
      using o2 x(1) unfolding orders by blast
    have "o_id y \<in> o_id ` set (settle_orders batch d1)"
      by (rule settle_orders_ids [OF y(1)]) (simp add: y(2) x(2))
    then show "o_status x = OrderFailed" using y(2,3) by simp
  qed
  have settled: "\<forall>x \<in> set (db_batches ?d3). b_id x = b \<longrightarrow> b_status x = BatchSettled"
    using set_status_all by blast
  have "batch_keys ?d3 = batch_keys d" using settle_claim_eq [OF c(1)] by (simp add: set_status_eq)
  then have "find_batch b ?d3 \<noteq> None" using assms(1) find_batch_None [of b d] find_batch_None [of b ?d3] by simp
  moreover have "settle_claim b ?d3 = (?d3, 0)"
  proof (rule claim_none)
    fix x assume "x \<in> set (db_batches ?d3)"
    then have "b_id x = b \<longrightarrow> b_status x = BatchSettled" using settled by blast
    then show "\<not> claimable b x" by (auto simp: claimable_def)
  qed
  ultimately have "settleBatch oc' decrypt' chain' i' now' b ?d3 = (?d3, Inl (AppError 409))"
    by (rule settle_refused)
  then show ?thesis using run fail settled by simp
qed

definition sample_db :: db where
  "sample_db = \<lparr>db_orders = [sample_row (js ''x'')],
     db_batches = [\<lparr>b_id = js ''b1'', b_order_ids = [js ''o1''], b_status = Created, b_content_hash = None,
       b_commitment_tx = None, b_created_at = 0\<rparr>], db_settlements = []\<rparr>"

theorem outage_fails_orders_witness:
  "\<exists>d' s. settleBatch True (coordinateDecryption sample_curve sample_crypto (\<lambda>_. [7]) offline_ops (\<lambda>_ _ _. Inl (HttpError 0))
       (Some sample_net) sample_rows) (\<lambda>_ _. Inr []) (js ''s1'') 5 (js ''b1'') sample_db = (d', Inr s) \<and>
     settleBatch True (coordinateDecryption sample_curve sample_crypto (\<lambda>_. [7]) offline_ops (sample_ask (\<lambda>_. Inl (HttpError 0)))
       (Some sample_net) sample_rows) (\<lambda>_ _. Inr []) (js ''s2'') 6 (js ''b1'') d' = (d', Inl (AppError 409))"
proof -
  let ?b = "hd (db_batches sample_db)"
  have "find_batch (js ''b1'') sample_db = Some ?b" "claimable (js ''b1'') ?b" "0 < vn_threshold sample_net"
    by (simp_all add: sample_db_def find_batch_def claimable_def sample_net_def)
  from outage_fails_orders [OF this, where oc = True and C = sample_curve and W = sample_crypto and H = "\<lambda>_. [7]"
      and ops = offline_ops and err = "HttpError 0" and rows = sample_rows and chain = "\<lambda>_ _. Inr []" and i = "js ''s1''" and now = 5
      and oc' = True and decrypt' = "coordinateDecryption sample_curve sample_crypto (\<lambda>_. [7]) offline_ops (sample_ask (\<lambda>_. Inl (HttpError 0)))
       (Some sample_net) sample_rows" and chain' = "\<lambda>_ _. Inr []" and i' = "js ''s2''" and now' = 6]
  show ?thesis by (auto simp: is_ok_def split: prod.splits sum.splits)
qed

end
