(* ===== verification/Strings.thy ===== *)
theory Strings
  imports JsonText Codec
begin

text \<open>
  JavaScript's string operations that the services and the frontend use beyond those of
  \<open>Text\<close>: white space and \<open>trim\<close>, \<open>split\<close> at one character, \<open>padEnd\<close>, the conversions
  \<open>Number(s)\<close> and \<open>Buffer.toString('utf8')\<close>, and eight-byte big-endian integers.
\<close>

section \<open>White space and splitting\<close>

definition js_space :: "16 word \<Rightarrow> bool" where
  "js_space c \<longleftrightarrow> c \<in> {9, 10, 11, 12, 13, 32, 0xA0, 0x1680, 0x2028, 0x2029, 0x202F, 0x205F, 0x3000, 0xFEFF} \<or>
     0x2000 \<le> c \<and> c \<le> 0x200A"

definition js_trim :: "jsstring \<Rightarrow> jsstring" where
  "js_trim s = rev (dropWhile js_space (rev (dropWhile js_space s)))"

fun js_split :: "16 word \<Rightarrow> jsstring \<Rightarrow> jsstring list" where
  "js_split c [] = [[]]"
| "js_split c (u # s) = (if u = c then [] # js_split c s
     else (case js_split c s of [] \<Rightarrow> [[u]] | p # ps \<Rightarrow> (u # p) # ps))"

definition padEnd :: "nat \<Rightarrow> 16 word \<Rightarrow> jsstring \<Rightarrow> jsstring" where
  "padEnd n c s = s @ replicate (n - length s) c"

lemma js_split_nonempty: "js_split c s \<noteq> []"
  by (cases "(c, s)" rule: js_split.cases) (auto split: list.splits)

lemma js_split_none: "c \<notin> set s \<Longrightarrow> js_split c s = [s]"
  by (induction s) auto

lemma js_split_append: "c \<notin> set a \<Longrightarrow> js_split c (a @ c # b) = a # js_split c b"
  by (induction a) auto

lemma js_split_parts: "p \<in> set (js_split c s) \<Longrightarrow> c \<notin> set p"
proof (induction s arbitrary: p)
  case (Cons u s)
  obtain q qs where "js_split c s = q # qs" by (meson js_split_nonempty neq_Nil_conv)
  with Cons show ?case by (auto split: if_splits)
qed simp

lemma js_split_two: "js_split c s = [a, b] \<longleftrightarrow> s = a @ c # b \<and> c \<notin> set a \<and> c \<notin> set b"
proof
  assume *: "js_split c s = [a, b]"
  have "join [c] (js_split c s) = s"
  proof (induction s)
    case (Cons u s)
    obtain q qs where "js_split c s = q # qs" by (meson js_split_nonempty neq_Nil_conv)
    with Cons show ?case by (cases qs) auto
  qed simp
  then show "s = a @ c # b \<and> c \<notin> set a \<and> c \<notin> set b"
    using js_split_parts [of a c s, unfolded *] js_split_parts [of b c s, unfolded *] unfolding * by auto
next
  assume "s = a @ c # b \<and> c \<notin> set a \<and> c \<notin> set b"
  then show "js_split c s = [a, b]" by (simp add: js_split_append js_split_none)
qed

lemma js_trim_id: "s = [] \<or> \<not> js_space (hd s) \<and> \<not> js_space (last s) \<Longrightarrow> js_trim s = s"
proof -
  assume s: "s = [] \<or> \<not> js_space (hd s) \<and> \<not> js_space (last s)"
  have "dropWhile js_space s = s" using s by (cases s) auto
  moreover have "dropWhile js_space (rev s) = rev s" using s by (cases "rev s") (auto simp: hd_rev last_rev dest: arg_cong [of _ _ rev])
  ultimately show ?thesis by (simp add: js_trim_def)
qed

section \<open>Bytes\<close>

text \<open>\<open>Buffer.toString('utf8')\<close>: as the text decoder, but a byte order mark stays.\<close>

definition buffer_toString :: "byte list \<Rightarrow> jsstring" where
  "buffer_toString bs = concat (map code_units (utf8_lead (map unat bs)))"

lemma buffer_toString_encode: "well_formed s \<Longrightarrow> buffer_toString (utf8_encode s) = s"
  by (simp add: buffer_toString_def utf8_lead_encode code_units_code_points)

lemma utf8_bytes_ascii: "\<forall>b \<in> set (utf8_bytes c). b < 128 \<Longrightarrow> c < 128"
proof (rule ccontr)
  assume b: "\<forall>b \<in> set (utf8_bytes c). b < 128" and c: "\<not> c < 128"
  have "192 \<le> hd (utf8_bytes c)" "utf8_bytes c \<noteq> []" using c by (simp_all add: utf8_bytes_def)
  moreover from this(2) have "hd (utf8_bytes c) < 128" using b hd_in_set by blast
  ultimately show False by linarith
qed

lemma lone_unit_ascii: "lone_unit u < 128 \<Longrightarrow> unat u < 128"
  by (auto simp: lone_unit_def split: if_splits)

lemma code_points_ascii_only: "\<forall>c \<in> set (code_points s). c < 128 \<Longrightarrow> \<forall>u \<in> set s. unat u < 128"
proof (induction s rule: code_points.induct)
  case (2 u)
  then show ?case using lone_unit_ascii [of u] by simp
next
  case (3 u v us)
  have "\<not> surrogate_pair u v < 128" by (simp add: surrogate_pair_def)
  then have p: "\<not> (is_high u \<and> is_low v)" using "3.prems" by auto
  then have c: "code_points (u # v # us) = lone_unit u # code_points (v # us)"
    by (simp only: code_points.simps(3) p if_False)
  have "\<forall>w \<in> set (v # us). unat w < 128" using "3.IH"(2) [OF p] "3.prems" unfolding c by simp
  moreover have "unat u < 128" using "3.prems" lone_unit_ascii [of u] unfolding c by simp
  ultimately show ?case by simp
qed simp

lemma utf8_encode_ascii_only:
  assumes "\<forall>b \<in> set (map unat (utf8_encode s)). b < 128"
  shows "\<forall>u \<in> set s. unat u < 128"
proof (rule code_points_ascii_only, rule ballI, rule utf8_bytes_ascii, rule ballI)
  fix c b assume "c \<in> set (code_points s)" "b \<in> set (utf8_bytes c)"
  then have "b \<in> set (concat (map utf8_bytes (code_points s)))" by auto
  then show "b < 128" using assms unfolding unat_utf8_encode by blast
qed

lemma unat_utf8_ascii: "\<forall>u \<in> set s. unat u < 128 \<Longrightarrow> map unat (utf8_encode s) = map unat s"
proof -
  assume a: "\<forall>u \<in> set s. unat u < 128"
  then have "concat (map utf8_bytes (map unat s)) = map unat s" by (induction s) (auto simp: utf8_bytes_def)
  then show ?thesis using code_points_ascii [OF a] by (simp only: unat_utf8_encode)
qed

lemma utf8_encode_eq_ascii:
  assumes "\<forall>u \<in> set t. unat u < 128" "utf8_encode s = utf8_encode t"
  shows "s = t"
proof -
  have "\<forall>b \<in> set (map unat (utf8_encode s)). b < 128"
    unfolding assms(2) unat_utf8_ascii [OF assms(1)] using assms(1) by simp
  then have "\<forall>u \<in> set s. unat u < 128" by (rule utf8_encode_ascii_only)
  then show ?thesis using utf8_encode_inj assms well_formed_ascii by blast
qed

lemma utf8_encode_nonempty: "s \<noteq> [] \<Longrightarrow> utf8_encode s \<noteq> []"
proof
  assume "s \<noteq> []" "utf8_encode s = []"
  then have "code_points s = []" using utf8_lead_encode [of s] by simp
  with \<open>s \<noteq> []\<close> show False by (cases s rule: code_points.cases) (auto split: if_splits)
qed

text \<open>\<open>writeBigUInt64BE\<close> and \<open>readBigUInt64BE\<close>.\<close>

definition be64 :: "nat \<Rightarrow> byte list" where
  "be64 n = map (\<lambda>i. of_nat (n div 256 ^ i)) [7, 6, 5, 4, 3, 2, 1, 0]"

definition be64_value :: "byte list \<Rightarrow> nat" where
  "be64_value bs = foldl (\<lambda>a b. 256 * a + unat b) 0 bs"

lemma length_be64 [simp]: "length (be64 n) = 8"
  by (simp add: be64_def)

lemma be64_value_be64: "n < 2 ^ 64 \<Longrightarrow> be64_value (be64 n) = n"
proof -
  assume n: "n < 2 ^ 64"
  have d: "256 * (m div 256) + m mod 256 = m" for m :: nat by simp
  have s: "n div 256 ^ Suc i = n div 256 ^ i div 256" for i by (simp only: power_Suc2 div_mult2_eq)
  have e: "j = Suc i \<Longrightarrow> 256 * (n div 256 ^ j) + n div 256 ^ i mod 256 = n div 256 ^ i" for i j
    using d [of "n div 256 ^ i"] by (simp only: s)
  have z: "n div 256 ^ 7 mod 256 = n div 256 ^ 7"
    using n by (intro mod_less) (simp add: div_less_iff_less_mult)
  have es: "256 * (n div 256 ^ 7) + n div 256 ^ 6 mod 256 = n div 256 ^ 6"
    "256 * (n div 256 ^ 6) + n div 256 ^ 5 mod 256 = n div 256 ^ 5"
    "256 * (n div 256 ^ 5) + n div 256 ^ 4 mod 256 = n div 256 ^ 4"
    "256 * (n div 256 ^ 4) + n div 256 ^ 3 mod 256 = n div 256 ^ 3"
    "256 * (n div 256 ^ 3) + n div 256 ^ 2 mod 256 = n div 256 ^ 2"
    "256 * (n div 256 ^ 2) + n div 256 ^ 1 mod 256 = n div 256 ^ 1"
    by (rule e, simp)+
  have e0: "256 * (n div 256 ^ 1) + n mod 256 = n" by simp
  have u: "unat (of_nat m :: byte) = m mod 256" for m by (simp add: unat_of_nat)
  show ?thesis
    unfolding be64_value_def be64_def
    by (simp only: list.map foldl.simps u z es e0 mult_0_right add_0 power_0 div_by_1)
qed

section \<open>Numbers\<close>

text \<open>A decimal literal with optional sign; \<open>None\<close> is \<open>NaN\<close>.\<close>

definition decimal_literal :: "jsstring \<Rightarrow> js_number option" where
  "decimal_literal s =
     (let neg = (take 1 s = [45]); t = (if take 1 s = [45] \<or> take 1 s = [43] then tl s else s);
          ds = takeWhile is_digit t; r = dropWhile is_digit t;
          dot = (take 1 r = [46]); fd = (if dot then takeWhile is_digit (tl r) else []);
          r' = (if dot then dropWhile is_digit (tl r) else r)
      in if t = js ''Infinity'' then Some (Infinite neg)
         else if ds = [] \<and> fd = [] then None
         else (case parse_exponent r' of
            Some (e, []) \<Rightarrow> Some (round_double ((if neg then - 1 else 1) * of_int (dec_value (ds @ fd)) * power_int 10 (e - int (length fd))))
          | _ \<Rightarrow> None))"

definition radix_literal :: "nat \<Rightarrow> (16 word \<Rightarrow> bool) \<Rightarrow> jsstring \<Rightarrow> js_number option" where
  "radix_literal b ok s = (if s \<noteq> [] \<and> list_all ok s
     then Some (round_double (of_int (foldl (\<lambda>a c. int b * a + int (hex_digit c)) 0 s))) else None)"

text \<open>\<open>Number(s)\<close>.\<close>

definition js_Number :: "jsstring \<Rightarrow> js_number option" where
  "js_Number s =
     (let t = js_trim s; p = take 2 t in
      if t = [] then Some (Fin 0)
      else if p = js ''0x'' \<or> p = js ''0X'' then radix_literal 16 is_hex (drop 2 t)
      else if p = js ''0o'' \<or> p = js ''0O'' then radix_literal 8 (\<lambda>c. 48 \<le> c \<and> c \<le> 55) (drop 2 t)
      else if p = js ''0b'' \<or> p = js ''0B'' then radix_literal 2 (\<lambda>c. c = 48 \<or> c = 49) (drop 2 t)
      else decimal_literal t)"

text \<open>\<open>Number(s) || d\<close>.\<close>

definition number_or :: "jsstring option \<Rightarrow> js_number \<Rightarrow> js_number" where
  "number_or s d = (case Option.bind s js_Number of None \<Rightarrow> d | Some x \<Rightarrow> if x = Fin 0 then d else x)"

section \<open>How long a text gets\<close>

lemma length_json_unit: "length (json_unit u) \<le> 6"
proof -
  obtain h where "padStart 4 48 (nat_to_string 16 (unat u)) = h" "length h = 4" using hex_escape by blast
  then show ?thesis by (simp add: json_unit_def json_escape_def)
qed

lemma length_json_units: "length (json_units s) \<le> 6 * length s"
proof (induction s rule: json_units.induct)
  case (3 u v us)
  have "length (json_units (u # v # us)) \<le> max (2 + length (json_units us)) (length (json_unit u) + length (json_units (v # us)))"
    by simp
  then show ?case using 3 length_json_unit [of u] by (cases "is_high u \<and> is_low v") auto
qed (use length_json_unit in simp_all)

lemma length_json_quote: "length (json_quote s) \<le> 6 * length s + 2"
  using length_json_units [of s] by (simp add: json_quote_def)

lemma length_join: "length (join [c] xs) \<le> sum_list (map length xs) + length xs"
  by (induction "[c]" xs rule: join.induct) simp_all

lemma length_int_text: "\<bar>i\<bar> < 10 ^ 16 \<Longrightarrow> length (int_to_string 10 i) \<le> 17"
proof -
  assume i: "\<bar>i\<bar> < 10 ^ 16"
  then have "nat \<bar>i\<bar> < 10 ^ 16" by simp
  then have "length (nat_to_string 10 (nat \<bar>i\<bar>)) \<le> 16"
    unfolding nat_to_string_def length_map by (intro radix_digits_length_le) simp_all
  then show ?thesis by (auto simp: int_to_string_def split: if_splits)
qed

fun scalar_size :: "json \<Rightarrow> nat" where
  "scalar_size (JStr s) = 6 * length s + 2"
| "scalar_size (JInt i) = 17"
| "scalar_size _ = 0"

lemma length_stringify:
  assumes "list_all (\<lambda>(k, j). case j of JStr s \<Rightarrow> True | JInt i \<Rightarrow> \<bar>i\<bar> < 10 ^ 16 | _ \<Rightarrow> False) kjs"
  shows "length (JSON_stringify kjs) \<le> 2 + sum_list (map (\<lambda>(k, j). 6 * length k + 4 + scalar_size j) kjs)"
proof -
  have "length (json_quote k @ [58] @ json_text j) \<le> 6 * length k + 3 + scalar_size j" if "(k, j) \<in> set kjs" for k j
  proof -
    have "case j of JStr s \<Rightarrow> True | JInt i \<Rightarrow> \<bar>i\<bar> < 10 ^ 16 | _ \<Rightarrow> False"
      using bspec [OF assms [unfolded list_all_iff] that] by (simp only: prod.case)
    then have "length (json_text j) \<le> scalar_size j"
      using length_json_quote length_int_text by (cases j) (simp_all add: json_text_def)
    then show ?thesis using length_json_quote [of k] by simp
  qed
  then have "sum_list (map length (map (\<lambda>(k, v). json_quote k @ [58] @ json_text v) kjs))
      \<le> sum_list (map (\<lambda>(k, j). 6 * length k + 3 + scalar_size j) kjs)"
    unfolding map_map comp_def by (intro sum_list_mono) auto
  moreover have "sum_list (map (\<lambda>(k, j). 6 * length k + 4 + scalar_size j) kjs)
      = sum_list (map (\<lambda>(k, j). 6 * length k + 3 + scalar_size j) kjs) + length kjs"
    by (induction kjs) auto
  ultimately show ?thesis
    using length_join [of 44 "map (\<lambda>(k, v). json_quote k @ [58] @ json_text v) kjs"]
    unfolding JSON_stringify_def by simp
qed

text \<open>Literals are equal when their texts are.\<close>

lemma js_eq_iff: "js x = js y \<longleftrightarrow> x = y"
proof -
  have u: "unat (of_char c :: 16 word) = (of_char c :: nat)" for c
  proof -
    have "(of_char c :: nat) < 2 ^ 16" by (rule less_trans [OF nat_of_char_less_256]) simp
    moreover have "(of_char c :: 16 word) = of_nat (of_char c)" by (rule of_nat_of_char [symmetric])
    ultimately show ?thesis by (simp only: unat_of_nat) simp
  qed
  have "inj (of_char :: char \<Rightarrow> 16 word)"
  proof (rule injI)
    fix c d :: char assume "(of_char c :: 16 word) = of_char d"
    then have "(of_char c :: nat) = of_char d" using u by metis
    then show "c = d" by simp
  qed
  then show ?thesis by (simp add: js_def)
qed

end
