(* ===== verification/Auth.thy ===== *)
theory Auth
  imports Strings Codec
begin

text \<open>
  \<open>backend/src/services/authService.ts\<close> and \<open>middleware/auth.ts\<close>: sign-in by a challenge
  transaction that the wallet signs, and session tokens.  The HMAC under the process's secret,
  Node's base64url decoder and the Stellar SDK are parameters; the clock in seconds and the
  random bytes are arguments.
\<close>

section \<open>Parameters\<close>

text \<open>\<open>mac\<close>: HMAC-SHA256 under the secret, of the concatenated parts.\<close>

record node_env =
  mac :: "byte list \<Rightarrow> byte list"
  from_base64url :: "jsstring \<Rightarrow> byte list"

definition node_laws :: "node_env \<Rightarrow> bool" where
  "node_laws N \<longleftrightarrow> (\<forall>m. length (mac N m) = 32) \<and> (\<forall>bs. from_base64url N (base64UrlEncode bs) = bs)"

datatype operation = ManageData jsstring "byte list option" "jsstring option" | OtherOperation

record transaction =
  tx_source :: jsstring
  tx_sequence :: jsstring
  tx_operations :: "operation list"
  tx_signatures :: "(byte list \<times> byte list) list"

datatype parsed_transaction = FeeBump | Plain transaction

text \<open>
  The SDK: addresses, the envelope encoding, the hash of a transaction for the configured network,
  and, for the key of an address, the hint and the verification of a signature.
\<close>

record stellar_sdk =
  isValidEd25519PublicKey :: "jsstring \<Rightarrow> bool"
  toXDR :: "transaction \<Rightarrow> jsstring"
  fromXDR :: "jsstring \<Rightarrow> parsed_transaction option"
  tx_hash :: "transaction \<Rightarrow> byte list"
  signatureHint :: "jsstring \<Rightarrow> error + byte list"
  verify_sig :: "jsstring \<Rightarrow> byte list \<Rightarrow> byte list \<Rightarrow> bool"

text \<open>
  Documented: signatures are no part of the hash, a valid account address is ASCII and has a key, and the
  source of a parsed transaction is an account (\<open>G...\<close>) or a muxed account (\<open>M...\<close>).
\<close>

definition sdk_laws :: "stellar_sdk \<Rightarrow> bool" where
  "sdk_laws S \<longleftrightarrow>
     (\<forall>t sigs. tx_hash S (t\<lparr>tx_signatures := sigs\<rparr>) = tx_hash S t) \<and>
     (\<forall>a. isValidEd25519PublicKey S a \<longrightarrow> is_ok (signatureHint S a) \<and> (\<forall>u \<in> set a. unat u < 128)) \<and>
     (\<forall>xdr t. fromXDR S xdr = Some (Plain t) \<longrightarrow>
        take 1 (tx_source t) \<in> {js ''G'', js ''M''} \<and> (\<forall>u \<in> set (tx_source t). unat u < 128))"

section \<open>\<open>authService\<close>\<close>

definition AUTH_DATA_NAME :: jsstring where
  "AUTH_DATA_NAME = js ''cipher-protocol auth''"

definition CHALLENGE_TTL_S :: nat where
  "CHALLENGE_TTL_S = 300"

definition SESSION_TTL_S :: nat where
  "SESSION_TTL_S = 3600"

text \<open>The key of the HMAC, from the configuration or drawn at random.\<close>

definition auth_secret :: "jsstring \<Rightarrow> byte list \<Rightarrow> error + byte list" where
  "auth_secret authTokenSecret randomBytes =
     (if authTokenSecret \<noteq> [] then
        (if length authTokenSecret < 32 then Inl SecretTooShort else Inr (utf8_encode authTokenSecret))
      else Inr randomBytes)"

definition assertAccountAddress :: "stellar_sdk \<Rightarrow> js_value option \<Rightarrow> error + jsstring" where
  "assertAccountAddress S address = (case address of
     Some (VStr a) \<Rightarrow> if isValidEd25519PublicKey S a then Inr a else Inl (AppError 400)
   | _ \<Rightarrow> Inl (AppError 400))"

definition challenge_message :: "jsstring \<Rightarrow> byte list \<Rightarrow> byte list \<Rightarrow> byte list" where
  "challenge_message address expiry random = utf8_encode address @ expiry @ random"

definition session_message :: "jsstring \<Rightarrow> byte list" where
  "session_message payload = utf8_encode (js ''session.'') @ utf8_encode payload"

definition challenge_mac :: "node_env \<Rightarrow> jsstring \<Rightarrow> byte list \<Rightarrow> byte list \<Rightarrow> byte list" where
  "challenge_mac N address expiry random = mac N (challenge_message address expiry random)"

text \<open>The transaction of a challenge; \<open>createChallenge\<close> returns its encoding.\<close>

definition challenge_tx :: "node_env \<Rightarrow> nat \<Rightarrow> byte list \<Rightarrow> jsstring \<Rightarrow> transaction" where
  "challenge_tx N now random address =
     (let expiry = be64 (now + CHALLENGE_TTL_S) in
      \<lparr>tx_source = address, tx_sequence = js ''0'',
       tx_operations = [ManageData AUTH_DATA_NAME (Some (expiry @ random @ challenge_mac N address expiry random)) None],
       tx_signatures = []\<rparr>)"

definition createChallenge :: "node_env \<Rightarrow> stellar_sdk \<Rightarrow> nat \<Rightarrow> byte list \<Rightarrow> js_value option \<Rightarrow> error + jsstring" where
  "createChallenge N S now random address =
     ebind (assertAccountAddress S address) (\<lambda>a. Inr (toXDR S (challenge_tx N now random a)))"

record session =
  se_address :: jsstring
  se_expiresAt :: js_number

record issued_session =
  is_token :: jsstring
  is_address :: jsstring
  is_expires_at :: nat

definition session_mac :: "node_env \<Rightarrow> jsstring \<Rightarrow> jsstring" where
  "session_mac N payload = base64UrlEncode (mac N (session_message payload))"

definition session_payload :: "jsstring \<Rightarrow> nat \<Rightarrow> jsstring" where
  "session_payload address expiresAt =
     base64UrlEncode (utf8_encode (JSON_stringify [(js ''a'', JStr address), (js ''e'', JInt (int expiresAt))]))"

definition issueSession :: "node_env \<Rightarrow> nat \<Rightarrow> jsstring \<Rightarrow> issued_session" where
  "issueSession N now address =
     (let expiresAt = now + SESSION_TTL_S; payload = session_payload address expiresAt in
      \<lparr>is_token = payload @ [46] @ session_mac N payload, is_address = address, is_expires_at = expiresAt\<rparr>)"

text \<open>The checks on the transaction, in the code's order, and the value it carries.\<close>

definition challenge_value :: "transaction \<Rightarrow> error + byte list" where
  "challenge_value tx =
     (if tx_sequence tx \<noteq> js ''0'' \<or> length (tx_operations tx) \<noteq> 1 then Inl (AppError 401)
      else (case hd (tx_operations tx) of
         ManageData name (Some value) source \<Rightarrow>
           if name \<noteq> AUTH_DATA_NAME \<or> length value \<noteq> 64 \<or> (source \<noteq> None \<and> source \<noteq> Some (tx_source tx))
           then Inl (AppError 401) else Inr value
       | _ \<Rightarrow> Inl (AppError 401)))"

definition signed_by :: "stellar_sdk \<Rightarrow> transaction \<Rightarrow> byte list \<Rightarrow> bool" where
  "signed_by S tx hint \<longleftrightarrow>
     list_ex (\<lambda>(h, sig). h = hint \<and> verify_sig S (tx_source tx) (tx_hash S tx) sig) (tx_signatures tx)"

definition verifyChallenge :: "node_env \<Rightarrow> stellar_sdk \<Rightarrow> nat \<Rightarrow> js_value option \<Rightarrow> error + issued_session" where
  "verifyChallenge N S now signedXdr =
     (case signedXdr of
        Some (VStr xdr) \<Rightarrow>
          if length xdr > 4096 then Inl (AppError 400)
          else (case fromXDR S xdr of
             Some (Plain tx) \<Rightarrow>
               ebind (challenge_value tx) (\<lambda>value.
               let expiry = take 8 value; random = take 24 (drop 8 value); given = drop 32 value in
               if given \<noteq> challenge_mac N (tx_source tx) expiry random then Inl (AppError 401)
               else if be64_value expiry < now then Inl (AppError 401)
               else ebind (signatureHint S (tx_source tx)) (\<lambda>hint.
                 if \<not> signed_by S tx hint then Inl (AppError 401) else Inr (issueSession N now (tx_source tx))))
           | _ \<Rightarrow> Inl (AppError 401))
      | _ \<Rightarrow> Inl (AppError 400))"

definition js_less_nat :: "js_number \<Rightarrow> nat \<Rightarrow> bool" where
  "js_less_nat x n = (case x of Fin q \<Rightarrow> q < of_nat n | Infinite neg \<Rightarrow> neg)"

definition verifySession :: "node_env \<Rightarrow> nat \<Rightarrow> jsstring \<Rightarrow> session option" where
  "verifySession N now token =
     (case js_split 46 token of
        [payload, given] \<Rightarrow>
          if payload = [] \<or> given = [] then None
          else if utf8_encode given \<noteq> utf8_encode (session_mac N payload) then None
          else (case JSON_parse (buffer_toString (from_base64url N payload)) of
             Inl e \<Rightarrow> None
           | Inr v \<Rightarrow>
               (case (get_prop v (js ''a''), get_prop v (js ''e'')) of
                  (Inr (Some (VStr a)), Inr (Some (VNum e))) \<Rightarrow>
                    if js_less_nat e now then None else Some \<lparr>se_address = a, se_expiresAt = e\<rparr>
                | _ \<Rightarrow> None))
      | _ \<Rightarrow> None)"

section \<open>\<open>validateAuth\<close>\<close>

text \<open>\<open>/^Bearer (\S+)$/\<close>\<close>

definition bearer_token :: "jsstring \<Rightarrow> jsstring option" where
  "bearer_token header =
     (let t = drop 7 header in
      if take 7 header = js ''Bearer '' \<and> t \<noteq> [] \<and> list_all (\<lambda>c. \<not> js_space c) t then Some t else None)"

text \<open>The address of the request's user, or the answer 401.\<close>

definition validateAuth :: "node_env \<Rightarrow> nat \<Rightarrow> jsstring option \<Rightarrow> error + jsstring" where
  "validateAuth N now authorization =
     (case bearer_token (case authorization of None \<Rightarrow> [] | Some h \<Rightarrow> h) of
        None \<Rightarrow> Inl (HttpError 401)
      | Some t \<Rightarrow> (case verifySession N now t of None \<Rightarrow> Inl (HttpError 401) | Some s \<Rightarrow> Inr (se_address s)))"

section \<open>Lemmas\<close>

lemma length_mac: "node_laws N \<Longrightarrow> length (mac N m) = 32"
  by (simp add: node_laws_def)

lemma decode_payload: "node_laws N \<Longrightarrow> from_base64url N (base64UrlEncode bs) = bs"
  by (simp add: node_laws_def)

lemma b64url_ascii: "is_b64url u \<Longrightarrow> unat u < 128 \<and> u \<noteq> 46 \<and> \<not> js_space u"
  by (auto simp: is_b64url_def is_digit_def js_space_def word_le_nat_alt)

lemma base64Url_units: "\<forall>u \<in> set (base64UrlEncode bs). unat u < 128 \<and> u \<noteq> 46 \<and> \<not> js_space u"
  using base64UrlEncode_units [of bs] b64url_ascii by (auto simp: list_all_iff)

lemma base64Url_nonempty: "bs \<noteq> [] \<Longrightarrow> base64UrlEncode bs \<noteq> []"
proof -
  assume "bs \<noteq> []"
  then obtain b bs' where "bs = b # bs'" by (cases bs) auto
  then have "sextets (map unat bs) \<noteq> []" by (cases "map unat bs" rule: sextets.cases) auto
  then show ?thesis by (simp add: base64UrlEncode_sextets)
qed

lemma session_mac_eq: "utf8_encode given = utf8_encode (session_mac N payload) \<longleftrightarrow> given = session_mac N payload"
  using utf8_encode_eq_ascii [of "session_mac N payload" given] base64Url_units by (auto simp: session_mac_def)

lemma session_mac_nonempty: "node_laws N \<Longrightarrow> session_mac N payload \<noteq> []"
  unfolding session_mac_def by (rule base64Url_nonempty) (metis length_mac list.size(3) zero_neq_numeral)

text \<open>What a payload says.\<close>

definition payload_session :: "node_env \<Rightarrow> jsstring \<Rightarrow> session option" where
  "payload_session N payload =
     (case JSON_parse (buffer_toString (from_base64url N payload)) of
        Inl e \<Rightarrow> None
      | Inr v \<Rightarrow>
          (case (get_prop v (js ''a''), get_prop v (js ''e'')) of
             (Inr (Some (VStr a)), Inr (Some (VNum e))) \<Rightarrow> Some \<lparr>se_address = a, se_expiresAt = e\<rparr>
           | _ \<Rightarrow> None))"

lemma verifySession_payload:
  "verifySession N now token =
     (case js_split 46 token of
        [payload, given] \<Rightarrow>
          if payload = [] \<or> given = [] \<or> given \<noteq> session_mac N payload then None
          else (case payload_session N payload of None \<Rightarrow> None
            | Some s \<Rightarrow> if js_less_nat (se_expiresAt s) now then None else Some s)
      | _ \<Rightarrow> None)"
  unfolding verifySession_def payload_session_def session_mac_eq
  by (intro list.case_cong refl) (auto split: list.split sum.split option.split js_value.split)

lemma payload_of_session:
  assumes "node_laws N" "\<forall>u \<in> set a. unat u < 128" "e < 2 ^ 53"
  shows "payload_session N (session_payload a e) = Some \<lparr>se_address = a, se_expiresAt = Fin (of_nat e)\<rparr>"
proof -
  let ?kjs = "[(js ''a'', JStr a), (js ''e'', JInt (int e))]"
  have "ascii (JSON_stringify ?kjs)" by (rule ascii_object) (use assms(2) in \<open>simp add: js_def\<close>)
  then have wf: "well_formed (JSON_stringify ?kjs)" by (rule stringify_wf)
  have "JSON_parse (JSON_stringify ?kjs) = Inr (VObj [(js ''a'', VStr a), (js ''e'', VNum (Fin (of_int (int e))))])"
    by (rule parses_object) (use parses_string [of a] parses_int [of "int e"] assms(3) in simp_all)
  then show ?thesis
    by (simp add: payload_session_def session_payload_def decode_payload [OF assms(1)] buffer_toString_encode [OF wf]
        get_prop_def) (simp add: js_def)
qed

lemma session_payload_nonempty: "session_payload a e \<noteq> []"
  unfolding session_payload_def
  by (rule base64Url_nonempty, rule utf8_encode_nonempty) (simp add: JSON_stringify_def)

lemma issued_split: "js_split 46 (session_payload a e @ 46 # session_mac N (session_payload a e))
    = [session_payload a e, session_mac N (session_payload a e)]"
  using base64Url_units by (auto simp: js_split_two session_payload_def session_mac_def)

lemma verify_issued:
  assumes "node_laws N" "\<forall>u \<in> set a. unat u < 128" "now + SESSION_TTL_S < 2 ^ 53"
  shows "verifySession N t (is_token (issueSession N now a)) =
    (if t \<le> now + SESSION_TTL_S then Some \<lparr>se_address = a, se_expiresAt = Fin (of_nat (now + SESSION_TTL_S))\<rparr> else None)"
  by (simp add: verifySession_payload issueSession_def Let_def issued_split session_payload_nonempty
      session_mac_nonempty [OF assms(1)] payload_of_session [OF assms] js_less_nat_def not_less)

lemma challenge_message_inj:
  assumes "challenge_message a e r = challenge_message b e' r'" "\<forall>u \<in> set a. unat u < 128"
    and "length e = length e'" "length r = length r'"
  shows "a = b \<and> e = e' \<and> r = r'"
proof -
  have "(utf8_encode a @ e) @ r = (utf8_encode b @ e') @ r'" using assms(1) by (simp add: challenge_message_def)
  then have "utf8_encode a @ e = utf8_encode b @ e'" "r = r'"
    unfolding append_eq_append_conv [OF disjI2 [OF assms(4)]] by blast+
  moreover from this(1) have "utf8_encode a = utf8_encode b" "e = e'"
    unfolding append_eq_append_conv [OF disjI2 [OF assms(3)]] by blast+
  ultimately show ?thesis using utf8_encode_eq_ascii [of a b] assms(2) by simp
qed

lemma challenge_not_session:
  assumes "take 1 a \<in> {js ''G'', js ''M''}" "\<forall>u \<in> set a. unat u < 128"
  shows "challenge_message a e r \<noteq> session_message p"
proof
  assume eq: "challenge_message a e r = session_message p"
  obtain u a' where a: "a = u # a'" "u = 71 \<or> u = 77" using assms(1) by (cases a) (auto simp: js_def)
  have s: "utf8_encode (js ''session.'') = 115 # map (\<lambda>u. of_nat (unat u)) (js ''ession.'')"
    by (simp add: utf8_encode_ascii js_def)
  have "hd (challenge_message a e r) = of_nat (unat u)"
    using assms(2) by (simp add: challenge_message_def utf8_encode_ascii a(1))
  moreover have "hd (session_message p) = 115" by (simp add: session_message_def s)
  ultimately show False using eq a(2) by auto
qed

lemma value_parts:
  assumes "length e = 8" "length r = 24"
  shows "take 8 (e @ r @ m) = e" "take 24 (drop 8 (e @ r @ m)) = r" "drop 32 (e @ r @ m) = m"
  using assms by simp_all

lemma challenge_accepted:
  assumes N: "node_laws N" and S: "sdk_laws S" and r: "length random = 24"
    and t: "tx = challenge_tx N now random a" and sig: "tx' = tx\<lparr>tx_signatures := [(hint, sig)]\<rparr>"
    and x: "fromXDR S xdr = Some (Plain tx')" "length xdr \<le> 4096"
    and k: "signatureHint S a = Inr hint" "verify_sig S a (tx_hash S tx) sig"
    and now: "now' \<le> now + CHALLENGE_TTL_S" "now + CHALLENGE_TTL_S < 2 ^ 64"
  shows "verifyChallenge N S now' (Some (VStr xdr)) = Inr (issueSession N now' a)"
proof -
  let ?e = "be64 (now + CHALLENGE_TTL_S)"
  let ?v = "?e @ random @ challenge_mac N a ?e random"
  have v: "challenge_value tx' = Inr ?v"
    by (simp add: challenge_value_def sig t challenge_tx_def Let_def r challenge_mac_def length_mac [OF N])
  have parts: "take 8 ?v = ?e" "take 24 (drop 8 ?v) = random" "drop 32 ?v = challenge_mac N a ?e random"
    by (rule value_parts, simp, rule r)+
  have src: "tx_source tx' = a" by (simp add: sig t challenge_tx_def Let_def)
  have "tx_hash S tx' = tx_hash S tx" using S by (simp add: sdk_laws_def sig)
  then have "signed_by S tx' hint" using k(2) src by (simp add: signed_by_def sig)
  then show ?thesis
    using x now(1) by (simp add: verifyChallenge_def v Let_def parts src be64_value_be64 [OF now(2)] k(1) r del: append_assoc)
qed

section \<open>Properties\<close>

text \<open>Signing in works.  When the wallet signs the transaction of a challenge with the key of the account it
  was made for, and returns it within 300 seconds, \<open>verifyChallenge\<close> issues a session for that
  account, and \<open>verifySession\<close> accepts its token until 3600 seconds later and never after.\<close>

theorem sign_in_round_trip:
  assumes "node_laws N" "sdk_laws S" "length random = 24"
    and "createChallenge N S now random (Some (VStr a)) = Inr xdr"
    and "fromXDR S xdr = Some (Plain tx)" "tx = challenge_tx N now random a"
    and "tx' = tx\<lparr>tx_signatures := [(hint, sig)]\<rparr>" "signatureHint S a = Inr hint" "verify_sig S a (tx_hash S tx) sig"
    and "fromXDR S (toXDR S tx') = Some (Plain tx')" "length (toXDR S tx') \<le> 4096"
    and "now' \<le> now + 300" "now < 2 ^ 52"
  shows "\<exists>s. verifyChallenge N S now' (Some (VStr (toXDR S tx'))) = Inr s \<and> is_address s = a \<and>
    (\<forall>t. verifySession N t (is_token s) =
       (if t \<le> now' + 3600 then Some \<lparr>se_address = a, se_expiresAt = Fin (of_nat (now' + 3600))\<rparr> else None))"
proof -
  have v: "verifyChallenge N S now' (Some (VStr (toXDR S tx'))) = Inr (issueSession N now' a)"
    by (rule challenge_accepted [OF assms(1-3,6,7,10,11,8,9)]) (use assms(12,13) in \<open>simp_all add: CHALLENGE_TTL_S_def\<close>)
  have "isValidEd25519PublicKey S a"
    using assms(4) by (auto simp: createChallenge_def assertAccountAddress_def ebind_eq_Inr split: if_splits)
  then have a: "\<forall>u \<in> set a. unat u < 128" using assms(2) by (simp add: sdk_laws_def)
  have "now' + SESSION_TTL_S < 2 ^ 53" using assms(12,13) by (simp add: SESSION_TTL_S_def)
  from verify_issued [OF assms(1) a this] show ?thesis
    using v by (auto simp: issueSession_def Let_def SESSION_TTL_S_def)
qed

text \<open>C6: A session needs the account's key and a fresh challenge of this server.  What \<open>verifyChallenge\<close> accepts
  is a transaction that can never be submitted (sequence 0), signed with the key of the account
  the session is issued for, whose data carries an expiry that has not passed and the MAC of
  exactly this account, expiry and nonce: no other challenge and no session token has the
  same MAC input.\<close>

theorem session_needs_account_key:
  assumes "sdk_laws S" "verifyChallenge N S now x = Inr s"
  shows "\<exists>xdr tx e r src sig. x = Some (VStr xdr) \<and> fromXDR S xdr = Some (Plain tx) \<and> tx_sequence tx = js ''0'' \<and>
    tx_operations tx = [ManageData AUTH_DATA_NAME (Some (e @ r @ challenge_mac N (is_address s) e r)) src] \<and>
    now \<le> be64_value e \<and> sig \<in> snd ` set (tx_signatures tx) \<and> verify_sig S (is_address s) (tx_hash S tx) sig \<and>
    (\<forall>b e' r'. length e' = 8 \<and> length r' = 24 \<and> challenge_message b e' r' = challenge_message (is_address s) e r \<longrightarrow>
       b = is_address s \<and> e' = e \<and> r' = r) \<and>
    (\<forall>p. session_message p \<noteq> challenge_message (is_address s) e r)"
proof -
  obtain xdr tx data hint where x: "x = Some (VStr xdr)" "fromXDR S xdr = Some (Plain tx)" "challenge_value tx = Inr data"
    "drop 32 data = challenge_mac N (tx_source tx) (take 8 data) (take 24 (drop 8 data))"
    "\<not> be64_value (take 8 data) < now" "signed_by S tx hint" "s = issueSession N now (tx_source tx)"
    using assms(2) unfolding verifyChallenge_def
    by (auto simp: Let_def ebind_eq_Inr split: option.splits js_value.splits if_splits parsed_transaction.splits)
  let ?e = "take 8 data" and ?r = "take 24 (drop 8 data)"
  obtain src where v: "tx_sequence tx = js ''0''" "tx_operations tx = [ManageData AUTH_DATA_NAME (Some data) src]" "length data = 64"
    using x(3) unfolding challenge_value_def
    by (cases "tx_operations tx") (auto split: if_splits operation.splits option.splits)
  have val: "?e @ ?r @ drop 32 data = data"
  proof -
    have "?r @ drop 32 data = drop 8 data" using append_take_drop_id [of 24 "drop 8 data"] by (simp add: drop_drop)
    then show ?thesis by simp
  qed
  have src: "tx_source tx = is_address s" by (simp add: x(7) issueSession_def Let_def)
  have len: "length ?e = 8" "length ?r = 24" using v(3) by simp_all
  have addr: "take 1 (is_address s) \<in> {js ''G'', js ''M''}" "\<forall>u \<in> set (is_address s). unat u < 128"
    using assms(1) x(2) unfolding sdk_laws_def src [symmetric] by blast+
  obtain sig where sig: "sig \<in> snd ` set (tx_signatures tx)" "verify_sig S (is_address s) (tx_hash S tx) sig"
    using x(6) unfolding signed_by_def src by (force simp: list_ex_iff)
  have inj: "b = is_address s \<and> e' = ?e \<and> r' = ?r"
    if "length e' = 8" "length r' = 24" "challenge_message b e' r' = challenge_message (is_address s) ?e ?r" for b e' r'
    using challenge_message_inj [OF that(3) [symmetric] addr(2)] that(1,2) len by simp
  have op: "tx_operations tx = [ManageData AUTH_DATA_NAME (Some (?e @ ?r @ challenge_mac N (is_address s) ?e ?r)) src]"
    using v(2) val x(4) unfolding src by simp
  have inj': "\<forall>b e' r'. length e' = 8 \<and> length r' = 24 \<and> challenge_message b e' r' = challenge_message (is_address s) ?e ?r \<longrightarrow>
       b = is_address s \<and> e' = ?e \<and> r' = ?r"
    using inj by blast
  show ?thesis
  proof (intro exI conjI)
    show "now \<le> be64_value ?e" using x(5) by simp
    show "\<forall>p. session_message p \<noteq> challenge_message (is_address s) ?e ?r"
      using challenge_not_session [OF addr] by metis
  qed (rule x(1,2) v(1) op sig inj')+
qed

text \<open>C21: The accepted session tokens are exactly the canonical ones: a payload without a dot, a dot, and the
  base64url spelling of the MAC of the payload under the session domain, where the payload
  decodes to an object with a string \<open>a\<close> and a number \<open>e\<close> that has not passed.  So a payload has one
  accepted spelling, whatever base64url's padding bits allow.\<close>

theorem session_token_exact:
  "verifySession N now token = Some s \<longleftrightarrow>
     (\<exists>payload. payload \<noteq> [] \<and> session_mac N payload \<noteq> [] \<and> 46 \<notin> set payload \<and> token = payload @ [46] @ session_mac N payload \<and>
        payload_session N payload = Some s \<and> \<not> js_less_nat (se_expiresAt s) now)"
proof
  assume "verifySession N now token = Some s"
  then obtain payload given where sp: "js_split 46 token = [payload, given]" "payload \<noteq> []" "given \<noteq> []" "given = session_mac N payload"
    and ps: "payload_session N payload = Some s" "\<not> js_less_nat (se_expiresAt s) now"
    unfolding verifySession_payload by (auto split: list.splits if_splits option.splits)
  then show "\<exists>payload. payload \<noteq> [] \<and> session_mac N payload \<noteq> [] \<and> 46 \<notin> set payload \<and>
      token = payload @ [46] @ session_mac N payload \<and> payload_session N payload = Some s \<and> \<not> js_less_nat (se_expiresAt s) now"
    by (auto simp: js_split_two)
next
  assume "\<exists>payload. payload \<noteq> [] \<and> session_mac N payload \<noteq> [] \<and> 46 \<notin> set payload \<and>
      token = payload @ [46] @ session_mac N payload \<and> payload_session N payload = Some s \<and> \<not> js_less_nat (se_expiresAt s) now"
  then obtain payload where p: "payload \<noteq> []" "session_mac N payload \<noteq> []" "46 \<notin> set payload"
    "token = payload @ [46] @ session_mac N payload" "payload_session N payload = Some s" "\<not> js_less_nat (se_expiresAt s) now"
    by blast
  have "js_split 46 token = [payload, session_mac N payload]"
    using p(3,4) base64Url_units by (auto simp: js_split_two session_mac_def)
  then show "verifySession N now token = Some s" using p by (simp add: verifySession_payload)
qed

text \<open>An account, a server and a wallet.\<close>

definition sample_node :: node_env where
  "sample_node = \<lparr>mac = \<lambda>_. replicate 32 5, from_base64url = \<lambda>s. case base64UrlDecode s of Inl e \<Rightarrow> [] | Inr b \<Rightarrow> b\<rparr>"

definition issued_challenge :: transaction where
  "issued_challenge = challenge_tx sample_node 100 (replicate 24 7) (js ''GA'')"

definition signed_challenge :: transaction where
  "signed_challenge = issued_challenge\<lparr>tx_signatures := [([1], [2])]\<rparr>"

definition sample_sdk :: stellar_sdk where
  "sample_sdk = \<lparr>isValidEd25519PublicKey = \<lambda>a. a = js ''GA'', toXDR = \<lambda>t. if tx_signatures t = [] then js ''c'' else js ''s'',
     fromXDR = \<lambda>x. if x = js ''c'' then Some (Plain issued_challenge) else if x = js ''s'' then Some (Plain signed_challenge) else None,
     tx_hash = \<lambda>_. [9], signatureHint = \<lambda>_. Inr [1], verify_sig = \<lambda>_ _ sig. sig = [2]\<rparr>"

lemma sample_node_laws: "node_laws sample_node"
  by (simp add: node_laws_def sample_node_def base64UrlDecode_Encode)

lemma sample_sdk_laws: "sdk_laws sample_sdk"
  by (auto simp: sdk_laws_def sample_sdk_def signed_challenge_def issued_challenge_def challenge_tx_def Let_def js_def split: if_splits)

lemma sample_signed: "verifyChallenge sample_node sample_sdk 200 (Some (VStr (js ''s''))) = Inr (issueSession sample_node 200 (js ''GA''))"
  by (rule challenge_accepted [OF sample_node_laws sample_sdk_laws, where tx = issued_challenge and tx' = signed_challenge
        and random = "replicate 24 7" and now = 100 and hint = "[1]" and sig = "[2]"])
    (simp_all add: sample_sdk_def signed_challenge_def issued_challenge_def CHALLENGE_TTL_S_def js_def)

theorem sign_in_round_trip_witness:
  "\<exists>s. createChallenge sample_node sample_sdk 100 (replicate 24 7) (Some (VStr (js ''GA''))) = Inr (js ''c'') \<and>
     verifyChallenge sample_node sample_sdk 200 (Some (VStr (js ''s''))) = Inr s \<and>
     verifySession sample_node 3800 (is_token s) = Some \<lparr>se_address = js ''GA'', se_expiresAt = Fin 3800\<rparr> \<and>
     verifySession sample_node 3801 (is_token s) = None"
proof -
  have c: "createChallenge sample_node sample_sdk 100 (replicate 24 7) (Some (VStr (js ''GA''))) = Inr (js ''c'')"
    by (simp add: createChallenge_def assertAccountAddress_def sample_sdk_def challenge_tx_def Let_def)
  have x: "toXDR sample_sdk signed_challenge = js ''s''" by (simp add: sample_sdk_def signed_challenge_def)
  have "\<exists>s. verifyChallenge sample_node sample_sdk 200 (Some (VStr (toXDR sample_sdk signed_challenge))) = Inr s \<and> is_address s = js ''GA'' \<and>
    (\<forall>t. verifySession sample_node t (is_token s) =
       (if t \<le> 200 + 3600 then Some \<lparr>se_address = js ''GA'', se_expiresAt = Fin (of_nat (200 + 3600))\<rparr> else None))"
    by (rule sign_in_round_trip [OF sample_node_laws sample_sdk_laws _ c, where tx = issued_challenge and hint = "[1]" and sig = "[2]"])
      (simp_all add: sample_sdk_def signed_challenge_def issued_challenge_def js_def)
  then show ?thesis using c unfolding x by auto
qed

theorem session_needs_account_key_witness:
  "\<exists>s. verifyChallenge sample_node sample_sdk 200 (Some (VStr (js ''s''))) = Inr s \<and>
     (\<exists>xdr tx sig. fromXDR sample_sdk xdr = Some (Plain tx) \<and> sig \<in> snd ` set (tx_signatures tx) \<and>
        verify_sig sample_sdk (is_address s) (tx_hash sample_sdk tx) sig)"
  using session_needs_account_key [OF sample_sdk_laws sample_signed] sample_signed by blast

end
