(* ===== verification/Middleware.thy ===== *)
theory Middleware
  imports Auth Controllers
begin

text \<open>
  \<open>backend/src/middleware\<close> and the routes of \<open>backend/src/routes/orders.ts\<close>: rate limits,
  validation of order submissions, the error handler, and the handlers they guard, composed in
  the order the router runs them.  An answer that is no result is \<open>Inl (HttpError status)\<close>.
\<close>

section \<open>\<open>rateLimit\<close>\<close>

record hit =
  h_count :: nat
  h_resetAt :: nat

type_synonym hits = "(jsstring \<times> hit) list"

definition sweep :: "nat \<Rightarrow> hits \<Rightarrow> hits" where
  "sweep now h = filter (\<lambda>(k, v). \<not> h_resetAt v \<le> now) h"

text \<open>One request: the counters, and whether it goes on, the headers
  \<open>RateLimit-Remaining\<close> and, when refused, \<open>Retry-After\<close>.\<close>

record limit_answer =
  la_next :: bool
  la_remaining :: nat
  la_retryAfter :: nat

definition rate_limit :: "nat \<Rightarrow> nat \<Rightarrow> nat \<Rightarrow> jsstring \<Rightarrow> hits \<Rightarrow> hits \<times> limit_answer" where
  "rate_limit windowMs limit now k h =
     (let fresh = \<lparr>h_count = 0, h_resetAt = now + windowMs\<rparr>;
          start = (case map_of h k of None \<Rightarrow> fresh | Some e \<Rightarrow> if h_resetAt e \<le> now then fresh else e);
          e' = start\<lparr>h_count := h_count start + 1\<rparr>
      in (AList.update k e' h,
          \<lparr>la_next = h_count e' \<le> limit, la_remaining = limit - h_count e',
           la_retryAfter = (if h_count e' \<le> limit then 0 else (h_resetAt e' - now + 999) div 1000)\<rparr>))"

section \<open>\<open>validateOrderInput\<close>\<close>

definition MAX_CIPHERTEXT_LENGTH :: nat where
  "MAX_CIPHERTEXT_LENGTH = 4096"

text \<open>\<open>typeof n === 'number' && Number.isSafeInteger(n) && n >= 0\<close>\<close>

definition safe_nonce :: "js_value option \<Rightarrow> int option" where
  "safe_nonce v = (case v of
     Some (VNum (Fin q)) \<Rightarrow> if of_int \<lfloor>q\<rfloor> = q \<and> 0 \<le> q \<and> q < 2 ^ 53 then Some \<lfloor>q\<rfloor> else None
   | _ \<Rightarrow> None)"

definition validateOrderInput ::
  "'p curve \<Rightarrow> 's validator_network option \<Rightarrow> js_value \<Rightarrow> error + submit_order_body" where
  "validateOrderInput C network body =
     ebind (get_prop body (js ''encrypted_data'')) (\<lambda>enc.
     ebind (get_prop body (js ''threshold_pubkey'')) (\<lambda>pubkey.
     ebind (get_prop body (js ''nonce'')) (\<lambda>nonce.
     case enc of
       Some (VStr ct) \<Rightarrow>
         if length ct > MAX_CIPHERTEXT_LENGTH then Inl (HttpError 400)
         else (case parseCiphertext C ct of Inl e \<Rightarrow> Inl (HttpError 400)
           | Inr _ \<Rightarrow>
               ebind (getPublicKeyInfo network) (\<lambda>info.
                 if pubkey \<noteq> Some (VStr (pi_threshold_pubkey info)) then Inl (HttpError 400)
                 else (case safe_nonce nonce of None \<Rightarrow> Inl (HttpError 400)
                   | Some n \<Rightarrow> Inr \<lparr>so_encrypted_data = ct, so_threshold_pubkey = pi_threshold_pubkey info, so_nonce = n\<rparr>)))
     | _ \<Rightarrow> Inl (HttpError 400))))"

section \<open>\<open>errorHandler\<close> and the order routes\<close>

definition errorHandler :: "error \<Rightarrow> error" where
  "errorHandler e = (case e of AppError n \<Rightarrow> HttpError n | HttpError n \<Rightarrow> HttpError n | _ \<Rightarrow> HttpError 500)"

definition answer :: "error + 'a \<Rightarrow> error + 'a" where
  "answer r = (case r of Inl e \<Rightarrow> Inl (errorHandler e) | Inr x \<Rightarrow> Inr x)"

record server =
  sv_db :: db
  sv_order_hits :: hits

text \<open>
  \<open>POST /api/orders\<close>: authentication, the limit per client and account, validation, submission.
  \<open>nowMs\<close> is the clock in milliseconds.
\<close>

definition post_order ::
  "node_env \<Rightarrow> 'p curve \<Rightarrow> 's validator_network option \<Rightarrow> nat \<Rightarrow> nat \<Rightarrow> jsstring option \<Rightarrow> jsstring \<Rightarrow> js_value \<Rightarrow> jsstring
     \<Rightarrow> server \<Rightarrow> server \<times> (error + order_row)" where
  "post_order N C network limit nowMs authorization ip body i s =
     (case validateAuth N (nowMs div 1000) authorization of
        Inl e \<Rightarrow> (s, Inl e)
      | Inr user \<Rightarrow>
          (let (h, a) = rate_limit 60000 limit nowMs (ip @ js ''|'' @ user) (sv_order_hits s);
               s1 = s\<lparr>sv_order_hits := h\<rparr>
           in if \<not> la_next a then (s1, Inl (HttpError 429))
              else (case validateOrderInput C network body of
                 Inl e \<Rightarrow> (s1, Inl (errorHandler e))
               | Inr b \<Rightarrow>
                   (case submitOrder i (int nowMs) user b (sv_db s1) of (d, r) \<Rightarrow> (s1\<lparr>sv_db := d\<rparr>, answer r)))))"

text \<open>\<open>GET /api/orders/user/:userAddress\<close> and \<open>GET /api/orders/:id\<close>.\<close>

definition get_user_orders :: "node_env \<Rightarrow> nat \<Rightarrow> jsstring option \<Rightarrow> jsstring \<Rightarrow> db \<Rightarrow> error + order_row list" where
  "get_user_orders N now authorization userAddress d =
     ebind (validateAuth N now authorization) (\<lambda>user.
       if userAddress \<noteq> user then Inl (HttpError 403) else Inr (getUserOrders userAddress d))"

definition get_order :: "jsstring \<Rightarrow> db \<Rightarrow> error + order_row" where
  "get_order i d = answer (getOrder i d)"

section \<open>The limit over time\<close>

datatype limit_event = Request nat jsstring | Sweep nat

fun event_time :: "limit_event \<Rightarrow> nat" where
  "event_time (Request t k) = t"
| "event_time (Sweep t) = t"

text \<open>The requests that go on.\<close>

fun admitted :: "nat \<Rightarrow> nat \<Rightarrow> hits \<Rightarrow> limit_event list \<Rightarrow> (nat \<times> jsstring) list" where
  "admitted W m h [] = []"
| "admitted W m h (Sweep t # es) = admitted W m (sweep t h) es"
| "admitted W m h (Request t k # es) =
     (case rate_limit W m t k h of (h', a) \<Rightarrow> (if la_next a then [(t, k)] else []) @ admitted W m h' es)"

definition admitted_in :: "jsstring \<Rightarrow> nat \<Rightarrow> nat \<Rightarrow> (nat \<times> jsstring) list \<Rightarrow> nat" where
  "admitted_in k a b ts = length (filter (\<lambda>(t, k'). k' = k \<and> a \<le> t \<and> t < b) ts)"

lemma admitted_times: "(t, k) \<in> set (admitted W m h es) \<Longrightarrow> t \<in> event_time ` set es"
  by (induction W m h es rule: admitted.induct) (auto split: prod.splits if_splits)

lemma admitted_late: "\<forall>e \<in> set es. b \<le> event_time e \<Longrightarrow> admitted_in k a b (admitted W m h es) = 0"
  using admitted_times by (fastforce simp: admitted_in_def filter_empty_conv)

lemma admitted_in_Cons [simp]:
  "admitted_in k a b [] = 0"
  "admitted_in k a b (x # xs) = (if snd x = k \<and> a \<le> fst x \<and> fst x < b then 1 else 0) + admitted_in k a b xs"
  by (auto simp: admitted_in_def)

lemma sweep_lookup: "distinct (map fst h) \<Longrightarrow>
  map_of (sweep t h) k = (case map_of h k of None \<Rightarrow> None | Some e \<Rightarrow> if h_resetAt e \<le> t then None else Some e)"
proof (induction h)
  case (Cons p h)
  have "map_of (sweep t h) (fst p) = None"
    using Cons.prems by (auto simp: map_of_eq_None_iff sweep_def)
  with Cons show ?case by (cases p) (auto simp: sweep_def)
qed (simp add: sweep_def)

lemma sweep_distinct: "distinct (map fst h) \<Longrightarrow> distinct (map fst (sweep t h))"
  unfolding sweep_def by (rule distinct_map_filter)

lemma rate_limit_keys: "distinct (map fst h) \<Longrightarrow> distinct (map fst (fst (rate_limit W m t k h)))"
  by (simp add: rate_limit_def Let_def distinct_update)

lemma rate_limit_other: "k' \<noteq> k \<Longrightarrow> map_of (fst (rate_limit W m t k' h)) k = map_of h k"
  by (simp add: rate_limit_def Let_def update_conv)

lemma rate_limit_active:
  assumes "map_of h k = Some e" "t < h_resetAt e"
  shows "map_of (fst (rate_limit W m t k h)) k = Some (e\<lparr>h_count := h_count e + 1\<rparr>)"
    "la_next (snd (rate_limit W m t k h)) \<longleftrightarrow> h_count e + 1 \<le> m"
  using assms by (simp_all add: rate_limit_def Let_def update_conv)

lemma rate_limit_fresh:
  assumes "\<And>e. map_of h k = Some e \<Longrightarrow> h_resetAt e \<le> t"
  shows "map_of (fst (rate_limit W m t k h)) k = Some \<lparr>h_count = 1, h_resetAt = t + W\<rparr>"
    "la_next (snd (rate_limit W m t k h)) \<longleftrightarrow> 1 \<le> m"
  using assms by (auto simp: rate_limit_def Let_def update_conv split: option.splits)

text \<open>Within one window.\<close>

lemma window_bound:
  assumes "distinct (map fst h)" "map_of h k = Some e" "b \<le> h_resetAt e" "sorted (map event_time es)"
  shows "admitted_in k a b (admitted W m h es) \<le> m - h_count e"
  using assms
proof (induction W m h es arbitrary: e rule: admitted.induct)
  case (2 W m h t es)
  show ?case
  proof (cases "b \<le> t")
    case True
    have "admitted_in k a b (admitted W m h (Sweep t # es)) = 0"
      by (rule admitted_late) (use True "2.prems"(4) in auto)
    then show ?thesis by simp
  next
    case False
    then have "map_of (sweep t h) k = Some e" using "2.prems"(1-3) by (simp add: sweep_lookup)
    then show ?thesis using "2.IH" [of e] "2.prems" sweep_distinct by auto
  qed
next
  case (3 W m h t k' es)
  obtain h' c where r: "rate_limit W m t k' h = (h', c)" by fastforce
  have d: "distinct (map fst h')" using rate_limit_keys [OF "3.prems"(1), of W m t k'] r by simp
  note IH = "3.IH" [OF r [symmetric] d]
  show ?case
  proof (cases "b \<le> t")
    case True
    have "admitted_in k a b (admitted W m h (Request t k' # es)) = 0"
      by (rule admitted_late) (use True "3.prems"(4) in auto)
    then show ?thesis by simp
  next
    case False
    show ?thesis
    proof (cases "k' = k")
      case True
      have act: "t < h_resetAt e" using False "3.prems"(3) by simp
      have "map_of h' k = Some (e\<lparr>h_count := h_count e + 1\<rparr>)" "la_next c \<longleftrightarrow> h_count e + 1 \<le> m"
        using rate_limit_active [OF "3.prems"(2) act, of W m] r True by simp_all
      then show ?thesis using IH [of "e\<lparr>h_count := h_count e + 1\<rparr>"] "3.prems"(3,4) r by auto
    next
      case other: False
      have "map_of h' k = Some e" using rate_limit_other [OF other, of W m t h] r "3.prems"(2) by simp
      then show ?thesis using IH [of e] "3.prems"(3,4) r other by auto
    qed
  qed
qed simp

text \<open>From time \<open>a\<close> on: the window that is open, and one more.\<close>

lemma two_windows:
  assumes "distinct (map fst h)" "b \<le> a + W" "\<forall>e \<in> set es. a \<le> event_time e" "sorted (map event_time es)"
  shows "admitted_in k a b (admitted W m h es) \<le> (case map_of h k of None \<Rightarrow> 0 | Some e \<Rightarrow> m - h_count e) + m"
  using assms
proof (induction W m h es rule: admitted.induct)
  case (2 W m h t es)
  have "admitted_in k a b (admitted W m (sweep t h) es)
      \<le> (case map_of (sweep t h) k of None \<Rightarrow> 0 | Some e \<Rightarrow> m - h_count e) + m"
    using "2.IH" "2.prems" sweep_distinct by simp
  also have "\<dots> \<le> (case map_of h k of None \<Rightarrow> 0 | Some e \<Rightarrow> m - h_count e) + m"
    using "2.prems"(1) by (auto simp: sweep_lookup split: option.split)
  finally show ?case by simp
next
  case (3 W m h t k' es)
  obtain h' c where r: "rate_limit W m t k' h = (h', c)" by fastforce
  have d: "distinct (map fst h')" using rate_limit_keys [OF "3.prems"(1), of W m t k'] r by simp
  have at: "a \<le> t" using "3.prems"(3) by simp
  have IH: "admitted_in k a b (admitted W m h' es) \<le> (case map_of h' k of None \<Rightarrow> 0 | Some e \<Rightarrow> m - h_count e) + m"
    using "3.IH" [OF r [symmetric] d] "3.prems" by simp
  show ?case
  proof (cases "k' = k")
    case False
    then have "map_of h' k = map_of h k" using rate_limit_other [OF False, of W m t h] r by simp
    then show ?thesis using IH r False by simp
  next
    case True
    show ?thesis
    proof (cases "\<exists>e. map_of h k = Some e \<and> t < h_resetAt e")
      case True
      then obtain e where e: "map_of h k = Some e" "t < h_resetAt e" by blast
      have "map_of h' k = Some (e\<lparr>h_count := h_count e + 1\<rparr>)" "la_next c \<longleftrightarrow> h_count e + 1 \<le> m"
        using rate_limit_active [OF e, of W m] r \<open>k' = k\<close> by simp_all
      then show ?thesis using IH r e(1) by auto
    next
      case False
      have "map_of h' k = Some \<lparr>h_count = 1, h_resetAt = t + W\<rparr>" "la_next c \<longleftrightarrow> 1 \<le> m"
        using rate_limit_fresh [of h k t W m] False r \<open>k' = k\<close> by (simp_all add: not_less)
      moreover from this(1) have "admitted_in k a b (admitted W m h' es) \<le> m - 1"
        using window_bound [OF d, of k _ b es a W m] "3.prems"(2,4) at by fastforce
      ultimately show ?thesis using r by auto
    qed
  qed
qed simp

lemma any_window:
  assumes "distinct (map fst h)" "b \<le> a + W" "sorted (map event_time es)"
  shows "admitted_in k a b (admitted W m h es) \<le> 2 * m"
  using assms
proof (induction W m h es rule: admitted.induct)
  case (2 W m h t es)
  then show ?case using sweep_distinct by simp
next
  case (3 W m h t k' es)
  show ?case
  proof (cases "a \<le> t")
    case True
    have "\<forall>e \<in> set (Request t k' # es). a \<le> event_time e" using True "3.prems"(3) by auto
    from two_windows [OF "3.prems"(1,2) this "3.prems"(3), of k m]
    have "admitted_in k a b (admitted W m h (Request t k' # es)) \<le> (case map_of h k of None \<Rightarrow> 0 | Some e \<Rightarrow> m - h_count e) + m" .
    also have "\<dots> \<le> 2 * m" by (auto split: option.split)
    finally show ?thesis .
  next
    case False
    obtain h' c where r: "rate_limit W m t k' h = (h', c)" by fastforce
    have "distinct (map fst h')" using rate_limit_keys [OF "3.prems"(1), of W m t k'] r by simp
    then show ?thesis using "3.IH" [OF r [symmetric]] "3.prems"(2,3) r False by simp
  qed
qed simp

section \<open>The guards\<close>

lemma validateAuth_Inr:
  "validateAuth N now authorization = Inr user \<Longrightarrow>
     \<exists>header token ses. authorization = Some header \<and> bearer_token header = Some token \<and>
       verifySession N now token = Some ses \<and> user = se_address ses"
  unfolding validateAuth_def
  by (cases authorization) (auto simp: bearer_token_def Let_def js_def split: option.splits if_splits)

lemma safe_nonce_range: "safe_nonce v = Some n \<Longrightarrow> 0 \<le> n \<and> n < 2 ^ 53"
  by (auto simp: safe_nonce_def floor_less_iff split: option.splits js_value.splits js_number.splits if_splits)

lemma validateOrderInput_Inr:
  assumes "validateOrderInput C network body = Inr b"
  shows "length (so_encrypted_data b) \<le> MAX_CIPHERTEXT_LENGTH \<and> is_ok (parseCiphertext C (so_encrypted_data b)) \<and>
    (\<exists>net. network = Some net \<and> so_threshold_pubkey b = vn_groupPublicKey net) \<and> 0 \<le> so_nonce b \<and> so_nonce b < 2 ^ 53"
proof -
  obtain enc pubkey v where e: "(case enc of
       Some (VStr ct) \<Rightarrow>
         if length ct > MAX_CIPHERTEXT_LENGTH then Inl (HttpError 400)
         else (case parseCiphertext C ct of Inl e \<Rightarrow> Inl (HttpError 400)
           | Inr _ \<Rightarrow>
               ebind (getPublicKeyInfo network) (\<lambda>info.
                 if pubkey \<noteq> Some (VStr (pi_threshold_pubkey info)) then Inl (HttpError 400)
                 else (case safe_nonce v of None \<Rightarrow> Inl (HttpError 400)
                   | Some n \<Rightarrow> Inr \<lparr>so_encrypted_data = ct, so_threshold_pubkey = pi_threshold_pubkey info, so_nonce = n\<rparr>)))
     | _ \<Rightarrow> Inl (HttpError 400)) = Inr b"
    using assms unfolding validateOrderInput_def ebind_eq_Inr by blast
  then obtain ct where ct: "enc = Some (VStr ct)" by (auto split: option.splits js_value.splits)
  with e have len: "length ct \<le> MAX_CIPHERTEXT_LENGTH" by (simp split: if_splits)
  with e ct obtain pc where pc: "parseCiphertext C ct = Inr pc" by (simp split: sum.splits)
  with e ct len obtain info where info: "getPublicKeyInfo network = Inr info"
    "(if pubkey \<noteq> Some (VStr (pi_threshold_pubkey info)) then Inl (HttpError 400)
      else (case safe_nonce v of None \<Rightarrow> Inl (HttpError 400)
        | Some n \<Rightarrow> Inr \<lparr>so_encrypted_data = ct, so_threshold_pubkey = pi_threshold_pubkey info, so_nonce = n\<rparr>)) = Inr b"
    by (auto simp: ebind_eq_Inr)
  then obtain n where "safe_nonce v = Some n"
    "b = \<lparr>so_encrypted_data = ct, so_threshold_pubkey = pi_threshold_pubkey info, so_nonce = n\<rparr>"
    by (auto split: if_splits option.splits)
  note this len pc info(1)
  then show ?thesis
    using safe_nonce_range [of v n]
    by (auto simp: getPublicKeyInfo_def getValidatorNetwork_def ebind_eq_Inr split: option.splits)
qed

text \<open>Requests that pass.\<close>

lemma validateOrderInput_accepts:
  assumes "get_prop body (js ''encrypted_data'') = Inr (Some (VStr ct))"
    and "get_prop body (js ''threshold_pubkey'') = Inr (Some (VStr (vn_groupPublicKey net)))"
    and "get_prop body (js ''nonce'') = Inr (Some (VNum (Fin (of_int n))))"
    and "length ct \<le> 4096" "parseCiphertext C ct = Inr pc" "0 \<le> n" "n < 2 ^ 53"
  shows "validateOrderInput C (Some net) body
    = Inr \<lparr>so_encrypted_data = ct, so_threshold_pubkey = vn_groupPublicKey net, so_nonce = n\<rparr>"
proof -
  have "(of_int n :: rat) < 2 ^ 53" using assms(7) by (metis of_int_less_iff of_int_numeral of_int_power)
  then have "safe_nonce (Some (VNum (Fin (of_int n)))) = Some n" using assms(6) by (simp add: safe_nonce_def)
  then show ?thesis
    using assms(1-5) by (simp add: validateOrderInput_def MAX_CIPHERTEXT_LENGTH_def getPublicKeyInfo_def getValidatorNetwork_def)
qed

lemma bearer_header: "t \<noteq> [] \<Longrightarrow> list_all (\<lambda>c. \<not> js_space c) t \<Longrightarrow> bearer_token (js ''Bearer '' @ t) = Some t"
  by (simp add: bearer_token_def js_def Let_def)

lemma post_order_stores:
  assumes "bearer_token header = Some token" "verifySession N (nowMs div 1000) token = Some ses"
    and "la_next (snd (rate_limit 60000 limit nowMs (ip @ js ''|'' @ se_address ses) (sv_order_hits s)))"
    and "validateOrderInput C network body = Inr b" "submit_check (se_address ses) b (sv_db s) = Inr ()"
  obtains s' where "post_order N C network limit nowMs (Some header) ip body i s = (s', Inr (new_order i (int nowMs) (se_address ses) b))"
    "sv_db s' = submit_insert i (int nowMs) (se_address ses) b (sv_db s)"
  using assms by (simp add: post_order_def validateAuth_def Let_def submitOrder_def answer_def split_def)

lemma post_order_accepts:
  assumes "bearer_token header = Some token" "verifySession N (nowMs div 1000) token = Some ses"
    and "la_next (snd (rate_limit 60000 limit nowMs (ip @ js ''|'' @ se_address ses) (sv_order_hits s)))"
    and "validateOrderInput C network body = Inr b" "submit_check (se_address ses) b (sv_db s) = Inr ()"
  shows "\<exists>s'. post_order N C network limit nowMs (Some header) ip body i s = (s', Inr (new_order i (int nowMs) (se_address ses) b))"
  using post_order_stores [OF assms] by metis

text \<open>Ciphertexts are short.\<close>

lemma ciphertext_length:
  assumes "curve_laws C" "webcrypto_laws W" "length nonce = 12" "encryptOrder C W draws nonce m Y u = Inr ct"
  shows "length ct \<le> 125 + 2 * length (utf8_encode m)"
proof -
  obtain k a P where w: "ct = wire (pt_toBytes C P) nonce (aes_gcm_encrypt W k nonce a (utf8_encode m))"
    using encryptOrder_Inr [OF assms(1,4)] by metis
  then show ?thesis
    using length_sextets [of "map unat (pt_toBytes C P @ nonce @ aes_gcm_encrypt W k nonce a (utf8_encode m))"]
    by (simp add: wire_def CIPHER_PREFIX_def base64UrlEncode_sextets js_def length_toBytes [OF assms(1)] assms(3)
        length_gcm_encrypt [OF assms(2)])
qed

text \<open>A session that the sample node issued at second 200, used at second 250.\<close>

lemma sample_session:
  "bearer_token (js ''Bearer '' @ is_token (issueSession sample_node 200 (js ''GA''))) = Some (is_token (issueSession sample_node 200 (js ''GA'')))"
  "verifySession sample_node (250000 div 1000) (is_token (issueSession sample_node 200 (js ''GA'')))
    = Some \<lparr>se_address = js ''GA'', se_expiresAt = Fin 3800\<rparr>"
proof -
  let ?tok = "is_token (issueSession sample_node 200 (js ''GA''))"
  have t: "?tok = session_payload (js ''GA'') 3800 @ [46] @ session_mac sample_node (session_payload (js ''GA'') 3800)"
    by (simp add: issueSession_def Let_def SESSION_TTL_S_def)
  show "bearer_token (js ''Bearer '' @ ?tok) = Some ?tok"
    using base64Url_units by (intro bearer_header) (auto simp: t list_all_iff session_payload_def session_mac_def js_space_def)
  show "verifySession sample_node (250000 div 1000) ?tok = Some \<lparr>se_address = js ''GA'', se_expiresAt = Fin 3800\<rparr>"
    using verify_issued [OF sample_node_laws, of "js ''GA''" 200 "250000 div 1000"] by (simp add: SESSION_TTL_S_def js_def)
qed

text \<open>A submission that is accepted.\<close>

lemma sample_post: "\<exists>ct s' row. post_order sample_node sample_curve (Some sample_net) 20 250000
       (Some (js ''Bearer '' @ is_token (issueSession sample_node 200 (js ''GA'')))) (js ''1.2.3.4'')
       (VObj [(js ''encrypted_data'', VStr ct), (js ''threshold_pubkey'', VStr (vn_groupPublicKey sample_net)), (js ''nonce'', VNum (Fin 9))])
       (js ''o1'') \<lparr>sv_db = \<lparr>db_orders = [], db_batches = [], db_settlements = []\<rparr>, sv_order_hits = []\<rparr> = (s', Inr row)"
proof -
  let ?tok = "is_token (issueSession sample_node 200 (js ''GA''))" and ?s = "\<lparr>sv_db = \<lparr>db_orders = [], db_batches = [], db_settlements = []\<rparr>, sv_order_hits = []\<rparr>"
  obtain ct pc R where ct: "encryptOrder sample_curve sample_crypto [sample_draw 4] (replicate 12 9) sample_text
      (vn_groupPublicKey sample_net) (js ''GA'') = Inr ct" and pc: "parseCiphertext sample_curve ct = Inr pc"
    by (rule sample_sealed)
  have "ascii sample_text" unfolding sample_text_def by (rule ascii_object) (simp add: js_def)
  moreover have "length sample_text \<le> 1000"
    unfolding sample_text_def by (rule order_trans [OF length_stringify]) (simp_all add: js_def)
  ultimately have "length (utf8_encode sample_text) \<le> 1000" by (simp add: length_utf8_ascii)
  then have len: "length ct \<le> 4096"
    using ciphertext_length [OF sample_curve_laws sample_crypto_laws _ ct] by simp
  let ?body = "VObj [(js ''encrypted_data'', VStr ct), (js ''threshold_pubkey'', VStr (vn_groupPublicKey sample_net)), (js ''nonce'', VNum (Fin 9))]"
  have b: "validateOrderInput sample_curve (Some sample_net) ?body
      = Inr \<lparr>so_encrypted_data = ct, so_threshold_pubkey = vn_groupPublicKey sample_net, so_nonce = 9\<rparr>"
    by (rule validateOrderInput_accepts [OF _ _ _ len pc]) (simp_all add: get_prop_def js_def)
  note h = sample_session(1) and v = sample_session(2)
  let ?row = "new_order (js ''o1'') (int 250000) (se_address \<lparr>se_address = js ''GA'', se_expiresAt = Fin 3800\<rparr>)
      \<lparr>so_encrypted_data = ct, so_threshold_pubkey = vn_groupPublicKey sample_net, so_nonce = 9\<rparr>"
  have "\<exists>s'. post_order sample_node sample_curve (Some sample_net) 20 250000 (Some (js ''Bearer '' @ ?tok)) (js ''1.2.3.4'') ?body (js ''o1'') ?s
      = (s', Inr ?row)"
    by (rule post_order_accepts [OF h v _ b]) (simp_all add: rate_limit_def submit_check_def Let_def)
  then show ?thesis by blast
qed

section \<open>Properties\<close>

text \<open>C23: The rate limit holds for every stretch of time.  For one client and any interval as long as the window,
  wherever it starts, at most twice the configured number of requests go on, whatever other
  clients send and whenever the sweep runs.  (Twice: a full window may end where the next one
  begins.)\<close>

theorem rate_limit_bound:
  assumes "sorted (map event_time events)"
  shows "admitted_in k a (a + windowMs) (admitted windowMs limit [] events) \<le> 2 * limit"
  using any_window [of "[]" "a + windowMs" a windowMs events k limit] assms by simp

theorem rate_limit_bound_witness:
  "admitted_in (js ''k'') 50 150 (admitted 100 2 [] (map (\<lambda>t. Request t (js ''k'')) [0, 90, 95, 100, 110, 120])) = 3 \<and> (3 :: nat) \<le> 2 * 2"
proof -
  have "admitted_in (js ''k'') 50 (50 + 100) (admitted 100 2 [] (map (\<lambda>t. Request t (js ''k'')) [0, 90, 95, 100, 110, 120])) \<le> 2 * 2"
    by (rule rate_limit_bound) simp
  moreover have "admitted_in (js ''k'') 50 150 (admitted 100 2 [] (map (\<lambda>t. Request t (js ''k'')) [0, 90, 95, 100, 110, 120])) = 3"
    by code_simp
  ultimately show ?thesis by simp
qed

text \<open>C7: What \<open>POST /api/orders\<close> stores.  A stored order carries the account of an accepted session token, a
  ciphertext of at most 4096 characters that parses, the validators' current key and a nonce that
  is a safe integer not used before by this account; nothing else in the table changes.  A request
  that is refused stores nothing.\<close>

theorem stored_order_is_authentic:
  assumes "post_order N C network limit nowMs authorization ip body i s = (s', r)"
  shows "case r of
      Inl e \<Rightarrow> sv_db s' = sv_db s
    | Inr row \<Rightarrow>
        sv_db s' = (sv_db s)\<lparr>db_orders := db_orders (sv_db s) @ [row]\<rparr> \<and> o_status row = Pending \<and>
        (\<exists>header token ses net. authorization = Some header \<and> bearer_token header = Some token \<and>
           verifySession N (nowMs div 1000) token = Some ses \<and> o_user_address row = se_address ses \<and>
           network = Some net \<and> o_threshold_pubkey row = vn_groupPublicKey net) \<and>
        length (o_encrypted_data row) \<le> 4096 \<and> is_ok (parseCiphertext C (o_encrypted_data row)) \<and>
        0 \<le> o_nonce row \<and> o_nonce row < 2 ^ 53 \<and>
        (\<forall>x \<in> set (db_orders (sv_db s)). o_user_address x = o_user_address row \<longrightarrow> o_nonce x \<noteq> o_nonce row)"
proof (cases "\<exists>user b. validateAuth N (nowMs div 1000) authorization = Inr user \<and>
    la_next (snd (rate_limit 60000 limit nowMs (ip @ js ''|'' @ user) (sv_order_hits s))) \<and>
    validateOrderInput C network body = Inr b \<and> submit_check user b (sv_db s) = Inr ()")
  case True
  then obtain user b where g: "validateAuth N (nowMs div 1000) authorization = Inr user"
    "la_next (snd (rate_limit 60000 limit nowMs (ip @ js ''|'' @ user) (sv_order_hits s)))"
    "validateOrderInput C network body = Inr b" "submit_check user b (sv_db s) = Inr ()" by blast
  then have r: "sv_db s' = submit_insert i (int nowMs) user b (sv_db s)" "r = Inr (new_order i (int nowMs) user b)"
    using assms by (auto simp: post_order_def submitOrder_def answer_def Let_def split: prod.splits)
  have fresh: "\<forall>x \<in> set (db_orders (sv_db s)). o_user_address x = user \<longrightarrow> o_nonce x \<noteq> so_nonce b"
    using g(4) by (auto simp: submit_check_def list_ex_iff split: if_splits)
  show ?thesis
    using validateAuth_Inr [OF g(1)] validateOrderInput_Inr [OF g(3)] r fresh
    by (auto simp: submit_insert_def new_order_def MAX_CIPHERTEXT_LENGTH_def)
next
  case False
  then have "sv_db s' = sv_db s \<and> (\<exists>e. r = Inl e)"
    using assms unfolding post_order_def submitOrder_def answer_def
    by (auto simp: Let_def submit_check_def split: sum.splits prod.splits if_splits)
  then show ?thesis by auto
qed

theorem stored_order_is_authentic_witness:
  "\<exists>ct s' row. post_order sample_node sample_curve (Some sample_net) 20 250000
       (Some (js ''Bearer '' @ is_token (issueSession sample_node 200 (js ''GA'')))) (js ''1.2.3.4'')
       (VObj [(js ''encrypted_data'', VStr ct), (js ''threshold_pubkey'', VStr (vn_groupPublicKey sample_net)), (js ''nonce'', VNum (Fin 9))])
       (js ''o1'') \<lparr>sv_db = \<lparr>db_orders = [], db_batches = [], db_settlements = []\<rparr>, sv_order_hits = []\<rparr> = (s', Inr row) \<and>
     o_user_address row = js ''GA'' \<and> length (o_encrypted_data row) \<le> 4096 \<and> sv_db s' = \<lparr>db_orders = [row], db_batches = [], db_settlements = []\<rparr>"
proof -
  obtain ct s' row where p: "post_order sample_node sample_curve (Some sample_net) 20 250000
       (Some (js ''Bearer '' @ is_token (issueSession sample_node 200 (js ''GA'')))) (js ''1.2.3.4'')
       (VObj [(js ''encrypted_data'', VStr ct), (js ''threshold_pubkey'', VStr (vn_groupPublicKey sample_net)), (js ''nonce'', VNum (Fin 9))])
       (js ''o1'') \<lparr>sv_db = \<lparr>db_orders = [], db_batches = [], db_settlements = []\<rparr>, sv_order_hits = []\<rparr> = (s', Inr row)"
    using sample_post by blast
  have "length (o_encrypted_data row) \<le> 4096 \<and> sv_db s' = \<lparr>db_orders = [row], db_batches = [], db_settlements = []\<rparr>"
    using stored_order_is_authentic [OF p] by simp
  moreover have "o_user_address row = js ''GA''"
    using stored_order_is_authentic [OF p] sample_session by auto
  ultimately show ?thesis using p by blast
qed

end
