(* ===== verification/Startup.thy ===== *)
theory Startup
  imports Middleware
begin

text \<open>
  How the processes are configured and what guards a validator's HTTP interface:
  \<open>backend/src/config.ts\<close>, \<open>controllers/configController.ts\<close>, \<open>validator/main.ts\<close> and
  \<open>validator/server.ts\<close>.  The environment is a function, a file is its text or absent.
\<close>

section \<open>\<open>config\<close>\<close>

type_synonym environment = "jsstring \<Rightarrow> jsstring option"

text \<open>\<open>process.env.X || d\<close>.\<close>

definition env_or :: "environment \<Rightarrow> string \<Rightarrow> jsstring \<Rightarrow> jsstring" where
  "env_or env x d = (case env (js x) of None \<Rightarrow> d | Some v \<Rightarrow> if v = [] then d else v)"

text \<open>\<open>TOKEN_CONTRACTS\<close>: an entry without a colon throws.\<close>

definition parseTokenContracts :: "jsstring option \<Rightarrow> error + (jsstring \<times> jsstring) list" where
  "parseTokenContracts raw =
     (case raw of None \<Rightarrow> Inr []
      | Some r \<Rightarrow>
          ebind (emap (\<lambda>pair. case js_split 58 pair of
              symbol # address # _ \<Rightarrow> Inr (js_trim symbol, js_trim address)
            | _ \<Rightarrow> Inl TypeError)
            (filter (\<lambda>p. p \<noteq> []) (map js_trim (js_split 44 r)))) (\<lambda>entries. Inr (js_map entries)))"

definition byzantineValidators :: "jsstring option \<Rightarrow> int list" where
  "byzantineValidators raw =
     List.map_filter (\<lambda>s. case Option.bind (js_Number (js_trim s)) js_integer of
        Some n \<Rightarrow> if 0 < n then Some n else None | None \<Rightarrow> None)
       (js_split 44 (case raw of None \<Rightarrow> [] | Some r \<Rightarrow> r))"

record backend_config =
  bc_port :: js_number
  bc_databaseUrl :: jsstring
  bc_sqlitePath :: jsstring
  bc_sorobanRpcUrl :: jsstring
  bc_networkPassphrase :: jsstring
  bc_orderVaultContract :: jsstring
  bc_settlementEngineContract :: jsstring
  bc_backendSignerSecret :: jsstring
  bc_authTokenSecret :: jsstring
  bc_trustProxy :: js_number
  bc_rateLimitAuthPerMin :: js_number
  bc_rateLimitOrdersPerMin :: js_number
  bc_tokenContracts :: "(jsstring \<times> jsstring) list"
  bc_batchSize :: js_number
  bc_batchTimeoutMs :: js_number
  bc_validatorCount :: js_number
  bc_validatorThreshold :: js_number
  bc_validatorKeyDir :: jsstring
  bc_validatorClusterFile :: jsstring
  bc_byzantineValidators :: "int list"

text \<open>\<open>dataPath\<close>: \<open>path.join\<close> of the package's \<open>data\<close> directory and a name.\<close>

definition load_config :: "(jsstring \<Rightarrow> jsstring) \<Rightarrow> environment \<Rightarrow> error + backend_config" where
  "load_config dataPath env =
     ebind (parseTokenContracts (env (js ''TOKEN_CONTRACTS''))) (\<lambda>tokens. Inr \<lparr>
       bc_port = number_or (env (js ''PORT'')) (Fin 5001),
       bc_databaseUrl = env_or env ''DATABASE_URL'' [],
       bc_sqlitePath = dataPath (js ''dev.sqlite3''),
       bc_sorobanRpcUrl = env_or env ''SOROBAN_RPC_URL'' (js ''https://soroban-testnet.stellar.org''),
       bc_networkPassphrase = env_or env ''STELLAR_NETWORK_PASSPHRASE'' (js ''Test SDF Network ; September 2015''),
       bc_orderVaultContract = env_or env ''ORDER_VAULT_CONTRACT'' [],
       bc_settlementEngineContract = env_or env ''SETTLEMENT_ENGINE_CONTRACT'' [],
       bc_backendSignerSecret = env_or env ''BACKEND_SIGNER_SECRET'' [],
       bc_authTokenSecret = env_or env ''AUTH_TOKEN_SECRET'' [],
       bc_trustProxy = number_or (env (js ''TRUST_PROXY'')) (Fin 0),
       bc_rateLimitAuthPerMin = number_or (env (js ''RATE_LIMIT_AUTH_PER_MIN'')) (Fin 30),
       bc_rateLimitOrdersPerMin = number_or (env (js ''RATE_LIMIT_ORDERS_PER_MIN'')) (Fin 20),
       bc_tokenContracts = tokens,
       bc_batchSize = number_or (env (js ''BATCH_SIZE'')) (Fin 100),
       bc_batchTimeoutMs = number_or (env (js ''BATCH_TIMEOUT_MS'')) (Fin 30000),
       bc_validatorCount = number_or (env (js ''VALIDATOR_COUNT'')) (Fin 5),
       bc_validatorThreshold = number_or (env (js ''VALIDATOR_THRESHOLD'')) (Fin 3),
       bc_validatorKeyDir = (case env (js ''VALIDATOR_KEY_DIR'') of None \<Rightarrow> dataPath (js ''validators'') | Some d \<Rightarrow> d),
       bc_validatorClusterFile = env_or env ''VALIDATOR_CLUSTER_FILE'' [],
       bc_byzantineValidators = byzantineValidators (env (js ''BYZANTINE_VALIDATORS''))\<rparr>)"

record public_config =
  pc_key :: public_key_info
  pc_sealing :: jsstring
  pc_order_vault_contract :: "jsstring option"
  pc_settlement :: jsstring
  pc_validator_mode :: network_mode

definition getPublicConfig :: "backend_config \<Rightarrow> 's validator_network option \<Rightarrow> error + public_config" where
  "getPublicConfig cfg network =
     ebind (getPublicKeyInfo network) (\<lambda>k. ebind (getValidatorNetwork network) (\<lambda>net. Inr \<lparr>
       pc_key = k,
       pc_sealing = (if bc_orderVaultContract cfg \<noteq> [] then js ''onchain'' else js ''dev-ledger''),
       pc_order_vault_contract = (if bc_orderVaultContract cfg = [] then None else Some (bc_orderVaultContract cfg)),
       pc_settlement = (if bc_settlementEngineContract cfg \<noteq> [] then js ''onchain'' else js ''simulated''),
       pc_validator_mode = vn_mode net\<rparr>))"

section \<open>\<open>validator/main.ts\<close>\<close>

definition required :: "environment \<Rightarrow> string \<Rightarrow> error + jsstring" where
  "required env x = (case env (js x) of None \<Rightarrow> Inl (MissingField (js x))
     | Some v \<Rightarrow> if v = [] then Inl (MissingField (js x)) else Inr v)"

text \<open>One entry \<open>i:key\<close>; a third part is ignored.\<close>

definition peer_entry :: "jsstring \<Rightarrow> error + (js_number \<times> jsstring)" where
  "peer_entry p =
     (case js_split 58 p of
        i # key # _ \<Rightarrow>
          if i = [] \<or> \<not> list_all is_digit i \<or> \<not> is_key_hex key then Inl BadPeerEntry
          else Inr (round_double (of_int (dec_value i)), key)
      | _ \<Rightarrow> Inl BadPeerEntry)"

definition parsePeerKeys :: "jsstring \<Rightarrow> error + (js_number \<times> jsstring) list" where
  "parsePeerKeys raw =
     ebind (emap peer_entry (filter (\<lambda>p. p \<noteq> []) (map js_trim (js_split 44 raw)))) (\<lambda>es. Inr (js_map es))"

text \<open>
  The identity and, when the file was written, its new text's value.  \<open>stored\<close>: what
  \<open>identity.json\<close> holds, if it exists.
\<close>

definition loadOrCreateIdentity ::
  "ed25519 \<Rightarrow> byte list \<Rightarrow> jsstring option \<Rightarrow> error + (identity \<times> identity option)" where
  "loadOrCreateIdentity E secret stored =
     (case stored of
        Some text \<Rightarrow>
          ebind (JSON_parse text) (\<lambda>v.
          ebind (get_prop v (js ''secretKey'')) (\<lambda>k. case k of
             Some (VStr secretKey) \<Rightarrow>
               ebind (publicKeyOf E secretKey) (\<lambda>pk. Inr (\<lparr>id_secretKey = secretKey, id_publicKey = pk\<rparr>, None))
           | _ \<Rightarrow> Inl TypeError))
      | None \<Rightarrow> ebind (generateIdentity E secret) (\<lambda>ident. Inr (ident, Some ident)))"

definition commitmentLedgerFromEnv :: "environment \<Rightarrow> error + commitment_source" where
  "commitmentLedgerFromEnv env =
     (if env_or env ''VALIDATOR_ORDER_VAULT_CONTRACT'' [] \<noteq> [] then Inr (Ledger ledger_kind.Soroban)
      else if env (js ''VALIDATOR_INSECURE_SKIP_COMMITMENT_CHECK'') = Some (js ''1'') then Inr InsecureSkip
      else Inl NoLedger)"

text \<open>
  \<open>startValidator\<close> up to listening: \<open>keyFile\<close> is the parsed key file, if there is one.  The
  peers of a validator with an integer index.
\<close>

definition peer_list :: "(js_number \<times> jsstring) list \<Rightarrow> (int \<times> jsstring) list" where
  "peer_list ps = List.map_filter (\<lambda>(x, k). map_option (\<lambda>i. (i, k)) (js_integer x)) ps"

definition startValidator ::
  "ed25519 \<Rightarrow> environment \<Rightarrow> byte list \<Rightarrow> jsstring option \<Rightarrow> persisted_key option \<Rightarrow> error + (local_validator \<times> jsstring)" where
  "startValidator E env secret stored keyFile =
     ebind (required env ''VALIDATOR_INDEX'') (\<lambda>idx.
     ebind (required env ''VALIDATOR_KEY_DIR'') (\<lambda>keyDir.
     ebind (loadOrCreateIdentity E secret stored) (\<lambda>(identity, _).
     ebind (required env ''VALIDATOR_PEER_KEYS'') (\<lambda>raw.
     ebind (parsePeerKeys raw) (\<lambda>peers.
     ebind (commitmentLedgerFromEnv env) (\<lambda>commitments.
     ebind (case keyFile of
         Some key \<Rightarrow> fromPersisted key identity (peer_list peers) False (Some commitments)
       | None \<Rightarrow>
           (case Option.bind (js_Number idx) js_integer of None \<Rightarrow> Inl OwnIdentityNotListed
            | Some index \<Rightarrow> newLocalValidator index identity (peer_list peers) False
                \<lparr>df_corruptSharesTo = [], df_lieOnReveal = False\<rparr> (Some commitments) (keyFileFor keyDir index))) (\<lambda>v.
     ebind (required env ''VALIDATOR_API_TOKEN'') (\<lambda>apiToken.
       if length apiToken < 32 then Inl SecretTooShort else Inr (v, apiToken)))))))))"

section \<open>\<open>validator/server.ts\<close>\<close>

definition v1_authorized :: "jsstring \<Rightarrow> jsstring option \<Rightarrow> bool" where
  "v1_authorized apiToken authorization \<longleftrightarrow>
     utf8_encode (case bearer_token (case authorization of None \<Rightarrow> [] | Some h \<Rightarrow> h) of None \<Rightarrow> [] | Some t \<Rightarrow> t)
       = utf8_encode apiToken"

text \<open>A route under \<open>/v1\<close> around the validator's operation, state passed along.\<close>

definition v1_route ::
  "jsstring \<Rightarrow> jsstring option \<Rightarrow> ('s \<Rightarrow> 's \<times> (error + 'a)) \<Rightarrow> 's \<Rightarrow> 's \<times> (error + 'a)" where
  "v1_route apiToken authorization fn s =
     (if \<not> v1_authorized apiToken authorization then (s, Inl (HttpError 401))
      else (case fn s of (s', Inl e) \<Rightarrow> (s', Inl (HttpError 400)) | (s', Inr x) \<Rightarrow> (s', Inr x)))"

section \<open>Lemmas\<close>

text \<open>Only the configured token opens the interface.\<close>

lemma v1_authorized_iff:
  assumes "32 \<le> length apiToken" "\<forall>u \<in> set apiToken. unat u < 128"
  shows "v1_authorized apiToken authorization \<longleftrightarrow> (\<exists>h. authorization = Some h \<and> bearer_token h = Some apiToken)"
proof -
  have e: "utf8_encode t = utf8_encode apiToken \<longleftrightarrow> t = apiToken" for t
    using utf8_encode_eq_ascii [OF assms(2), of t] by blast
  have "bearer_token [] = None" by (simp add: bearer_token_def Let_def)
  then show ?thesis
    unfolding v1_authorized_def e using assms(1) by (auto split: option.splits)
qed

text \<open>A started validator lists its own identity among its peers and never skips the sealing check unless told.\<close>

lemma startValidator_checked:
  assumes "startValidator E env secret stored keyFile = Inr (v, apiToken)"
  shows "map_of (lv_peers v) (lv_index v) = Some (id_publicKey (lv_identity v)) \<and> 32 \<le> length apiToken \<and>
    (lv_commitments v = Some InsecureSkip \<longrightarrow> env (js ''VALIDATOR_INSECURE_SKIP_COMMITMENT_CHECK'') = Some (js ''1'') \<and>
       env_or env ''VALIDATOR_ORDER_VAULT_CONTRACT'' [] = []) \<and> lv_commitments v \<noteq> None"
proof -
  let ?made = "\<lambda>idx keyDir identity peers commitments. (case keyFile of
         Some key \<Rightarrow> fromPersisted key identity (peer_list peers) False (Some commitments)
       | None \<Rightarrow>
           (case Option.bind (js_Number idx) js_integer of None \<Rightarrow> Inl OwnIdentityNotListed
            | Some index \<Rightarrow> newLocalValidator index identity (peer_list peers) False
                \<lparr>df_corruptSharesTo = [], df_lieOnReveal = False\<rparr> (Some commitments) (keyFileFor keyDir index)))"
  from assms obtain idx keyDir identity w peers commitments token where
    c: "commitmentLedgerFromEnv env = Inr commitments"
    and m: "?made idx keyDir identity peers commitments = Inr v"
    and t: "32 \<le> length apiToken"
    unfolding startValidator_def ebind_eq_Inr
    by (elim exE conjE) (auto simp: ebind_eq_Inr not_less split: prod.splits if_splits)
  have v: "(\<exists>key. fromPersisted key identity (peer_list peers) False (Some commitments) = Inr v) \<or>
      (\<exists>index f. newLocalValidator index identity (peer_list peers) False
        \<lparr>df_corruptSharesTo = [], df_lieOnReveal = False\<rparr> (Some commitments) f = Inr v)"
    using m by (cases keyFile; cases "Option.bind (js_Number idx) js_integer") auto
  have "map_of (lv_peers v) (lv_index v) = Some (id_publicKey (lv_identity v)) \<and> lv_commitments v = Some commitments"
    using v by (auto simp: fromPersisted_def newLocalValidator_def ebind_eq_Inr split: if_splits)
  then show ?thesis using c t by (auto simp: commitmentLedgerFromEnv_def split: if_splits)
qed

end
