(* ===== verification/Numbers.thy ===== *)
theory Numbers
  imports Strings
begin

text \<open>
  \<open>frontend/src/utils/numbers.ts\<close>: amounts between the form and the order.  Base units are exact
  decimal texts; \<open>applySlippage\<close> computes with doubles, so \<open>parseFloat\<close>, the arithmetic and
  \<open>toFixed\<close> are written out and the error they can make is bounded.
\<close>

section \<open>\<open>toBaseUnits\<close> and \<open>fromBaseUnits\<close>\<close>

text \<open>\<open>^\d+(\.\d+)?$\<close>\<close>

definition is_amount :: "jsstring \<Rightarrow> bool" where
  "is_amount s \<longleftrightarrow> takeWhile is_digit s \<noteq> [] \<and>
     (case dropWhile is_digit s of [] \<Rightarrow> True | u # r \<Rightarrow> u = 46 \<and> r \<noteq> [] \<and> list_all is_digit r)"

text \<open>\<open>replace(/^0+(?=\d)/, '')\<close>\<close>

fun strip_zeros :: "jsstring \<Rightarrow> jsstring" where
  "strip_zeros (u # c # s) = (if u = 48 \<and> is_digit c then strip_zeros (c # s) else u # c # s)"
| "strip_zeros s = s"

definition toBaseUnits :: "jsstring \<Rightarrow> nat \<Rightarrow> error + jsstring" where
  "toBaseUnits amount decimals =
     (let trimmed = js_trim amount in
      if \<not> is_amount trimmed then Inl InvalidAmount
      else (case js_split 46 trimmed of
         [] \<Rightarrow> Inl InvalidAmount
       | whole # rest \<Rightarrow>
           (let fraction = (case rest of [] \<Rightarrow> [] | f # _ \<Rightarrow> f)
            in if length fraction > decimals then Inl (TooManyDecimals decimals)
               else Inr (strip_zeros (whole @ padEnd decimals 48 fraction)))))"

text \<open>\<open>replace(/0+$/, '')\<close>\<close>

definition drop_trailing_zeros :: "jsstring \<Rightarrow> jsstring" where
  "drop_trailing_zeros s = rev (dropWhile (\<lambda>c. c = 48) (rev s))"

definition fromBaseUnits :: "jsstring \<Rightarrow> nat \<Rightarrow> jsstring" where
  "fromBaseUnits units decimals =
     (if units = [] \<or> \<not> list_all is_digit units then units
      else (let padded = padStart (decimals + 1) 48 units;
                whole = take (length padded - decimals) padded;
                fraction = drop_trailing_zeros (drop (length padded - decimals) padded)
            in if fraction \<noteq> [] then whole @ [46] @ fraction else whole))"

section \<open>Doubles\<close>

text \<open>A number or \<open>NaN\<close> (\<open>None\<close>).  The sign of a zero is not kept: nothing here shows it.\<close>

definition double_times :: "js_number \<Rightarrow> js_number \<Rightarrow> js_number option" where
  "double_times x y = (case (x, y) of
     (Fin a, Fin b) \<Rightarrow> Some (round_double (a * b))
   | (Infinite s, Fin b) \<Rightarrow> if b = 0 then None else Some (Infinite (s \<noteq> (b < 0)))
   | (Fin a, Infinite s) \<Rightarrow> if a = 0 then None else Some (Infinite (s \<noteq> (a < 0)))
   | (Infinite s, Infinite t) \<Rightarrow> Some (Infinite (s \<noteq> t)))"

definition double_minus :: "rat \<Rightarrow> js_number \<Rightarrow> js_number" where
  "double_minus a y = (case y of Fin b \<Rightarrow> round_double (a - b) | Infinite s \<Rightarrow> Infinite (\<not> s))"

text \<open>\<open>parseFloat\<close>: the longest prefix that is a decimal literal.\<close>

definition parseFloat :: "jsstring \<Rightarrow> js_number option" where
  "parseFloat s =
     (let w = dropWhile js_space s; neg = (take 1 w = [45]);
          t = (if take 1 w = [45] \<or> take 1 w = [43] then tl w else w);
          ds = takeWhile is_digit t; r = dropWhile is_digit t;
          fd = (if take 1 r = [46] then takeWhile is_digit (tl r) else []);
          r' = (if take 1 r = [46] then dropWhile is_digit (tl r) else r)
      in if take 8 t = js ''Infinity'' then Some (Infinite neg)
         else if ds = [] \<and> fd = [] then None
         else (let e = (case parse_exponent r' of Some (e, _) \<Rightarrow> e | None \<Rightarrow> 0)
           in Some (round_double ((if neg then - 1 else 1) * of_int (dec_value (ds @ fd)) * power_int 10 (e - int (length fd))))))"

text \<open>
  \<open>Number.prototype.toString\<close> of a finite number of magnitude at least \<open>10\<^sup>2\<^sup>1\<close>, where \<open>toFixed\<close>
  falls back to it: the fewest digits that read back as the number (17 always suffice).
\<close>

definition shortest_digits :: "rat \<Rightarrow> nat \<Rightarrow> (int \<times> int) option" where
  "shortest_digits q k =
     (let n = int (length (nat_to_string 10 (nat \<lfloor>q\<rfloor>))); f = \<lfloor>q / power_int 10 (n - int k)\<rfloor>;
          ok = filter (\<lambda>s. round_double (of_int s * power_int 10 (n - int k)) = Fin q) [f, f + 1]
      in case ok of [] \<Rightarrow> None
         | s # ss \<Rightarrow>
             (let best = (case ss of [] \<Rightarrow> s
                | t # _ \<Rightarrow> if \<bar>of_int t * power_int 10 (n - int k) - q\<bar> < \<bar>of_int s * power_int 10 (n - int k) - q\<bar> then t else s)
              in Some (if best = 10 ^ k then (1, n + 1) else (best, n))))"

definition exponent_text :: "rat \<Rightarrow> jsstring" where
  "exponent_text q = (case List.map_filter (shortest_digits q) [1..<18] of
     [] \<Rightarrow> []
   | (s, n) # _ \<Rightarrow>
       (let d = nat_to_string 10 (nat s)
        in take 1 d @ (if length d = 1 then [] else [46] @ drop 1 d) @ js ''e+'' @ nat_to_string 10 (nat (n - 1))))"

text \<open>\<open>x.toFixed(f)\<close>; of two texts equally near the larger is taken.\<close>

definition fixed_digits :: "nat \<Rightarrow> nat \<Rightarrow> jsstring" where
  "fixed_digits f n =
     (let d = padStart (f + 1) 48 (nat_to_string 10 n)
      in if f = 0 then nat_to_string 10 n else take (length d - f) d @ [46] @ drop (length d - f) d)"

definition toFixed :: "nat \<Rightarrow> js_number option \<Rightarrow> jsstring" where
  "toFixed f x = (case x of
     None \<Rightarrow> js ''NaN''
   | Some (Infinite neg) \<Rightarrow> (if neg then [45] else []) @ js ''Infinity''
   | Some (Fin q) \<Rightarrow> (if q < 0 then [45] else []) @
       (if 10 ^ 21 \<le> \<bar>q\<bar> then exponent_text \<bar>q\<bar> else fixed_digits f (nat \<lfloor>\<bar>q\<bar> * 10 ^ f + 1 / 2\<rfloor>)))"

section \<open>The other functions of the file\<close>

definition applySlippage :: "jsstring \<Rightarrow> int \<Rightarrow> jsstring" where
  "applySlippage amount slippageBps = (case parseFloat amount of
     None \<Rightarrow> js ''0''
   | Some x \<Rightarrow> toFixed 7 (double_times x (double_minus 1 (round_double (of_int slippageBps / 10000)))))"

definition isPositiveNumeric :: "jsstring \<Rightarrow> bool" where
  "isPositiveNumeric s \<longleftrightarrow> js_trim s \<noteq> [] \<and> (case js_Number s of Some (Fin q) \<Rightarrow> 0 < q | _ \<Rightarrow> False)"

text \<open>\<open>replace(/\.?0+$/, '')\<close>, then \<open>|| '0'\<close>.\<close>

definition drop_zero_fraction :: "jsstring \<Rightarrow> jsstring" where
  "drop_zero_fraction s =
     (let t = drop_trailing_zeros s
      in if t = s then s else if t \<noteq> [] \<and> last t = 46 then butlast t else t)"

definition toDisplayAmount :: "jsstring \<Rightarrow> nat \<Rightarrow> jsstring" where
  "toDisplayAmount raw decimals = (case parseFloat raw of
     None \<Rightarrow> js ''0''
   | Some x \<Rightarrow> (let t = drop_zero_fraction (toFixed (min decimals 6) (Some x)) in if t = [] then js ''0'' else t))"

section \<open>Texts of digits\<close>

text \<open>An amount in base units: no sign, no leading zero.\<close>

definition is_units :: "jsstring \<Rightarrow> bool" where
  "is_units u \<longleftrightarrow> u \<noteq> [] \<and> list_all is_digit u \<and> (hd u = 48 \<longrightarrow> length u = 1)"

lemma strip_zeros_split:
  "s \<noteq> [] \<Longrightarrow> list_all is_digit s \<Longrightarrow> \<exists>k. s = replicate k 48 @ strip_zeros s \<and> is_units (strip_zeros s)"
proof (induction s rule: strip_zeros.induct)
  case (1 u c s)
  show ?case
  proof (cases "u = 48")
    case True
    with 1 obtain k where "c # s = replicate k 48 @ strip_zeros (c # s)" "is_units (strip_zeros (c # s))" by auto
    then have "u # c # s = replicate (Suc k) 48 @ strip_zeros (u # c # s) \<and> is_units (strip_zeros (u # c # s))"
      using True 1(3) by simp
    then show ?thesis ..
  next
    case False
    with 1(3) show ?thesis by (intro exI [of _ 0]) (simp add: is_units_def)
  qed
qed (simp_all add: is_units_def exI [of _ 0])

lemma zeros_digits: "list_all is_digit (replicate k 48)"
  by (induction k) (simp_all add: is_digit_def)

lemma strip_zeros_units: "is_units u \<Longrightarrow> strip_zeros (replicate k 48 @ u) = u"
proof (induction k)
  case 0
  then show ?case by (cases u rule: strip_zeros.cases) (auto simp: is_units_def)
next
  case (Suc k)
  obtain c s where cs: "replicate k 48 @ u = c # s"
    using Suc.prems by (cases "replicate k 48 @ u") (auto simp: is_units_def)
  have "list_all is_digit (replicate k 48 @ u)" using Suc.prems zeros_digits by (simp add: is_units_def)
  then show ?case using Suc cs by simp
qed

lemma dec_value_append: "dec_value (s @ t) = dec_value s * 10 ^ length t + dec_value t"
proof (induction t rule: rev_induct)
  case (snoc c t)
  have "dec_value (s @ t @ [c]) = 10 * dec_value (s @ t) + int (unat c - 48)" using dec_value_snoc [of "s @ t" c] by simp
  then show ?case using snoc dec_value_snoc [of t c] by (simp add: algebra_simps)
qed (simp add: dec_value_def)

lemma dec_value_zeros: "dec_value (replicate k 48) = 0"
  by (induction k) (simp_all add: dec_value_def)

lemma dec_value_nonneg: "0 \<le> dec_value s"
  by (induction s rule: rev_induct) (simp_all add: dec_value_snoc, simp add: dec_value_def)

lemma drop_trailing_zeros_split: "\<exists>k. s = drop_trailing_zeros s @ replicate k 48"
proof -
  have "takeWhile (\<lambda>c. c = 48) xs = replicate (length (takeWhile (\<lambda>c. c = 48) xs)) 48" for xs :: jsstring
    by (induction xs) auto
  then have "rev s = replicate (length (takeWhile (\<lambda>c. c = 48) (rev s))) 48 @ dropWhile (\<lambda>c. c = 48) (rev s)"
    by (metis takeWhile_dropWhile_id)
  from arg_cong [OF this, of rev] show ?thesis unfolding drop_trailing_zeros_def by auto
qed

section \<open>Decimal texts\<close>

text \<open>The text with integer part \<open>w\<close> and fraction \<open>f\<close>; the point is there exactly when \<open>f\<close> is not empty.\<close>

definition decimal :: "jsstring \<Rightarrow> jsstring \<Rightarrow> jsstring" where
  "decimal w f = (if f = [] then w else w @ [46] @ f)"

definition amount_parts :: "jsstring \<Rightarrow> jsstring \<Rightarrow> bool" where
  "amount_parts w f \<longleftrightarrow> w \<noteq> [] \<and> list_all is_digit w \<and> list_all is_digit f"

definition amount_value :: "jsstring \<Rightarrow> jsstring \<Rightarrow> rat" where
  "amount_value w f = of_int (dec_value (w @ f)) / 10 ^ length f"

lemma digits_46: "list_all is_digit w \<Longrightarrow> 46 \<notin> set w"
  by (auto simp: list_all_iff is_digit_def)

lemma decimal_reads:
  assumes "amount_parts w f"
  shows "takeWhile is_digit (decimal w f) = w"
    "dropWhile is_digit (decimal w f) = (if f = [] then [] else 46 # f)"
proof -
  have "takeWhile is_digit (w @ 46 # f) = w" "dropWhile is_digit (w @ 46 # f) = 46 # f"
    using assms by (simp_all add: amount_parts_def list_all_iff is_digit_def)
  moreover have "takeWhile is_digit w = w" "dropWhile is_digit w = []"
    using assms by (simp_all add: amount_parts_def list_all_iff takeWhile_eq_all_conv)
  ultimately show "takeWhile is_digit (decimal w f) = w"
    "dropWhile is_digit (decimal w f) = (if f = [] then [] else 46 # f)" by (simp_all add: decimal_def)
qed

lemma is_amount_iff: "is_amount s \<longleftrightarrow> (\<exists>w f. amount_parts w f \<and> s = decimal w f)"
proof
  assume s: "is_amount s"
  have d: "list_all is_digit (takeWhile is_digit s)" by (auto simp: list_all_iff dest: set_takeWhileD)
  have e: "s = takeWhile is_digit s @ dropWhile is_digit s" by simp
  show "\<exists>w f. amount_parts w f \<and> s = decimal w f"
  proof (cases "dropWhile is_digit s")
    case Nil
    then have "takeWhile is_digit s = s" using e by simp
    then have "amount_parts s [] \<and> s = decimal s []"
      using s d by (metis is_amount_def amount_parts_def decimal_def list.pred_inject(1))
    then show ?thesis by blast
  next
    case (Cons u r)
    then have "amount_parts (takeWhile is_digit s) r \<and> s = decimal (takeWhile is_digit s) r"
      using s d e by (simp add: is_amount_def amount_parts_def decimal_def)
    then show ?thesis by blast
  qed
next
  assume "\<exists>w f. amount_parts w f \<and> s = decimal w f"
  then show "is_amount s" using decimal_reads by (auto simp: is_amount_def amount_parts_def)
qed

lemma decimal_units: "amount_parts w f \<Longrightarrow> c \<in> set (decimal w f) \<Longrightarrow> c = 46 \<or> is_digit c"
  by (auto simp: decimal_def amount_parts_def list_all_iff split: if_splits)

lemma digit_not_space: "c = 46 \<or> is_digit c \<Longrightarrow> \<not> js_space c"
  by (auto simp: js_space_def is_digit_def word_le_nat_alt)

lemma js_trim_decimal: "amount_parts w f \<Longrightarrow> js_trim (decimal w f) = decimal w f"
  by (intro js_trim_id) (metis decimal_units digit_not_space hd_in_set last_in_set)

lemma toBaseUnits_decimal:
  assumes "amount_parts w f"
  shows "toBaseUnits (decimal w f) d = (if d < length f then Inl (TooManyDecimals d)
    else Inr (strip_zeros (w @ padEnd d 48 f)))"
proof -
  have "is_amount (decimal w f)" using assms is_amount_iff by blast
  moreover have "js_split 46 (decimal w f) = (if f = [] then [w] else [w, f])"
    using assms digits_46 by (simp add: decimal_def amount_parts_def js_split_none js_split_append)
  ultimately show ?thesis by (simp add: toBaseUnits_def js_trim_decimal [OF assms] Let_def)
qed

lemma toBaseUnits_padded:
  assumes "amount_parts w f" "w @ f @ replicate k 48 = replicate j 48 @ u" "is_units u" "length f + k = d"
  shows "toBaseUnits (decimal w f) d = Inr u"
proof -
  have "padEnd d 48 f = f @ replicate k 48" using assms(4) by (auto simp: padEnd_def)
  then have "w @ padEnd d 48 f = replicate j 48 @ u" using assms(2) by (simp only:)
  then show ?thesis using strip_zeros_units [OF assms(3)] assms(4) by (simp add: toBaseUnits_decimal [OF assms(1)])
qed

lemma toBaseUnits_round_trip:
  assumes "is_units u"
  shows "toBaseUnits (fromBaseUnits u d) d = Inr u"
proof -
  define p where "p = padStart (d + 1) 48 u"
  define w where "w = take (length p - d) p"
  define r where "r = drop (length p - d) p"
  obtain k where k: "r = drop_trailing_zeros r @ replicate k 48" using drop_trailing_zeros_split by blast
  have u: "u \<noteq> []" "list_all is_digit u" using assms by (simp_all add: is_units_def)
  have p: "p = replicate (d + 1 - length u) 48 @ u" by (simp add: p_def padStart_def)
  have "list_all is_digit p" unfolding p using u zeros_digits by simp
  then have d: "list_all is_digit w" "list_all is_digit r"
    unfolding w_def r_def by (metis append_take_drop_id list_all_append)+
  have "d < length p" by (simp add: p_def length_padStart less_max_iff_disj)
  then have "w \<noteq> []" "length r = d" by (auto simp: w_def r_def)
  moreover have "list_all is_digit (drop_trailing_zeros r)" using d(2) k by (metis list_all_append)
  ultimately have "amount_parts w (drop_trailing_zeros r)" using d by (simp add: amount_parts_def)
  moreover have "w @ drop_trailing_zeros r @ replicate k 48 = replicate (d + 1 - length u) 48 @ u"
    unfolding k [symmetric] p [symmetric] by (simp add: w_def r_def)
  moreover have "length (drop_trailing_zeros r) + k = d"
    using arg_cong [OF k, of length] \<open>length r = d\<close> by simp
  ultimately have "toBaseUnits (decimal w (drop_trailing_zeros r)) d = Inr u"
    using toBaseUnits_padded assms by blast
  moreover have "fromBaseUnits u d = decimal w (drop_trailing_zeros r)"
    using u by (simp add: fromBaseUnits_def decimal_def Let_def w_def r_def p_def)
  ultimately show ?thesis by simp
qed

text \<open>The result is the amount times \<open>10\<^sup>d\<close>, exactly.\<close>

lemma toBaseUnits_value:
  assumes "amount_parts w f" "toBaseUnits (decimal w f) d = Inr u"
  shows "is_units u" "of_int (dec_value u) = amount_value w f * 10 ^ d"
proof -
  have l: "length f \<le> d" and u: "u = strip_zeros (w @ padEnd d 48 f)"
    using assms(2) by (simp_all add: toBaseUnits_decimal [OF assms(1)] split: if_splits)
  have "list_all is_digit (w @ padEnd d 48 f)" "w @ padEnd d 48 f \<noteq> []"
    using assms(1) zeros_digits by (simp_all add: amount_parts_def padEnd_def)
  from strip_zeros_split [OF this(2,1)] obtain k where k: "w @ padEnd d 48 f = replicate k 48 @ u" "is_units u"
    unfolding u by blast
  then show "is_units u" by simp
  have "dec_value u = dec_value (w @ padEnd d 48 f)" unfolding k(1) by (simp add: dec_value_append dec_value_zeros)
  also have "\<dots> = dec_value ((w @ f) @ replicate (d - length f) 48)" by (simp add: padEnd_def)
  also have "\<dots> = dec_value (w @ f) * 10 ^ (d - length f)" unfolding dec_value_append [of "w @ f"] by (simp add: dec_value_zeros)
  finally have "(of_int (dec_value u) :: rat) = of_int (dec_value (w @ f)) * 10 ^ (d - length f)" by simp
  also have "\<dots> = amount_value w f * 10 ^ d" using l by (simp add: amount_value_def power_diff)
  finally show "of_int (dec_value u) = amount_value w f * 10 ^ d" .
qed

section \<open>Doubles are near\<close>

lemma floor_log2_bounds:
  assumes "0 < q"
  shows "power_int 2 (floor_log2 q) \<le> q" "q < power_int 2 (floor_log2 q + 1)"
proof -
  obtain n d where nd: "quotient_of q = (n, d)" by fastforce
  have q: "q = of_int n / of_int d" and d: "0 < d"
    using quotient_of_div [OF nd] quotient_of_denom_pos [OF nd] by simp_all
  then have n: "0 < n" using assms by (simp add: zero_less_divide_iff)
  have b: "power_int 2 (bitlen x - 1) \<le> (of_int x :: rat)" "(of_int x :: rat) < power_int 2 (bitlen x)" if "0 < x" for x
  proof -
    have l: "1 \<le> bitlen x" using that by (simp add: bitlen_def floorlog_def)
    have p: "power_int 2 (bitlen x - 1) = (of_int (2 ^ nat (bitlen x - 1)) :: rat)"
      "power_int 2 (bitlen x) = (of_int (2 ^ nat (bitlen x)) :: rat)" using l by (simp_all add: power_int_def)
    show "power_int 2 (bitlen x - 1) \<le> (of_int x :: rat)" "(of_int x :: rat) < power_int 2 (bitlen x)"
      unfolding p of_int_le_iff of_int_less_iff using bitlen_bounds [OF that] by simp_all
  qed
  define m where "m = bitlen n - bitlen d"
  have m: "floor_log2 q = (if power_int 2 m \<le> q then m else m - 1)"
    by (simp add: floor_log2_def nd m_def Let_def)
  have "q < power_int 2 (bitlen n) / of_int d" unfolding q using b(2) [OF n] d by (simp add: divide_strict_right_mono)
  also have "\<dots> \<le> power_int 2 (bitlen n) / power_int 2 (bitlen d - 1)"
    using b(1) [OF d] d by (intro divide_left_mono) simp_all
  also have "\<dots> = power_int 2 (m + 1)" by (simp add: power_int_diff [symmetric] m_def algebra_simps)
  finally have u: "q < power_int 2 (m + 1)" .
  have "power_int 2 (m - 1) = power_int 2 (bitlen n - 1) / (power_int 2 (bitlen d) :: rat)"
    by (simp add: power_int_diff [symmetric] m_def algebra_simps)
  also have "\<dots> \<le> of_int n / power_int 2 (bitlen d)" using b(1) [OF n] by (intro divide_right_mono) simp_all
  also have "\<dots> \<le> q" unfolding q using b(2) [OF d] n d by (intro divide_left_mono) simp_all
  finally have l: "power_int 2 (m - 1) \<le> q" .
  show "power_int 2 (floor_log2 q) \<le> q" "q < power_int 2 (floor_log2 q + 1)" using u l by (simp_all add: m)
qed

lemma round_even_near: "\<bar>of_int (round_even x) - x\<bar> \<le> 1 / 2"
proof -
  have "of_int \<lfloor>x\<rfloor> \<le> x" "x < of_int \<lfloor>x\<rfloor> + 1" by linarith+
  then show ?thesis by (auto simp: round_even_def Let_def abs_le_iff)
qed

text \<open>The relative error of rounding, away from underflow and overflow.\<close>

lemma round_double_near:
  assumes "power_int 2 (- 1000) \<le> q" "q \<le> 2 ^ 1000"
  obtains r where "round_double q = Fin r" "\<bar>r - q\<bar> \<le> q / 2 ^ 53"
proof -
  have q: "0 < q" using assms(1) by (metis zero_less_power_int zero_less_numeral less_le_trans)
  define l where "l = floor_log2 q"
  note b = floor_log2_bounds [OF q, folded l_def]
  have "power_int 2 (- 1000) < (power_int 2 (l + 1) :: rat)" using assms(1) b(2) by simp
  then have "- 1000 < l + 1" using power_int_increasing [of "l + 1" "- 1000" "2 :: rat"] by fastforce
  then have m: "max (l - 52) (- 1074) = l - 52" by simp
  define u where "u = (power_int 2 (l - 52) :: rat)"
  have u: "0 < u" "u / 2 \<le> q / 2 ^ 53"
    using b(1) by (simp_all add: u_def power_int_diff)
  define r where "r = of_int (round_even (q / u)) * u"
  have "r - q = (of_int (round_even (q / u)) - q / u) * u" using u(1) by (simp add: r_def algebra_simps)
  then have "\<bar>r - q\<bar> \<le> 1 / 2 * u"
    using mult_right_mono [OF round_even_near [of "q / u"], of u] u(1) by (simp add: abs_mult)
  then have near: "\<bar>r - q\<bar> \<le> q / 2 ^ 53" using u(2) by simp
  also have "\<dots> \<le> q" using q by simp
  finally have "\<bar>r\<bar> \<le> 2 * q" using q by linarith
  also have "\<dots> \<le> 2 * 2 ^ 1000" using assms(2) by simp
  also have "\<dots> < 2 ^ 1024" by simp
  finally have "round_double q = Fin r"
    using q by (simp add: round_double_def Let_def l_def [symmetric] m u_def [symmetric] r_def [symmetric])
  then show ?thesis using near that by blast
qed

section \<open>Reading decimal texts as doubles\<close>

lemma decimal_head:
  assumes "amount_parts w f"
  obtains c s where "decimal w f = c # s" "is_digit c"
proof -
  obtain c s where "w = c # s" "is_digit c" using assms by (cases w) (auto simp: amount_parts_def)
  then show ?thesis using that [of c "tl (decimal w f)"] by (simp add: decimal_def)
qed

lemma decimal_scan:
  assumes "amount_parts w f"
  shows "(if take 1 (dropWhile is_digit (decimal w f)) = [46] then takeWhile is_digit (tl (dropWhile is_digit (decimal w f))) else []) = f"
    "(if take 1 (dropWhile is_digit (decimal w f)) = [46] then dropWhile is_digit (tl (dropWhile is_digit (decimal w f)))
      else dropWhile is_digit (decimal w f)) = []"
proof -
  have "takeWhile is_digit f = f" "dropWhile is_digit f = []"
    using assms by (simp_all add: amount_parts_def list_all_iff takeWhile_eq_all_conv)
  then show "(if take 1 (dropWhile is_digit (decimal w f)) = [46] then takeWhile is_digit (tl (dropWhile is_digit (decimal w f))) else []) = f"
    "(if take 1 (dropWhile is_digit (decimal w f)) = [46] then dropWhile is_digit (tl (dropWhile is_digit (decimal w f)))
      else dropWhile is_digit (decimal w f)) = []"
    unfolding decimal_reads [OF assms] by simp_all
qed

lemma power_int_amount: "of_int (dec_value (w @ f)) * power_int 10 (0 - int (length f)) = amount_value w f"
  by (simp add: amount_value_def power_int_minus divide_inverse)

lemma parseFloat_decimal:
  assumes "amount_parts w f"
  shows "parseFloat (decimal w f) = Some (round_double (amount_value w f))"
proof -
  obtain c s where c: "decimal w f = c # s" "is_digit c" by (rule decimal_head [OF assms])
  then have "\<not> js_space c" "c \<noteq> 45" "c \<noteq> 43" "c \<noteq> 73" using digit_not_space by (auto simp: is_digit_def)
  then have h: "dropWhile js_space (decimal w f) = decimal w f" "take 1 (decimal w f) \<noteq> [45]"
    "take 1 (decimal w f) \<noteq> [43]" "take 8 (decimal w f) \<noteq> js ''Infinity''" by (simp_all add: c(1) js_def)
  have n: "w \<noteq> []" using assms by (simp add: amount_parts_def)
  have t: "(if take 1 (decimal w f) = [45] \<or> take 1 (decimal w f) = [43] then tl (decimal w f) else decimal w f) = decimal w f"
    using h(2,3) by simp
  show ?thesis
    unfolding parseFloat_def Let_def h(1) t decimal_scan [OF assms] decimal_reads(1) [OF assms] using h n
    by (simp add: parse_exponent_def power_int_amount [simplified])
qed

lemma js_Number_decimal:
  assumes "amount_parts w f"
  shows "js_Number (decimal w f) = Some (round_double (amount_value w f))"
proof -
  obtain c s where c: "decimal w f = c # s" "is_digit c" by (rule decimal_head [OF assms])
  have "c \<noteq> 45" "c \<noteq> 43" "c \<noteq> 73" using c by (auto simp: is_digit_def)
  then have h: "take 1 (decimal w f) \<noteq> [45]" "take 1 (decimal w f) \<noteq> [43]" "decimal w f \<noteq> js ''Infinity''"
    "decimal w f \<noteq> []" by (simp_all add: c(1) js_def)
  have x: "take 2 (decimal w f) \<noteq> [48, x]" if "57 < x" for x
  proof
    assume "take 2 (decimal w f) = [48, x]"
    then have "x \<in> set (decimal w f)" using set_take_subset [of 2 "decimal w f"] by simp
    then have "x = 46 \<or> x \<le> 57" using decimal_units [OF assms] by (auto simp: is_digit_def)
    then show False using that by auto
  qed
  have p: "take 2 (decimal w f) \<noteq> js ''0x''" "take 2 (decimal w f) \<noteq> js ''0X''" "take 2 (decimal w f) \<noteq> js ''0o''"
    "take 2 (decimal w f) \<noteq> js ''0O''" "take 2 (decimal w f) \<noteq> js ''0b''" "take 2 (decimal w f) \<noteq> js ''0B''"
    by (simp_all add: js_def x)
  have n: "w \<noteq> []" using assms by (simp add: amount_parts_def)
  have t: "(if take 1 (decimal w f) = [45] \<or> take 1 (decimal w f) = [43] then tl (decimal w f) else decimal w f) = decimal w f"
    using h(1,2) by simp
  have "decimal_literal (decimal w f) = Some (round_double (amount_value w f))"
    unfolding decimal_literal_def Let_def t decimal_scan [OF assms] decimal_reads(1) [OF assms] using h n
    by (simp add: parse_exponent_def power_int_amount [simplified])
  then show ?thesis unfolding js_Number_def Let_def js_trim_decimal [OF assms] using p h(4) by simp
qed

lemma amount_value_units:
  assumes "amount_parts w f" "toBaseUnits (decimal w f) d = Inr u"
  shows "amount_value w f = of_int (dec_value u) / 10 ^ d"
  using toBaseUnits_value(2) [OF assms] by simp

lemma isPositiveNumeric_decimal:
  assumes "amount_parts w f" "toBaseUnits (decimal w f) 7 = Inr u" "1 \<le> dec_value u" "dec_value u \<le> 10 ^ 38"
  shows "isPositiveNumeric (decimal w f)"
proof -
  have "(1 :: rat) \<le> of_int (dec_value u)" "of_int (dec_value u) \<le> (10 :: rat) ^ 38"
    using assms(3,4) by (metis of_int_le_iff of_int_1, metis of_int_le_iff of_int_numeral of_int_power)
  then have v: "1 / 10 ^ 7 \<le> amount_value w f" "amount_value w f \<le> 10 ^ 38 / 10 ^ 7"
    unfolding amount_value_units [OF assms(1,2)] by (simp_all add: divide_right_mono)
  have "power_int 2 (- 1000) \<le> (1 / 10 ^ 7 :: rat)" "(10 ^ 38 / 10 ^ 7 :: rat) \<le> 2 ^ 1000"
    by (simp_all add: power_int_minus field_simps)
  with v obtain r where r: "round_double (amount_value w f) = Fin r" "\<bar>r - amount_value w f\<bar> \<le> amount_value w f / 2 ^ 53"
    using round_double_near [of "amount_value w f"] by force
  have "0 < amount_value w f" using v(1) by (rule less_le_trans [rotated]) simp
  then have "amount_value w f / 2 ^ 53 < amount_value w f" by simp
  then have "0 < r" using r(2) by linarith
  moreover have "decimal w f \<noteq> []" using assms(1) by (auto simp: decimal_def amount_parts_def)
  ultimately show ?thesis
    by (simp add: isPositiveNumeric_def js_trim_decimal [OF assms(1)] js_Number_decimal [OF assms(1)] r(1))
qed

section \<open>Seven digits after the point\<close>

lemma units_nat_to_string: "is_units (nat_to_string 10 n)"
  unfolding is_units_def using nat_digits [of n]
  by (metis One_nat_def Suc_leI le_antisym length_greater_0_conv)

lemma fixed_digits_units:
  obtains w f where "amount_parts w f" "fixed_digits 7 n = decimal w f" "toBaseUnits (decimal w f) 7 = Inr (nat_to_string 10 n)"
proof -
  define p where "p = padStart 8 48 (nat_to_string 10 n)"
  define w where "w = take (length p - 7) p"
  define f where "f = drop (length p - 7) p"
  have p: "p = replicate (8 - length (nat_to_string 10 n)) 48 @ nat_to_string 10 n" by (simp add: p_def padStart_def)
  have l: "8 \<le> length p" by (simp add: p_def length_padStart)
  have "list_all is_digit p" unfolding p using zeros_digits nat_digits(1) by simp
  then have "list_all is_digit w" "list_all is_digit f"
    unfolding w_def f_def by (metis append_take_drop_id list_all_append)+
  moreover have "w \<noteq> []" "length f = 7" using l by (auto simp: w_def f_def)
  ultimately have a: "amount_parts w f" by (simp add: amount_parts_def)
  have "w @ f @ replicate 0 48 = replicate (8 - length (nat_to_string 10 n)) 48 @ nat_to_string 10 n"
    unfolding p [symmetric] by (simp add: w_def f_def)
  then have "toBaseUnits (decimal w f) 7 = Inr (nat_to_string 10 n)"
    using a units_nat_to_string \<open>length f = 7\<close> by (intro toBaseUnits_padded) auto
  moreover have "fixed_digits 7 n = decimal w f"
    using \<open>length f = 7\<close> by (auto simp: fixed_digits_def decimal_def Let_def w_def f_def p_def)
  ultimately show ?thesis using a that by blast
qed

section \<open>The minimum output\<close>

text \<open>The four roundings of \<open>value * (1 - slippageBps / 10000)\<close> for one percent.\<close>

lemma slippage_error:
  fixes v x c g y e :: rat
  assumes "0 < v" "0 \<le> e" "e \<le> 1 / 100"
    and x: "\<bar>x - v\<bar> \<le> v * e" and c: "\<bar>c - 1 / 100\<bar> \<le> 1 / 100 * e"
    and g: "\<bar>g - (1 - c)\<bar> \<le> (1 - c) * e" and y: "\<bar>y - x * g\<bar> \<le> x * g * e"
  shows "\<bar>y - 99 / 100 * v\<bar> \<le> 5 * (v * e)"
proof -
  have c0: "0 \<le> c" "c \<le> 1" using c assms(2,3) by linarith+
  have "(1 - c) * e \<le> 1 * e" using c0 assms(2) by (intro mult_right_mono) simp_all
  then have g1: "\<bar>g - 99 / 100\<bar> \<le> 2 * e" using c g assms(2) by linarith
  then have g0: "0 \<le> g" "g \<le> 1 + e" using assms(2,3) c0 \<open>(1 - c) * e \<le> 1 * e\<close> g by (simp_all add: abs_le_iff)
  have "v * e \<le> v * (1 / 100)" using assms(1,3) by (intro mult_left_mono) simp_all
  then have x0: "0 \<le> x" "x \<le> 101 / 100 * v" using x assms(1) by linarith+
  have "99 / 100 \<le> g + 2 * e" "g \<le> 99 / 100 + 2 * e" using g1 by (simp_all add: abs_le_iff)
  then have g2: "g \<le> 101 / 100" using assms(3) by linarith
  have "\<bar>(x - v) * g\<bar> \<le> (v * e) * (101 / 100)"
    unfolding abs_mult using x g0(1) g2 assms(1,2) by (intro mult_mono) simp_all
  moreover have "\<bar>v * (g - 99 / 100)\<bar> \<le> v * (2 * e)"
    unfolding abs_mult using g1 assms(1) by (simp add: mult_left_mono)
  moreover have "x * g - 99 / 100 * v = (x - v) * g + v * (g - 99 / 100)" by (simp add: algebra_simps)
  ultimately have s: "\<bar>x * g - 99 / 100 * v\<bar> \<le> 301 / 100 * (v * e)" by linarith
  have "x * g \<le> (101 / 100 * v) * (101 / 100)" using x0 g0 g2 assms(1) by (intro mult_mono) simp_all
  then have "x * g * e \<le> (101 / 100 * v) * (101 / 100) * e" using assms(2) by (rule mult_right_mono)
  then have "x * g * e \<le> 103 / 100 * (v * e)" using mult_nonneg_nonneg [OF less_imp_le [OF assms(1)] assms(2)] by simp
  then show ?thesis using s y mult_nonneg_nonneg [OF less_imp_le [OF assms(1)] assms(2)] by linarith
qed

lemma applySlippage_near:
  assumes "v = of_int U / 10 ^ 7" "1 \<le> U" "U \<le> 10 ^ 14" "parseFloat a = Some (round_double v)"
  obtains n where "applySlippage a 100 = fixed_digits 7 n" "1 \<le> n" "\<bar>100 * int n - 99 * U\<bar> < 56"
proof -
  have U: "(1 :: rat) \<le> of_int U" "of_int U \<le> (10 :: rat) ^ 14"
    using assms(2,3) by (metis of_int_le_iff of_int_1, metis of_int_le_iff of_int_numeral of_int_power)
  have tiny: "power_int 2 (- 1000) \<le> (1 / 10 ^ 8 :: rat)" "(10 ^ 8 :: rat) \<le> 2 ^ 1000"
    by (simp_all add: power_int_minus field_simps)
  have near: "\<exists>r. round_double q = Fin r \<and> \<bar>r - q\<bar> \<le> q * (1 / 2 ^ 53)" if "1 / 10 ^ 8 \<le> q" "q \<le> 10 ^ 8" for q
    using round_double_near [of q] order_trans [OF tiny(1) that(1)] order_trans [OF that(2) tiny(2)] by auto
  have v: "1 / 10 ^ 7 \<le> v" "v \<le> 10 ^ 7" using U by (simp_all add: assms(1) divide_simps)
  obtain x where x: "round_double v = Fin x" "\<bar>x - v\<bar> \<le> v * (1 / 2 ^ 53)" using near [of v] v by force
  obtain c where c: "round_double (1 / 100) = Fin c" "\<bar>c - 1 / 100\<bar> \<le> 1 / 100 * (1 / 2 ^ 53)"
    using near [of "1 / 100"] by force
  obtain g where g: "round_double (1 - c) = Fin g" "\<bar>g - (1 - c)\<bar> \<le> (1 - c) * (1 / 2 ^ 53)"
    using near [of "1 - c"] c(2) by (force simp: abs_le_iff)
  have "\<bar>c - 1 / 100\<bar> \<le> 1 / 100" using order_trans [OF c(2), of "1 / 100"] by simp
  then have cb: "0 \<le> c" "c \<le> 1 / 50" by linarith+
  have "(1 - c) * (1 / 2 ^ 53) \<le> 1 * (1 / 100)" using cb by (intro mult_mono) simp_all
  then have "\<bar>g - (1 - c)\<bar> \<le> 1 / 100" using order_trans [OF g(2), of "1 / 100"] by simp
  then have gb: "9 / 10 \<le> g" "g \<le> 11 / 10" using cb by linarith+
  have "0 < v" using v(1) by (rule less_le_trans [rotated]) simp
  then have "\<bar>x - v\<bar> \<le> v / 100" using order_trans [OF x(2), of "v / 100"] by simp
  then have xb: "9 / 10 * v \<le> x" "x \<le> 11 / 10 * v" using \<open>0 < v\<close> by linarith+
  have "9 / 10 * v * (9 / 10) \<le> x * g" using xb gb v by (intro mult_mono) simp_all
  moreover have "x * g \<le> 11 / 10 * v * (11 / 10)" using xb gb v by (intro mult_mono) simp_all
  ultimately have "1 / 10 ^ 8 \<le> x * g" "x * g \<le> 10 ^ 8" using v by simp_all
  then obtain y where y: "round_double (x * g) = Fin y" "\<bar>y - x * g\<bar> \<le> x * g * (1 / 2 ^ 53)" using near [of "x * g"] by blast
  have "\<bar>y - 99 / 100 * v\<bar> \<le> 5 * (v * (1 / 2 ^ 53))"
    by (rule slippage_error [OF _ _ _ x(2) c(2) g(2) y(2)]) (use v in simp_all)
  also have "\<dots> \<le> 5 * (10 ^ 7 * (1 / 2 ^ 53))" using v(2) by simp
  also have "\<dots> < 56 / 10 ^ 10" by simp
  finally have "\<bar>y - 99 / 100 * (of_int U / 10 ^ 7)\<bar> < 56 / 10 ^ 10" unfolding assms(1) .
  then have e: "\<bar>y * 10000000 - 99 / 100 * of_int U\<bar> < 56 / 1000"
    by (simp only: abs_less_iff power_numeral) (simp add: field_simps)
  define k where "k = \<lfloor>y * 10 ^ 7 + 1 / 2\<rfloor>"
  have k: "of_int k \<le> y * 10000000 + 1 / 2" "y * 10000000 + 1 / 2 < of_int k + 1"
    using of_int_floor_le [of "y * 10000000 + 1 / 2"] floor_correct [of "y * 10000000 + 1 / 2"] by (simp_all add: k_def)
  have "(0 :: rat) < of_int k" using k(2) e U(1) by linarith
  then have k0: "1 \<le> k" by simp
  have "\<bar>100 * of_int k - 99 * of_int U\<bar> < (56 :: rat)" using k e by linarith
  then have "of_int (\<bar>100 * k - 99 * U\<bar>) < (of_int 56 :: rat)" by simp
  then have d: "\<bar>100 * k - 99 * U\<bar> < 56" unfolding of_int_less_iff .
  have "0 \<le> y" "y \<le> 10 ^ 14" using e U by linarith+
  then have y0: "0 \<le> y" "\<bar>y\<bar> < 10 ^ 21" by simp_all
  have "applySlippage a 100 = fixed_digits 7 (nat k)"
    using y0 by (simp add: applySlippage_def assms(4) x(1) c(1) g(1) y(1) double_times_def double_minus_def toFixed_def k_def)
  then show ?thesis using that [of "nat k"] k0 d by simp
qed

lemma minimum_output:
  assumes "amount_parts w f" "toBaseUnits (decimal w f) 7 = Inr u" "1 \<le> dec_value u" "dec_value u \<le> 10 ^ 14"
  obtains w' f' n where "applySlippage (decimal w f) 100 = decimal w' f'" "amount_parts w' f'"
    "toBaseUnits (decimal w' f') 7 = Inr (nat_to_string 10 n)" "1 \<le> n" "\<bar>100 * int n - 99 * dec_value u\<bar> < 56"
proof -
  obtain n where n: "applySlippage (decimal w f) 100 = fixed_digits 7 n" "1 \<le> n" "\<bar>100 * int n - 99 * dec_value u\<bar> < 56"
    by (rule applySlippage_near [OF amount_value_units [OF assms(1,2)] assms(3,4) parseFloat_decimal [OF assms(1)]])
  obtain w' f' where d: "amount_parts w' f'" "fixed_digits 7 n = decimal w' f'"
    "toBaseUnits (decimal w' f') 7 = Inr (nat_to_string 10 n)" by (rule fixed_digits_units)
  show ?thesis by (rule that [of w' f' n]) (use n d in simp_all)
qed

text \<open>Without a fraction the zeros that \<open>toDisplayAmount\<close> strips belong to the whole number.\<close>

lemma to_display_whole: "toDisplayAmount (js ''100'') 0 = js ''1''"
proof -
  have a: "amount_parts (js ''100'') []" "decimal (js ''100'') [] = js ''100''"
    by (simp_all add: amount_parts_def js_def is_digit_def decimal_def)
  have "amount_value (js ''100'') [] = of_int 100" by (simp add: amount_value_def dec_value_def js_def)
  then have "parseFloat (js ''100'') = Some (Fin 100)"
    using parseFloat_decimal [OF a(1)] round_double_int [of 100] a(2) by simp
  moreover have "toFixed 0 (Some (Fin 100)) = js ''100''"
  proof -
    have f: "\<lfloor>\<bar>100\<bar> * 10 ^ 0 + 1 / 2 :: rat\<rfloor> = 100" by (simp add: floor_unique)
    have "nat_to_string 10 100 = js ''100''"
      by (simp add: nat_to_string_def radix_digits.simps digit_unit_def js_def)
    then show ?thesis by (simp only: toFixed_def option.case js_number.case f fixed_digits_def) simp
  qed
  ultimately show ?thesis
    by (simp add: toDisplayAmount_def drop_zero_fraction_def drop_trailing_zeros_def js_def)
qed

text \<open>A sample amount.\<close>

lemma sample_amount:
  "is_amount (js ''1.5'')" "toBaseUnits (js ''1.5'') 7 = Inr (js ''15000000'')" "dec_value (js ''15000000'') = 15000000"
proof -
  have a: "js ''1.5'' = decimal [49] [53]" "amount_parts [49] [53]"
    by (simp_all add: js_def decimal_def amount_parts_def is_digit_def)
  then show "is_amount (js ''1.5'')" using is_amount_iff by blast
  show "toBaseUnits (js ''1.5'') 7 = Inr (js ''15000000'')"
    unfolding a(1) toBaseUnits_decimal [OF a(2)] by (simp add: padEnd_def js_def is_digit_def numeral_eq_Suc)
  show "dec_value (js ''15000000'') = 15000000" by (simp add: dec_value_def js_def)
qed

section \<open>Properties\<close>

text \<open>C25: Amounts in base units are exact.  \<open>toBaseUnits\<close> accepts exactly the plain decimals with no more fraction
  digits than the token has, returns the amount times \<open>10\<^sup>d\<close> without leading zeros, and
  \<open>fromBaseUnits\<close> undoes it: converting what it shows gives the same units again.\<close>

theorem base_units_exact:
  "case toBaseUnits a d of
     Inl e \<Rightarrow> (e = InvalidAmount \<and> \<not> is_amount (js_trim a)) \<or>
       (e = TooManyDecimals d \<and> (\<exists>w f. js_trim a = decimal w f \<and> amount_parts w f \<and> d < length f))
   | Inr u \<Rightarrow> is_units u \<and> toBaseUnits (fromBaseUnits u d) d = Inr u \<and>
       (\<exists>w f. js_trim a = decimal w f \<and> amount_parts w f \<and> length f \<le> d \<and>
          of_int (dec_value u) = amount_value w f * 10 ^ d)"
proof (cases "is_amount (js_trim a)")
  case False
  then show ?thesis by (simp add: toBaseUnits_def Let_def)
next
  case True
  then obtain w f where wf: "amount_parts w f" "js_trim a = decimal w f" using is_amount_iff by blast
  have a: "toBaseUnits a d = toBaseUnits (decimal w f) d"
    by (simp add: toBaseUnits_def wf(2) js_trim_decimal [OF wf(1)])
  show ?thesis
  proof (cases "toBaseUnits (decimal w f) d")
    case (Inl e)
    then show ?thesis using a wf toBaseUnits_decimal [OF wf(1), of d] by (auto split: if_splits)
  next
    case (Inr u)
    then have "length f \<le> d" using toBaseUnits_decimal [OF wf(1), of d] by (simp split: if_splits)
    then show ?thesis using a Inr wf toBaseUnits_value [OF wf(1) Inr] toBaseUnits_round_trip by auto
  qed
qed

text \<open>C24: The minimum output of the form is right to within one unit.  For an amount of up to ten million tokens with
  seven decimals, \<open>applySlippage\<close> with one percent gives, in spite of four roundings to doubles
  and one to seven digits, a decimal text whose base units differ from 99 percent of the amount's
  by less than 0.56, and that is not zero.\<close>

theorem slippage_within_one_unit:
  assumes "is_amount a" "toBaseUnits a 7 = Inr u" "1 \<le> dec_value u" "dec_value u \<le> 10 ^ 14"
  shows "\<exists>m. toBaseUnits (applySlippage a 100) 7 = Inr m \<and> 1 \<le> dec_value m \<and> \<bar>100 * dec_value m - 99 * dec_value u\<bar> < 56"
proof -
  obtain w f where wf: "amount_parts w f" "a = decimal w f" using assms(1) is_amount_iff by blast
  obtain w' f' n where "applySlippage a 100 = decimal w' f'" "toBaseUnits (decimal w' f') 7 = Inr (nat_to_string 10 n)"
    "1 \<le> n" "\<bar>100 * int n - 99 * dec_value u\<bar> < 56"
    by (rule minimum_output [OF wf(1) assms(2) [unfolded wf(2)] assms(3,4), folded wf(2)])
  then show ?thesis by (auto simp: dec_value_nat_to_string)
qed

theorem slippage_within_one_unit_witness:
  "\<exists>m. toBaseUnits (applySlippage (js ''1.5'') 100) 7 = Inr m \<and> 1 \<le> dec_value m \<and> \<bar>100 * dec_value m - 99 * 15000000\<bar> < 56"
  using slippage_within_one_unit [OF sample_amount(1,2)] by (simp add: sample_amount(3))

end
