(* ===== verification/Frontend.thy ===== *)
theory Frontend
  imports Startup Numbers
begin

text \<open>
  The order form of the frontend, from the keys the user presses to the request the backend gets:
  \<open>constants/tokens.ts\<close>, \<open>utils/validation.ts\<close>, \<open>hooks/useEncryption.ts\<close>, \<open>hooks/useSwap.ts\<close> and
  \<open>components/swap\<close>.  \<open>crypto/orderCipher.ts\<close> of the frontend is the backend's file, so the cipher
  is the one of \<open>OrderCipher\<close>.  Rendering is left out; an effect of React runs with the change of
  state it depends on.
\<close>

section \<open>Tokens and validation\<close>

record token =
  tk_symbol :: jsstring
  tk_name :: jsstring
  tk_contractAddress :: jsstring
  tk_decimals :: nat

definition SUPPORTED_TOKENS :: "token list" where
  "SUPPORTED_TOKENS =
     [\<lparr>tk_symbol = js ''USDC'', tk_name = js ''USD Coin'',
       tk_contractAddress = js ''CBIELTK6YBZJU5UP2WWQEUCYKLPU6AUNZ2BQ4WWFEIE3USCIHMXQDAMA'', tk_decimals = 7\<rparr>,
      \<lparr>tk_symbol = js ''USDT'', tk_name = js ''Tether USD'',
       tk_contractAddress = js ''CAP5AMC2OTY7YSNUCG4EY7EXPCXFQMK2WGOOFOMVNC5OBK3F4SOOFEQ2'', tk_decimals = 7\<rparr>,
      \<lparr>tk_symbol = js ''XLM'', tk_name = js ''Stellar Lumens'',
       tk_contractAddress = js ''CAS3J7GYLGXMF6TDJBWV2X7SEMFKQGZLW2IFYZKV2BJMSIVKKOLWJDGL'', tk_decimals = 7\<rparr>]"

definition getTokenBySymbol :: "jsstring \<Rightarrow> token option" where
  "getTokenBySymbol symbol = List.find (\<lambda>t. tk_symbol t = symbol) SUPPORTED_TOKENS"

text \<open>What the form shows as an error: its own messages, or that of an exception.\<close>

datatype form_error = ConnectWallet | SelectDifferentTokens | EnterAmount | EnterMinimum | Thrown error

definition validateSwap :: "jsstring \<Rightarrow> jsstring \<Rightarrow> jsstring \<Rightarrow> jsstring \<Rightarrow> form_error option" where
  "validateSwap tokenIn tokenOut amountIn minAmountOut =
     (if tokenIn = tokenOut then Some SelectDifferentTokens
      else if \<not> isPositiveNumeric amountIn then Some EnterAmount
      else if \<not> isPositiveNumeric minAmountOut then Some EnterMinimum
      else None)"

section \<open>The form\<close>

record swap_form =
  sf_tokenIn :: jsstring
  sf_tokenOut :: jsstring
  sf_amountIn :: jsstring
  sf_minAmountOut :: jsstring
  sf_priceImpact :: int
  sf_error :: "form_error option"
  sf_success :: bool
  sf_sealedBy :: jsstring

definition initial_form :: swap_form where
  "initial_form = \<lparr>sf_tokenIn = js ''USDC'', sf_tokenOut = js ''USDT'', sf_amountIn = [], sf_minAmountOut = [],
     sf_priceImpact = 0, sf_error = None, sf_success = False, sf_sealedBy = []\<rparr>"

definition DEFAULT_SLIPPAGE_BPS :: int where
  "DEFAULT_SLIPPAGE_BPS = 100"

text \<open>\<open>setAmountIn\<close> and the effect that follows a change of the amount.\<close>

definition setAmountIn :: "jsstring \<Rightarrow> swap_form \<Rightarrow> swap_form" where
  "setAmountIn a f =
     (if a = sf_amountIn f then f
      else if a \<noteq> [] then f\<lparr>sf_amountIn := a, sf_minAmountOut := applySlippage a DEFAULT_SLIPPAGE_BPS,
        sf_priceImpact := DEFAULT_SLIPPAGE_BPS div 100\<rparr>
      else f\<lparr>sf_amountIn := a, sf_minAmountOut := [], sf_priceImpact := 0\<rparr>)"

definition flipTokens :: "swap_form \<Rightarrow> swap_form" where
  "flipTokens f = setAmountIn [] (f\<lparr>sf_tokenIn := sf_tokenOut f, sf_tokenOut := sf_tokenIn f\<rparr>)"

text \<open>\<open>AmountInput\<close> lets \<open>^\d*\.?\d*$\<close> through; \<open>TokenSelector\<close> offers the tokens but the other one.\<close>

definition is_typed :: "jsstring \<Rightarrow> bool" where
  "is_typed s \<longleftrightarrow> (case dropWhile is_digit s of [] \<Rightarrow> True | u # r \<Rightarrow> u = 46 \<and> list_all is_digit r)"

definition token_options :: "jsstring \<Rightarrow> jsstring list" where
  "token_options exclude = map tk_symbol (filter (\<lambda>t. tk_symbol t \<noteq> exclude) SUPPORTED_TOKENS)"

definition randomNonce :: "32 word \<Rightarrow> 32 word \<Rightarrow> int" where
  "randomNonce hi lo = uint (and hi 0xFFFF) * 2 ^ 32 + uint lo"

record order_input =
  oi_user :: jsstring
  oi_token_in :: jsstring
  oi_token_out :: jsstring
  oi_amount_in :: jsstring
  oi_min_amount_out :: jsstring
  oi_nonce :: int

text \<open>The order that \<open>handleSubmit\<close> builds from the form.\<close>

definition decimals_of :: "jsstring \<Rightarrow> nat" where
  "decimals_of symbol = (case getTokenBySymbol symbol of None \<Rightarrow> 7 | Some t \<Rightarrow> tk_decimals t)"

definition swap_order :: "jsstring \<Rightarrow> 32 word \<Rightarrow> 32 word \<Rightarrow> swap_form \<Rightarrow> error + order_input" where
  "swap_order address hi lo f =
     ebind (toBaseUnits (sf_amountIn f) (decimals_of (sf_tokenIn f))) (\<lambda>amount_in.
     ebind (toBaseUnits (sf_minAmountOut f) (decimals_of (sf_tokenOut f))) (\<lambda>min_amount_out.
     Inr \<lparr>oi_user = address, oi_token_in = sf_tokenIn f, oi_token_out = sf_tokenOut f, oi_amount_in = amount_in,
       oi_min_amount_out = min_amount_out, oi_nonce = randomNonce hi lo\<rparr>))"

section \<open>Encryption and submission\<close>

text \<open>\<open>JSON.stringify(order)\<close>.\<close>

definition order_plaintext :: "order_input \<Rightarrow> jsstring" where
  "order_plaintext ord = JSON_stringify
     [(js ''user'', JStr (oi_user ord)), (js ''token_in'', JStr (oi_token_in ord)), (js ''token_out'', JStr (oi_token_out ord)),
      (js ''amount_in'', JStr (oi_amount_in ord)), (js ''min_amount_out'', JStr (oi_min_amount_out ord)),
      (js ''nonce'', JInt (oi_nonce ord))]"

record sealed_order =
  eo_data :: jsstring
  eo_pubkey :: jsstring
  eo_threshold :: nat
  eo_validatorCount :: nat

text \<open>\<open>useEncryption().encryptOrder\<close>: \<open>cfg\<close> is the answer of \<open>GET /config\<close>.\<close>

definition useEncryption ::
  "'p curve \<Rightarrow> webcrypto \<Rightarrow> byte list list \<Rightarrow> byte list \<Rightarrow> error + public_key_info \<Rightarrow> order_input \<Rightarrow> error + sealed_order" where
  "useEncryption C W draws iv cfg ord =
     ebind cfg (\<lambda>c.
     ebind (encryptOrder C W draws iv (order_plaintext ord) (pi_threshold_pubkey c) (oi_user ord)) (\<lambda>encrypted.
     Inr \<lparr>eo_data = encrypted, eo_pubkey = pi_threshold_pubkey c, eo_threshold = pi_threshold c,
       eo_validatorCount = pi_validator_count c\<rparr>))"

text \<open>\<open>useSwap().submitOrder\<close>: the body without the user, which only chooses the session.  \<open>api\<close> is
  the request under a session of the user; the hook's error is the exception.\<close>

definition order_body :: "sealed_order \<Rightarrow> int \<Rightarrow> jsstring" where
  "order_body enc nonce = JSON_stringify
     [(js ''encrypted_data'', JStr (eo_data enc)), (js ''threshold_pubkey'', JStr (eo_pubkey enc)), (js ''nonce'', JInt nonce)]"

definition submit_request ::
  "('s \<Rightarrow> jsstring \<Rightarrow> jsstring \<Rightarrow> 's \<times> (error + 'r)) \<Rightarrow> 's \<Rightarrow> jsstring \<Rightarrow> sealed_order \<Rightarrow> int \<Rightarrow> 's \<times> error option \<times> (error + 'r)" where
  "submit_request api s user enc nonce =
     (case api s user (order_body enc nonce) of
        (s', Inl e) \<Rightarrow> (s', Some e, Inl e)
      | (s', Inr r) \<Rightarrow> (s', None, Inr r))"

definition sealed_by :: "sealed_order \<Rightarrow> jsstring" where
  "sealed_by enc = nat_to_string 10 (eo_threshold enc) @ js ''-of-'' @ nat_to_string 10 (eo_validatorCount enc)"

definition handleSubmit ::
  "'p curve \<Rightarrow> webcrypto \<Rightarrow> byte list list \<Rightarrow> byte list \<Rightarrow> error + public_key_info
     \<Rightarrow> ('s \<Rightarrow> jsstring \<Rightarrow> jsstring \<Rightarrow> 's \<times> (error + 'r)) \<Rightarrow> jsstring option \<Rightarrow> 32 word \<Rightarrow> 32 word \<Rightarrow> 's \<Rightarrow> swap_form \<Rightarrow> 's \<times> swap_form" where
  "handleSubmit C W draws iv cfg api address hi lo s f0 =
     (let f = f0\<lparr>sf_success := False\<rparr> in
      case (if address = Some [] then None else address) of None \<Rightarrow> (s, f\<lparr>sf_error := Some ConnectWallet\<rparr>)
      | Some user \<Rightarrow>
          (case validateSwap (sf_tokenIn f) (sf_tokenOut f) (sf_amountIn f) (sf_minAmountOut f) of
             Some e \<Rightarrow> (s, f\<lparr>sf_error := Some e\<rparr>)
           | None \<Rightarrow>
               (case swap_order user hi lo f of Inl e \<Rightarrow> (s, f\<lparr>sf_error := Some (Thrown e)\<rparr>)
                | Inr ord \<Rightarrow>
                    (case useEncryption C W draws iv cfg ord of Inl e \<Rightarrow> (s, f\<lparr>sf_error := Some (Thrown e)\<rparr>)
                     | Inr enc \<Rightarrow>
                         (case submit_request api s user enc (oi_nonce ord) of
                            (s', _, Inl e) \<Rightarrow> (s', f\<lparr>sf_error := Some (Thrown e)\<rparr>)
                          | (s', _, Inr _) \<Rightarrow>
                              (s', setAmountIn [] (f\<lparr>sf_error := None, sf_success := True, sf_sealedBy := sealed_by enc\<rparr>)))))))"

section \<open>What the user can do to the form\<close>

datatype form_event = SelectIn jsstring | SelectOut jsstring | TypeAmount jsstring | Flip

fun form_step :: "swap_form \<Rightarrow> form_event \<Rightarrow> swap_form" where
  "form_step f (SelectIn t) = (if t \<in> set (token_options (sf_tokenOut f)) then f\<lparr>sf_tokenIn := t\<rparr> else f)"
| "form_step f (SelectOut t) = (if t \<in> set (token_options (sf_tokenIn f)) then f\<lparr>sf_tokenOut := t\<rparr> else f)"
| "form_step f (TypeAmount a) = (if is_typed a then setAmountIn a f else f)"
| "form_step f Flip = flipTokens f"

definition edited_form :: "form_event list \<Rightarrow> swap_form" where
  "edited_form = foldl form_step initial_form"

section \<open>Batches on the monitor\<close>

record batch_stats =
  bs_total :: nat
  bs_pending :: nat
  bs_settled :: nat

text \<open>The state after \<open>fetchBatches\<close>: on an error the batches and counts stay.\<close>

definition fetchBatches ::
  "error + batch_row list \<Rightarrow> batch_row list \<times> batch_stats \<times> bool \<Rightarrow> batch_row list \<times> batch_stats \<times> bool" where
  "fetchBatches response st =
     (case response of
        Inl _ \<Rightarrow> (fst st, fst (snd st), False)
      | Inr rows \<Rightarrow>
          (rows,
           \<lparr>bs_total = length rows,
            bs_pending = length (filter (\<lambda>b. b_status b = Created \<or> b_status b = Submitted) rows),
            bs_settled = length (filter (\<lambda>b. b_status b = BatchSettled) rows)\<rparr>, False))"

section \<open>Texts\<close>

definition shortenAddress :: "jsstring \<Rightarrow> nat \<Rightarrow> jsstring" where
  "shortenAddress address chars =
     (if address = [] \<or> length address \<le> chars * 2 + 3 then address
      else take chars address @ js ''...'' @ (if chars = 0 then address else drop (length address - chars) address))"

text \<open>\<open>None\<close> stands for the marker of a sealed order.\<close>

definition formatOrderAmount :: "jsstring option \<Rightarrow> jsstring option \<Rightarrow> nat \<Rightarrow> jsstring option" where
  "formatOrderAmount units symbol decimals =
     (case (units, symbol) of
        (Some u, Some y) \<Rightarrow> Some (fromBaseUnits u decimals @ [32] @ y)
      | _ \<Rightarrow> None)"

section \<open>The request\<close>

text \<open>
  \<open>api.post('/orders', body, {headers})\<close> against the backend: the session's token, the body parsed
  by the server, the handler of \<open>POST /api/orders\<close>.
\<close>

definition api_post_order ::
  "(jsstring \<Rightarrow> error + jsstring) \<Rightarrow> node_env \<Rightarrow> 'p curve \<Rightarrow> 'n validator_network option \<Rightarrow> nat \<Rightarrow> nat \<Rightarrow> jsstring \<Rightarrow> jsstring
     \<Rightarrow> server \<Rightarrow> jsstring \<Rightarrow> jsstring \<Rightarrow> server \<times> (error + order_row)" where
  "api_post_order getToken N C network limit nowMs ip i s user body =
     (case getToken user of Inl e \<Rightarrow> (s, Inl e)
      | Inr token \<Rightarrow>
          (case JSON_parse body of Inl e \<Rightarrow> (s, Inl (HttpError 400))
           | Inr v \<Rightarrow> post_order N C network limit nowMs (Some (js ''Bearer '' @ token)) ip v i s))"

section \<open>The invariant of the form\<close>

definition form_ok :: "swap_form \<Rightarrow> bool" where
  "form_ok f \<longleftrightarrow> sf_tokenIn f \<in> set (map tk_symbol SUPPORTED_TOKENS) \<and> sf_tokenOut f \<in> set (map tk_symbol SUPPORTED_TOKENS) \<and>
     sf_tokenIn f \<noteq> sf_tokenOut f \<and> is_typed (sf_amountIn f) \<and>
     sf_minAmountOut f = (if sf_amountIn f = [] then [] else applySlippage (sf_amountIn f) DEFAULT_SLIPPAGE_BPS)"

lemma form_ok_setAmountIn: "form_ok f \<Longrightarrow> is_typed a \<Longrightarrow> form_ok (setAmountIn a f)"
  by (cases "a = []") (simp_all add: form_ok_def setAmountIn_def)

lemma form_ok_step: "form_ok f \<Longrightarrow> form_ok (form_step f e)"
proof (cases e)
  case Flip
  assume f: "form_ok f"
  have "is_typed []" by (simp add: is_typed_def)
  then have "form_ok (f\<lparr>sf_tokenIn := sf_tokenOut f, sf_tokenOut := sf_tokenIn f\<rparr>)" using f by (auto simp: form_ok_def)
  then show ?thesis using \<open>is_typed []\<close> by (simp add: Flip flipTokens_def form_ok_setAmountIn)
next
  case (TypeAmount a)
  assume "form_ok f"
  then show ?thesis by (simp add: TypeAmount form_ok_setAmountIn)
qed (auto simp: form_ok_def token_options_def)

lemma form_ok_edited: "form_ok (edited_form es)"
proof -
  have "form_ok initial_form" by (simp add: form_ok_def initial_form_def SUPPORTED_TOKENS_def is_typed_def js_def)
  moreover have "form_ok f \<Longrightarrow> form_ok (foldl form_step f es)" for f
    by (induction es arbitrary: f) (simp_all add: form_ok_step)
  ultimately show ?thesis by (simp add: edited_form_def)
qed

lemma supported_token:
  assumes "t \<in> set (map tk_symbol SUPPORTED_TOKENS)"
  shows "is_SYMBOL t" "decimals_of t = 7" "length t \<le> 12" "\<forall>u \<in> set t. unat u < 128"
proof -
  have "t = js ''USDC'' \<or> t = js ''USDT'' \<or> t = js ''XLM''" using assms by (simp add: SUPPORTED_TOKENS_def)
  then show "is_SYMBOL t" "decimals_of t = 7" "length t \<le> 12" "\<forall>u \<in> set t. unat u < 128"
    by (elim disjE; simp add: is_SYMBOL_def is_digit_def decimals_of_def getTokenBySymbol_def SUPPORTED_TOKENS_def js_def)+
qed

lemma typed_no_space: "is_typed s \<Longrightarrow> js_trim s = s"
proof -
  assume t: "is_typed s"
  have "c = 46 \<or> is_digit c" if "c \<in> set s" for c
  proof -
    have "c \<in> set (takeWhile is_digit s) \<or> c \<in> set (dropWhile is_digit s)"
      using that by (metis UnE set_append takeWhile_dropWhile_id)
    then show ?thesis
      using t by (auto simp: is_typed_def list_all_iff dest: set_takeWhileD split: list.splits)
  qed
  then show ?thesis by (intro js_trim_id) (metis digit_not_space hd_in_set last_in_set)
qed

section \<open>Amounts the backend accepts\<close>

lemma is_INTEGER_units:
  assumes "is_units u" "1 \<le> dec_value u" "dec_value u < 10 ^ 38"
  shows "is_INTEGER u" "length u \<le> 38"
proof -
  obtain c s where u: "u = c # s" using assms(1) by (cases u) (simp_all add: is_units_def)
  have c: "is_digit c" "list_all is_digit s" using assms(1) by (simp_all add: u is_units_def)
  have "c \<noteq> 48"
  proof
    assume "c = 48"
    then have "s = []" using assms(1) by (simp add: u is_units_def)
    then show False using assms(2) \<open>c = 48\<close> by (simp add: u dec_value_def)
  qed
  moreover have "48 \<le> c" using c(1) by (simp add: is_digit_def)
  ultimately have "48 < c" by simp
  then have n: "49 \<le> unat c" by (simp add: word_less_nat_alt)
  then have "10 ^ length s \<le> dec_value u"
  proof -
    have "(1 :: int) \<le> int (unat c - 48)" using n by linarith
    then have "1 * 10 ^ length s \<le> int (unat c - 48) * 10 ^ length s" by (rule mult_right_mono) simp
    then show ?thesis unfolding u dec_value_Cons using dec_value_nonneg [of s] by linarith
  qed
  then have "(10 :: int) ^ length s < 10 ^ 38" using assms(3) by (rule le_less_trans)
  then have l: "length s < 38" by (rule power_less_imp_less_exp [rotated]) simp
  then show "length u \<le> 38" by (simp add: u)
  show "is_INTEGER u" using c l n by (simp add: u is_INTEGER_def is_digit_def word_le_nat_alt)
qed

lemma randomNonce_range: "0 \<le> randomNonce hi lo" "randomNonce hi lo < 2 ^ 48"
proof -
  have "and hi 0xFFFF \<le> (0xFFFF :: 32 word)" by (rule word_and_le1)
  then have "uint (and hi 0xFFFF) \<le> 2 ^ 16 - 1" by (simp add: word_le_def)
  moreover have "0 \<le> uint lo" "uint lo < 2 ^ 32" "0 \<le> uint (and hi 0xFFFF)" using uint_bounded [of lo] by simp_all
  ultimately show "0 \<le> randomNonce hi lo" "randomNonce hi lo < 2 ^ 48" unfolding randomNonce_def by auto
qed

section \<open>The plaintext\<close>

definition good_order :: "order_input \<Rightarrow> bool" where
  "good_order ord \<longleftrightarrow> is_SYMBOL (oi_token_in ord) \<and> is_SYMBOL (oi_token_out ord) \<and> oi_token_in ord \<noteq> oi_token_out ord \<and>
     is_INTEGER (oi_amount_in ord) \<and> is_INTEGER (oi_min_amount_out ord) \<and> 0 \<le> oi_nonce ord \<and> oi_nonce ord < 2 ^ 48"

lemma order_plaintext_parse:
  assumes "good_order ord"
  shows "parseDecryptedOrder (order_plaintext ord) (oi_user ord) (round_double (of_int (oi_nonce ord)))
    = Inr \<lparr>do_user = oi_user ord, do_token_in = oi_token_in ord, do_token_out = oi_token_out ord,
        do_amount_in = oi_amount_in ord, do_min_amount_out = oi_min_amount_out ord\<rparr>"
proof -
  let ?v = "VObj [(js ''user'', VStr (oi_user ord)), (js ''token_in'', VStr (oi_token_in ord)),
     (js ''token_out'', VStr (oi_token_out ord)), (js ''amount_in'', VStr (oi_amount_in ord)),
     (js ''min_amount_out'', VStr (oi_min_amount_out ord)), (js ''nonce'', VNum (Fin (of_int (oi_nonce ord))))]"
  have n: "\<bar>oi_nonce ord\<bar> < 2 ^ 53" using assms by (simp add: good_order_def)
  have p: "JSON_parse (order_plaintext ord) = Inr ?v"
    unfolding order_plaintext_def by (rule parses_object) (use parses_int [OF n] in \<open>simp_all add: parses_string\<close>)
  have g: "str_prop ?v ''user'' = Inr (oi_user ord)" "str_prop ?v ''token_in'' = Inr (oi_token_in ord)"
    "str_prop ?v ''token_out'' = Inr (oi_token_out ord)" "str_prop ?v ''amount_in'' = Inr (oi_amount_in ord)"
    "str_prop ?v ''min_amount_out'' = Inr (oi_min_amount_out ord)"
    "get_prop ?v (js ''nonce'') = Inr (Some (VNum (Fin (of_int (oi_nonce ord)))))"
    by (simp_all add: str_prop_def get_prop_def js_def)
  show ?thesis
    using assms round_double_int [OF n] unfolding good_order_def
    by (simp only: parseDecryptedOrder_def p ebind_simps g simp_thms if_False if_True)
qed

lemma order_plaintext_short:
  assumes "good_order ord" "\<forall>u \<in> set (oi_user ord). unat u < 128" "length (oi_user ord) \<le> 100"
  shows "length (utf8_encode (order_plaintext ord)) \<le> 1900"
proof -
  have d: "is_digit u \<Longrightarrow> unat u < 128" for u by (simp add: is_digit_def word_le_nat_alt)
  have a: "is_SYMBOL t \<Longrightarrow> \<forall>u \<in> set t. unat u < 128" for t using d by (auto simp: is_SYMBOL_def list_all_iff word_le_nat_alt)
  have b: "is_INTEGER t \<Longrightarrow> \<forall>u \<in> set t. unat u < 128" for t
    using d by (cases t) (auto simp: is_INTEGER_def list_all_iff word_le_nat_alt)
  have "ascii (order_plaintext ord)"
    unfolding order_plaintext_def using assms(1,2) a b unfolding good_order_def by (intro ascii_object) (auto simp: js_def)
  moreover have "length (order_plaintext ord) \<le> 1900"
    unfolding order_plaintext_def
    using assms(1,3) by (intro order_trans [OF length_stringify]) (simp_all add: good_order_def is_SYMBOL_def is_INTEGER_def js_def)
  ultimately show ?thesis by (simp add: length_utf8_ascii)
qed

text \<open>Whether encryption succeeds does not depend on the text.\<close>

lemma encryptOrder_any_text: "is_ok (encryptOrder C W draws iv m Y u) \<Longrightarrow> is_ok (encryptOrder C W draws iv m' Y u)"
  by (auto simp: encryptOrder_def Let_def)

section \<open>From the form to the order table\<close>

lemma swap_order_ok:
  assumes "form_ok f" "toBaseUnits (sf_amountIn f) 7 = Inr u" "1 \<le> dec_value u" "dec_value u \<le> 10 ^ 14"
  obtains m where "swap_order user hi lo f = Inr \<lparr>oi_user = user, oi_token_in = sf_tokenIn f, oi_token_out = sf_tokenOut f,
       oi_amount_in = u, oi_min_amount_out = m, oi_nonce = randomNonce hi lo\<rparr>"
    "validateSwap (sf_tokenIn f) (sf_tokenOut f) (sf_amountIn f) (sf_minAmountOut f) = None"
    "good_order \<lparr>oi_user = user, oi_token_in = sf_tokenIn f, oi_token_out = sf_tokenOut f,
       oi_amount_in = u, oi_min_amount_out = m, oi_nonce = randomNonce hi lo\<rparr>"
    "\<bar>100 * dec_value m - 99 * dec_value u\<bar> < 56"
proof -
  note f = assms(1) [unfolded form_ok_def]
  have "is_amount (js_trim (sf_amountIn f))" using assms(2) by (auto simp: toBaseUnits_def Let_def split: if_splits)
  then obtain w r where wr: "amount_parts w r" "sf_amountIn f = decimal w r"
    using typed_no_space is_amount_iff f by auto
  then have "sf_amountIn f \<noteq> []" by (auto simp: decimal_def amount_parts_def)
  then have min: "sf_minAmountOut f = applySlippage (decimal w r) 100" using f wr(2) by (simp add: DEFAULT_SLIPPAGE_BPS_def)
  have t: "sf_tokenIn f \<in> set (map tk_symbol SUPPORTED_TOKENS)" "sf_tokenOut f \<in> set (map tk_symbol SUPPORTED_TOKENS)"
    "sf_tokenIn f \<noteq> sf_tokenOut f" using f by blast+
  note u = assms(2) [unfolded wr(2)]
  obtain w' f' n where n: "applySlippage (decimal w r) 100 = decimal w' f'" "amount_parts w' f'"
    "toBaseUnits (decimal w' f') 7 = Inr (nat_to_string 10 n)" "1 \<le> n" "\<bar>100 * int n - 99 * dec_value u\<bar> < 56"
    by (rule minimum_output [OF wr(1) u assms(3,4)])
  have big: "(10 :: int) ^ 14 < 10 ^ 38" by simp
  have m: "dec_value (nat_to_string 10 n) = int n" by (rule dec_value_nat_to_string)
  have n14: "int n \<le> 10 ^ 14" using n(5) assms(3,4) by linarith
  have iu: "is_units u" by (rule toBaseUnits_value(1) [OF wr(1) u])
  have i: "is_INTEGER u" "is_INTEGER (nat_to_string 10 n)"
    using is_INTEGER_units(1) [OF iu assms(3)] is_INTEGER_units(1) [OF units_nat_to_string [of n]] assms(4) n14 n(4) big m by simp_all
  have p: "isPositiveNumeric (decimal w r)" "isPositiveNumeric (decimal w' f')"
    using isPositiveNumeric_decimal [OF wr(1) u assms(3)] isPositiveNumeric_decimal [OF n(2,3)] assms(4) n14 n(4) m by simp_all
  show ?thesis
  proof (rule that [of "nat_to_string 10 n"])
    show "swap_order user hi lo f = Inr \<lparr>oi_user = user, oi_token_in = sf_tokenIn f, oi_token_out = sf_tokenOut f,
       oi_amount_in = u, oi_min_amount_out = nat_to_string 10 n, oi_nonce = randomNonce hi lo\<rparr>"
      by (simp add: swap_order_def min n(1,3) wr(2) u supported_token(2) [OF t(1)] supported_token(2) [OF t(2)])
    show "validateSwap (sf_tokenIn f) (sf_tokenOut f) (sf_amountIn f) (sf_minAmountOut f) = None"
      using t(3) p by (simp add: validateSwap_def min n(1) wr(2))
    show "good_order \<lparr>oi_user = user, oi_token_in = sf_tokenIn f, oi_token_out = sf_tokenOut f,
       oi_amount_in = u, oi_min_amount_out = nat_to_string 10 n, oi_nonce = randomNonce hi lo\<rparr>"
      using t(3) i supported_token(1) [OF t(1)] supported_token(1) [OF t(2)] randomNonce_range [of hi lo] by (simp add: good_order_def)
    show "\<bar>100 * dec_value (nat_to_string 10 n) - 99 * dec_value u\<bar> < 56" using n(5) m by simp
  qed
qed

text \<open>The backend reads the body the frontend wrote.\<close>

lemma order_body_accepted:
  assumes "length (eo_data enc) \<le> 4096" "parseCiphertext C (eo_data enc) = Inr pc" "eo_pubkey enc = vn_groupPublicKey net"
    "0 \<le> nonce" "nonce < 2 ^ 48"
  obtains v where "JSON_parse (order_body enc nonce) = Inr v"
    "validateOrderInput C (Some net) v = Inr \<lparr>so_encrypted_data = eo_data enc, so_threshold_pubkey = vn_groupPublicKey net, so_nonce = nonce\<rparr>"
proof -
  let ?v = "VObj [(js ''encrypted_data'', VStr (eo_data enc)), (js ''threshold_pubkey'', VStr (eo_pubkey enc)),
     (js ''nonce'', VNum (Fin (of_int nonce)))]"
  have n: "\<bar>nonce\<bar> < 2 ^ 53" "nonce < 2 ^ 53" using assms(4,5) by simp_all
  have p: "JSON_parse (order_body enc nonce) = Inr ?v"
    unfolding order_body_def by (rule parses_object) (use parses_int [OF n(1)] in \<open>simp_all add: parses_string\<close>)
  have "get_prop ?v (js ''encrypted_data'') = Inr (Some (VStr (eo_data enc)))"
    "get_prop ?v (js ''threshold_pubkey'') = Inr (Some (VStr (vn_groupPublicKey net)))"
    "get_prop ?v (js ''nonce'') = Inr (Some (VNum (Fin (of_int nonce))))"
    by (simp_all add: get_prop_def js_def assms(3))
  from validateOrderInput_accepts [OF this assms(1,2,4) n(2)] show ?thesis using that p by blast
qed

lemma handleSubmit_success:
  assumes "user \<noteq> []" "validateSwap (sf_tokenIn f) (sf_tokenOut f) (sf_amountIn f) (sf_minAmountOut f) = None"
    "swap_order user hi lo f = Inr ord" "useEncryption C W draws iv cfg ord = Inr enc" "api s user (order_body enc (oi_nonce ord)) = (s', Inr r)"
  shows "\<exists>f'. handleSubmit C W draws iv cfg api (Some user) hi lo s f = (s', f') \<and> sf_success f' \<and> sf_error f' = None \<and> sf_amountIn f' = []"
proof -
  have "swap_order user hi lo (f\<lparr>sf_success := False\<rparr>) = swap_order user hi lo f" by (simp add: swap_order_def)
  then show ?thesis using assms by (simp add: handleSubmit_def Let_def submit_request_def setAmountIn_def)
qed

section \<open>Properties\<close>

text \<open>C5: From the form to the order table.  However the user edited the form, an amount of up to ten million tokens
  that is not zero is submitted: the form reports success, the backend stores one new pending row
  for the user, and the plaintext sealed in it under the validators' key passes every check the
  backend makes once the order is opened, with exactly the tokens and base units of the form and a
  minimum output within 0.56 units of 99 percent.  Assumed are a valid session, room in the rate
  limit, a nonce not used before and encryption that succeeds for this key.\<close>

theorem frontend_order_accepted:
  assumes "curve_laws C" "webcrypto_laws W" "length iv = 12"
    and amount: "toBaseUnits (sf_amountIn (edited_form es)) 7 = Inr u" "1 \<le> dec_value u" "dec_value u \<le> 10 ^ 14"
    and user: "user \<noteq> []" "\<forall>c \<in> set user. unat c < 128" "length user \<le> 100"
    and key: "is_ok (encryptOrder C W draws iv [] (vn_groupPublicKey net) user)"
    and session: "getToken user = Inr token" "bearer_token (js ''Bearer '' @ token) = Some token"
      "verifySession N (nowMs div 1000) token = Some ses" "se_address ses = user"
    and room: "la_next (snd (rate_limit 60000 limit nowMs (ip @ js ''|'' @ user) (sv_order_hits s)))"
    and fresh: "\<forall>x \<in> set (db_orders (sv_db s)). o_user_address x = user \<longrightarrow> o_nonce x \<noteq> randomNonce hi lo"
  shows "\<exists>s' f' row m pt.
    handleSubmit C W draws iv (getPublicKeyInfo (Some net)) (api_post_order getToken N C (Some net) limit nowMs ip i)
      (Some user) hi lo s (edited_form es) = (s', f') \<and> sf_success f' \<and>
    sv_db s' = (sv_db s)\<lparr>db_orders := db_orders (sv_db s) @ [row]\<rparr> \<and> o_user_address row = user \<and> o_status row = Pending \<and>
    encryptOrder C W draws iv pt (vn_groupPublicKey net) user = Inr (o_encrypted_data row) \<and>
    parseDecryptedOrder pt (o_user_address row) (round_double (of_int (o_nonce row)))
      = Inr \<lparr>do_user = user, do_token_in = sf_tokenIn (edited_form es), do_token_out = sf_tokenOut (edited_form es),
          do_amount_in = u, do_min_amount_out = m\<rparr> \<and>
    \<bar>100 * dec_value m - 99 * dec_value u\<bar> < 56"
proof -
  let ?f = "edited_form es" and ?n = "randomNonce hi lo"
  obtain ord m where m: "swap_order user hi lo ?f = Inr ord"
    "validateSwap (sf_tokenIn ?f) (sf_tokenOut ?f) (sf_amountIn ?f) (sf_minAmountOut ?f) = None"
    "good_order ord" "\<bar>100 * dec_value m - 99 * dec_value u\<bar> < 56"
    and ord: "ord = \<lparr>oi_user = user, oi_token_in = sf_tokenIn ?f, oi_token_out = sf_tokenOut ?f,
       oi_amount_in = u, oi_min_amount_out = m, oi_nonce = ?n\<rparr>"
    by (rule swap_order_ok [where user = user and hi = hi and lo = lo, OF form_ok_edited amount]) blast
  obtain ct where ct: "encryptOrder C W draws iv (order_plaintext ord) (vn_groupPublicKey net) user = Inr ct"
    using encryptOrder_any_text [OF key] by (auto elim!: is_okE)
  define enc where "enc = \<lparr>eo_data = ct, eo_pubkey = vn_groupPublicKey net, eo_threshold = vn_threshold net,
     eo_validatorCount = length (vn_validators net)\<rparr>"
  have enc: "useEncryption C W draws iv (getPublicKeyInfo (Some net)) ord = Inr enc"
    using ct by (simp add: useEncryption_def getPublicKeyInfo_def getValidatorNetwork_def enc_def ord)
  have "length (utf8_encode (order_plaintext ord)) \<le> 1900" by (rule order_plaintext_short [OF m(3)]) (use user in \<open>simp_all add: ord\<close>)
  then have short: "length ct \<le> 4096" using ciphertext_length [OF assms(1-3) ct] by simp
  obtain pc where pc: "parseCiphertext C ct = Inr pc" using order_parses [OF assms(1-3) ct] by blast
  obtain v where v: "JSON_parse (order_body enc ?n) = Inr v"
    "validateOrderInput C (Some net) v = Inr \<lparr>so_encrypted_data = ct, so_threshold_pubkey = vn_groupPublicKey net, so_nonce = ?n\<rparr>"
    by (rule order_body_accepted [of enc C pc net ?n]) (use short pc randomNonce_range [of hi lo] in \<open>simp_all add: enc_def\<close>)
  have "submit_check user \<lparr>so_encrypted_data = ct, so_threshold_pubkey = vn_groupPublicKey net, so_nonce = ?n\<rparr> (sv_db s) = Inr ()"
    using fresh by (auto simp: submit_check_def list_ex_iff)
  then obtain s' where s': "post_order N C (Some net) limit nowMs (Some (js ''Bearer '' @ token)) ip v i s
      = (s', Inr (new_order i (int nowMs) user \<lparr>so_encrypted_data = ct, so_threshold_pubkey = vn_groupPublicKey net, so_nonce = ?n\<rparr>))"
    "sv_db s' = submit_insert i (int nowMs) user \<lparr>so_encrypted_data = ct, so_threshold_pubkey = vn_groupPublicKey net, so_nonce = ?n\<rparr> (sv_db s)"
    by (rule post_order_stores [OF session(2,3) _ v(2), unfolded session(4), OF room])
  have api: "api_post_order getToken N C (Some net) limit nowMs ip i s user (order_body enc (oi_nonce ord))
      = (s', Inr (new_order i (int nowMs) user \<lparr>so_encrypted_data = ct, so_threshold_pubkey = vn_groupPublicKey net, so_nonce = ?n\<rparr>))"
    using s'(1) v(1) session(1) by (simp add: api_post_order_def ord)
  obtain f' where f': "handleSubmit C W draws iv (getPublicKeyInfo (Some net)) (api_post_order getToken N C (Some net) limit nowMs ip i)
      (Some user) hi lo s ?f = (s', f')" "sf_success f'"
    using handleSubmit_success [where api = "api_post_order getToken N C (Some net) limit nowMs ip i", OF user(1) m(2,1) enc api] by blast
  show ?thesis
    by (intro exI [of _ s'] exI [of _ f'] exI [of _ m] exI [of _ "order_plaintext ord"]
        exI [of _ "new_order i (int nowMs) user \<lparr>so_encrypted_data = ct, so_threshold_pubkey = vn_groupPublicKey net, so_nonce = ?n\<rparr>"] conjI f' m(4))
      (use s'(2) ct order_plaintext_parse [OF m(3)] in \<open>simp_all add: submit_insert_def new_order_def ord\<close>)
qed

theorem frontend_order_accepted_witness:
  "\<exists>s' f' row. handleSubmit sample_curve sample_crypto [sample_draw 4] (replicate 12 9) (getPublicKeyInfo (Some sample_net))
      (api_post_order (\<lambda>_. Inr (is_token (issueSession sample_node 200 (js ''GA'')))) sample_node sample_curve (Some sample_net) 20 250000
        (js ''1.2.3.4'') (js ''o1'')) (Some (js ''GA'')) 1 2
      \<lparr>sv_db = \<lparr>db_orders = [], db_batches = [], db_settlements = []\<rparr>, sv_order_hits = []\<rparr> (edited_form [TypeAmount (js ''1.5'')])
    = (s', f') \<and> sf_success f' \<and> db_orders (sv_db s') = [row] \<and> o_user_address row = js ''GA''"
proof -
  let ?tok = "is_token (issueSession sample_node 200 (js ''GA''))"
  let ?s = "\<lparr>sv_db = \<lparr>db_orders = [], db_batches = [], db_settlements = []\<rparr>, sv_order_hits = []\<rparr>"
  let ?ses = "\<lparr>se_address = js ''GA'', se_expiresAt = Fin 3800\<rparr>"
  have amount: "sf_amountIn (edited_form [TypeAmount (js ''1.5'')]) = js ''1.5''"
    by (simp add: edited_form_def initial_form_def setAmountIn_def is_typed_def is_digit_def js_def)
  note h = sample_session(1) and v = sample_session(2)
  have "\<exists>ct. encryptOrder sample_curve sample_crypto [sample_draw 4] (replicate 12 9) [] (vn_groupPublicKey sample_net) (js ''GA'') = Inr ct"
    using sample_encryptOrder_ok [of 7 sample_crypto "replicate 12 9" "[]" "js ''GA''"] by (simp add: sample_net_def)
  then have k: "is_ok (encryptOrder sample_curve sample_crypto [sample_draw 4] (replicate 12 9) [] (vn_groupPublicKey sample_net) (js ''GA''))"
    by auto
  have "\<exists>s' f' row m pt. handleSubmit sample_curve sample_crypto [sample_draw 4] (replicate 12 9) (getPublicKeyInfo (Some sample_net))
      (api_post_order (\<lambda>_. Inr ?tok) sample_node sample_curve (Some sample_net) 20 250000 (js ''1.2.3.4'') (js ''o1''))
      (Some (js ''GA'')) 1 2 ?s (edited_form [TypeAmount (js ''1.5'')]) = (s', f') \<and> sf_success f' \<and>
    sv_db s' = (sv_db ?s)\<lparr>db_orders := db_orders (sv_db ?s) @ [row]\<rparr> \<and> o_user_address row = js ''GA'' \<and> o_status row = Pending \<and>
    encryptOrder sample_curve sample_crypto [sample_draw 4] (replicate 12 9) pt (vn_groupPublicKey sample_net) (js ''GA'') = Inr (o_encrypted_data row) \<and>
    parseDecryptedOrder pt (o_user_address row) (round_double (of_int (o_nonce row)))
      = Inr \<lparr>do_user = js ''GA'', do_token_in = sf_tokenIn (edited_form [TypeAmount (js ''1.5'')]),
          do_token_out = sf_tokenOut (edited_form [TypeAmount (js ''1.5'')]), do_amount_in = js ''15000000'', do_min_amount_out = m\<rparr> \<and>
    \<bar>100 * dec_value m - 99 * dec_value (js ''15000000'')\<bar> < 56"
    by (rule frontend_order_accepted [where ses = ?ses, OF sample_curve_laws sample_crypto_laws _ _ _ _ _ _ _ k _ h v])
      (simp_all add: amount sample_amount rate_limit_def Let_def, simp_all add: js_def)
  then show ?thesis by force
qed

end
