(* ===== verification/Wallet.thy ===== *)
theory Wallet
  imports Auth
begin

text \<open>
  The frontend's wallet and session: \<open>services/wallet.ts\<close>, \<open>services/auth.ts\<close> and
  \<open>context/WalletContext.tsx\<close>.  Freighter, the SDK's key pairs and the backend's answers are
  parameters.  The tab's \<open>sessionStorage\<close> is a map, or unavailable; every access is wrapped in
  \<open>try\<close>.  Asynchronous calls are split where they wait.
\<close>

section \<open>The tab's storage\<close>

type_synonym 'v tab_storage = "(jsstring \<Rightarrow> 'v option) option"

definition read_item :: "'v tab_storage \<Rightarrow> jsstring \<Rightarrow> 'v option" where
  "read_item st k = (case st of None \<Rightarrow> None | Some m \<Rightarrow> m k)"

definition write_item :: "'v tab_storage \<Rightarrow> jsstring \<Rightarrow> 'v option \<Rightarrow> 'v tab_storage" where
  "write_item st k v = map_option (\<lambda>m. m(k := v)) st"

definition KIND_KEY :: jsstring where
  "KIND_KEY = js ''cipher-protocol:wallet-kind''"

definition DEMO_KEY :: jsstring where
  "DEMO_KEY = js ''cipher-protocol:demo-secret''"

section \<open>The wallet\<close>

datatype wallet_kind = Freighter | Demo

definition kind_text :: "wallet_kind \<Rightarrow> jsstring" where
  "kind_text k = (case k of Freighter \<Rightarrow> js ''freighter'' | Demo \<Rightarrow> js ''demo'')"

text \<open>The errors of this code; \<open>Passed\<close> is one of Freighter, the SDK or the backend.\<close>

datatype wallet_error = FreighterNotInstalled | NoAddressShared | DemoNotInitialised | Passed error

text \<open>The SDK's \<open>Keypair\<close> and \<open>TransactionBuilder\<close>.\<close>

record 'k keypairs =
  fromSecret :: "jsstring \<Rightarrow> error + 'k"
  secret :: "'k \<Rightarrow> jsstring"
  publicKey :: "'k \<Rightarrow> jsstring"
  sign_xdr :: "'k \<Rightarrow> jsstring \<Rightarrow> jsstring \<Rightarrow> error + jsstring"

text \<open>A secret is read back as its key pair, and is not empty.\<close>

definition keypair_laws :: "'k keypairs \<Rightarrow> bool" where
  "keypair_laws K \<longleftrightarrow> (\<forall>k. fromSecret K (secret K k) = Inr k \<and> secret K k \<noteq> [])"

text \<open>What Freighter answers.\<close>

record freighter =
  fr_isConnected :: "error + bool"
  fr_requestAccess :: "error + jsstring"
  fr_getPublicKey :: "error + jsstring"
  fr_sign :: "jsstring \<Rightarrow> jsstring \<Rightarrow> jsstring \<Rightarrow> error + jsstring"

record 'k wallet =
  wl_kind :: "jsstring option"
  wl_demo :: "'k option"
  wl_storage :: "jsstring tab_storage"

text \<open>The module's initial state, on every load of the page.\<close>

definition stored_demo :: "'k keypairs \<Rightarrow> jsstring tab_storage \<Rightarrow> 'k option" where
  "stored_demo K st = (case read_item st DEMO_KEY of None \<Rightarrow> None
     | Some s \<Rightarrow> if s = [] then None else (case fromSecret K s of Inl _ \<Rightarrow> None | Inr k \<Rightarrow> Some k))"

definition load_wallet :: "'k keypairs \<Rightarrow> jsstring tab_storage \<Rightarrow> 'k wallet" where
  "load_wallet K st = \<lparr>wl_kind = read_item st KIND_KEY, wl_demo = stored_demo K st, wl_storage = st\<rparr>"

definition isFreighterAvailable :: "freighter \<Rightarrow> bool" where
  "isFreighterAvailable F = ecatch (fr_isConnected F) False"

text \<open>\<open>connect\<close>; \<open>fresh\<close> is the result of \<open>Keypair.random()\<close>.\<close>

definition connect :: "'k keypairs \<Rightarrow> freighter \<Rightarrow> 'k \<Rightarrow> wallet_kind \<Rightarrow> 'k wallet \<Rightarrow> 'k wallet \<times> (wallet_error + jsstring)" where
  "connect K F fresh which w =
     (case which of
        Demo \<Rightarrow>
          (w\<lparr>wl_demo := Some fresh, wl_kind := Some (kind_text Demo),
             wl_storage := write_item (write_item (wl_storage w) DEMO_KEY (Some (secret K fresh))) KIND_KEY (Some (kind_text Demo))\<rparr>,
           Inr (publicKey K fresh))
      | Freighter \<Rightarrow>
          if \<not> isFreighterAvailable F then (w, Inl FreighterNotInstalled)
          else (case fr_requestAccess F of Inl e \<Rightarrow> (w, Inl (Passed e))
            | Inr address \<Rightarrow>
                if address = [] then (w, Inl NoAddressShared)
                else (w\<lparr>wl_kind := Some (kind_text Freighter),
                        wl_storage := write_item (wl_storage w) KIND_KEY (Some (kind_text Freighter))\<rparr>, Inr address)))"

definition disconnect :: "'k wallet \<Rightarrow> 'k wallet" where
  "disconnect w = w\<lparr>wl_kind := None, wl_demo := None,
     wl_storage := write_item (write_item (wl_storage w) KIND_KEY None) DEMO_KEY None\<rparr>"

definition getAddress :: "'k keypairs \<Rightarrow> freighter \<Rightarrow> 'k wallet \<Rightarrow> jsstring option" where
  "getAddress K F w =
     (if wl_kind w = Some (kind_text Demo) then map_option (publicKey K) (wl_demo w)
      else if wl_kind w = Some (kind_text Freighter) then
        (if isFreighterAvailable F then (case fr_getPublicKey F of Inl _ \<Rightarrow> None | Inr a \<Rightarrow> Some a) else None)
      else None)"

definition wallet_signTransaction ::
  "'k keypairs \<Rightarrow> freighter \<Rightarrow> 'k wallet \<Rightarrow> jsstring \<Rightarrow> jsstring \<Rightarrow> jsstring \<Rightarrow> wallet_error + jsstring" where
  "wallet_signTransaction K F w xdr networkPassphrase accountToSign =
     (if wl_kind w = Some (kind_text Demo) then
        (case wl_demo w of None \<Rightarrow> Inl DemoNotInitialised | Some k \<Rightarrow> map_sum Passed id (sign_xdr K k xdr networkPassphrase))
      else map_sum Passed id (fr_sign F xdr networkPassphrase accountToSign))"

section \<open>Sessions\<close>

text \<open>
  \<open>getToken\<close> waits for the promise \<open>inflight\<close> that an earlier call may have started; when it settles,
  \<open>inflight\<close> is cleared first and then the waiting calls go on one by one.  \<open>au_waiting\<close> holds
  the addresses of the calls that wait, \<open>au_ready\<close> the calls whose promise has settled, and
  \<open>au_returned\<close> what calls have returned, newest first.
\<close>

record auth_state =
  au_current :: "issued_session option"
  au_inflight :: "jsstring option"
  au_waiting :: "jsstring list"
  au_ready :: "(jsstring \<times> (wallet_error + issued_session)) list"
  au_stored :: "issued_session tab_storage"
  au_returned :: "(jsstring \<times> (wallet_error + issued_session)) list"

definition EXPIRY_MARGIN_S :: nat where
  "EXPIRY_MARGIN_S = 60"

definition STORAGE_KEY :: jsstring where
  "STORAGE_KEY = js ''cipher-protocol:session''"

definition isFresh :: "rat \<Rightarrow> issued_session option \<Rightarrow> jsstring \<Rightarrow> bool" where
  "isFresh now s address = (case s of None \<Rightarrow> False
     | Some x \<Rightarrow> is_address x = address \<and> of_nat (is_expires_at x) - of_nat EXPIRY_MARGIN_S > now)"

definition load_auth :: "issued_session tab_storage \<Rightarrow> auth_state" where
  "load_auth st = \<lparr>au_current = read_item st STORAGE_KEY, au_inflight = None, au_waiting = [], au_ready = [],
     au_stored = st, au_returned = []\<rparr>"

text \<open>\<open>signIn\<close>: challenge, signature, exchange; each may fail.\<close>

definition signIn ::
  "(jsstring \<Rightarrow> wallet_error + (jsstring \<times> jsstring)) \<Rightarrow> (jsstring \<Rightarrow> jsstring \<Rightarrow> jsstring \<Rightarrow> wallet_error + jsstring) \<Rightarrow> (jsstring \<Rightarrow> wallet_error + issued_session)
     \<Rightarrow> jsstring \<Rightarrow> wallet_error + issued_session" where
  "signIn challenge sign verify address =
     ebind (challenge address) (\<lambda>(xdr, networkPassphrase).
     ebind (sign xdr networkPassphrase address) verify)"

text \<open>What happens in the tab: a call of \<open>getToken\<close> at some time, the end of the sign-in, a waiting
  call that goes on, and \<open>clear\<close>.\<close>

datatype auth_event = GetToken rat jsstring | SignInDone "wallet_error + issued_session" | Resume | Clear

fun auth_step :: "auth_state \<Rightarrow> auth_event \<Rightarrow> auth_state" where
  "auth_step c (GetToken now a) =
     (case au_current c of
        Some x \<Rightarrow> if isFresh now (Some x) a then c\<lparr>au_returned := (a, Inr x) # au_returned c\<rparr>
          else c\<lparr>au_inflight := Some (case au_inflight c of None \<Rightarrow> a | Some b \<Rightarrow> b), au_waiting := au_waiting c @ [a]\<rparr>
      | None \<Rightarrow> c\<lparr>au_inflight := Some (case au_inflight c of None \<Rightarrow> a | Some b \<Rightarrow> b), au_waiting := au_waiting c @ [a]\<rparr>)"
| "auth_step c (SignInDone r) =
     (case au_inflight c of None \<Rightarrow> c
      | Some _ \<Rightarrow> c\<lparr>au_inflight := None, au_waiting := [], au_ready := au_ready c @ map (\<lambda>a. (a, r)) (au_waiting c)\<rparr>)"
| "auth_step c Resume =
     (case au_ready c of [] \<Rightarrow> c
      | (a, Inl e) # rest \<Rightarrow> c\<lparr>au_ready := rest, au_returned := (a, Inl e) # au_returned c\<rparr>
      | (a, Inr x) # rest \<Rightarrow> c\<lparr>au_ready := rest, au_current := Some x,
          au_stored := write_item (au_stored c) STORAGE_KEY (Some x), au_returned := (a, Inr x) # au_returned c\<rparr>)"
| "auth_step c Clear = c\<lparr>au_current := None, au_stored := write_item (au_stored c) STORAGE_KEY None\<rparr>"

definition auth_run :: "auth_state \<Rightarrow> auth_event list \<Rightarrow> auth_state" where
  "auth_run = foldl auth_step"

definition authHeaders :: "issued_session \<Rightarrow> jsstring" where
  "authHeaders x = js ''Bearer '' @ is_token x"

section \<open>The wallet context\<close>

record 'k wallet_context =
  wc_address :: "jsstring option"
  wc_kind :: "jsstring option"
  wc_error :: "wallet_error option"
  wc_wallet :: "'k wallet"
  wc_auth :: auth_state

text \<open>On mounting: the kind, and the address when it arrives.\<close>

definition mount_context :: "'k keypairs \<Rightarrow> freighter \<Rightarrow> 'k wallet \<Rightarrow> auth_state \<Rightarrow> 'k wallet_context" where
  "mount_context K F w c = \<lparr>wc_address = (case getAddress K F w of None \<Rightarrow> None | Some a \<Rightarrow> if a = [] then None else Some a),
     wc_kind = wl_kind w, wc_error = None, wc_wallet = w, wc_auth = c\<rparr>"

definition context_connect :: "'k keypairs \<Rightarrow> freighter \<Rightarrow> 'k \<Rightarrow> wallet_kind \<Rightarrow> 'k wallet_context \<Rightarrow> 'k wallet_context" where
  "context_connect K F fresh which x =
     (let c = auth_step (wc_auth x) Clear in
      case connect K F fresh which (wc_wallet x) of
        (w, Inl e) \<Rightarrow> x\<lparr>wc_error := Some e, wc_wallet := w, wc_auth := c\<rparr>
      | (w, Inr address) \<Rightarrow> x\<lparr>wc_error := None, wc_address := Some address, wc_kind := Some (kind_text which),
          wc_wallet := w, wc_auth := c\<rparr>)"

definition context_disconnect :: "'k wallet_context \<Rightarrow> 'k wallet_context" where
  "context_disconnect x = x\<lparr>wc_address := None, wc_kind := None, wc_wallet := disconnect (wc_wallet x),
     wc_auth := auth_step (wc_auth x) Clear\<rparr>"

section \<open>The wallet over time\<close>

text \<open>Wallets of one tab: loaded from the storage, then connected and disconnected in any order.\<close>

inductive wallet_reach :: "'k keypairs \<Rightarrow> jsstring tab_storage \<Rightarrow> 'k wallet \<Rightarrow> bool" for K st where
  loaded: "wallet_reach K st (load_wallet K st)"
| connected: "wallet_reach K st w \<Longrightarrow> wallet_reach K st (fst (connect K F fresh which w))"
| disconnected: "wallet_reach K st w \<Longrightarrow> wallet_reach K st (disconnect w)"

lemma keys_differ [simp]: "KIND_KEY \<noteq> DEMO_KEY" "DEMO_KEY \<noteq> KIND_KEY"
  by (simp_all add: KIND_KEY_def DEMO_KEY_def js_def)

lemma read_write: "read_item (write_item st k v) k' = (if st = None then None else if k' = k then v else read_item st k')"
  by (cases st) (simp_all add: read_item_def write_item_def)

lemma write_none [simp]: "write_item st k v = None \<longleftrightarrow> st = None"
  by (cases st) (simp_all add: write_item_def)

lemma stored_demo_write:
  "stored_demo K (write_item st KIND_KEY v) = stored_demo K st"
  "keypair_laws K \<Longrightarrow> st \<noteq> None \<Longrightarrow> stored_demo K (write_item st DEMO_KEY (Some (secret K k))) = Some k"
  "stored_demo K (write_item st DEMO_KEY None) = None"
proof -
  show "stored_demo K (write_item st KIND_KEY v) = stored_demo K st"
    by (cases st) (simp_all add: stored_demo_def read_item_def write_item_def)
  show "stored_demo K (write_item st DEMO_KEY None) = None"
    by (cases st) (simp_all add: stored_demo_def read_item_def write_item_def)
  show "stored_demo K (write_item st DEMO_KEY (Some (secret K k))) = Some k" if "keypair_laws K" "st \<noteq> None"
  proof -
    have "read_item (write_item st DEMO_KEY (Some (secret K k))) DEMO_KEY = Some (secret K k)"
      using that(2) by (simp add: read_write)
    then show ?thesis using that(1) by (simp add: stored_demo_def keypair_laws_def)
  qed
qed

definition synced :: "'k keypairs \<Rightarrow> 'k wallet \<Rightarrow> bool" where
  "synced K w \<longleftrightarrow> (wl_storage w \<noteq> None \<longrightarrow>
     wl_kind w = read_item (wl_storage w) KIND_KEY \<and> wl_demo w = stored_demo K (wl_storage w))"

lemma synced_load: "synced K w \<Longrightarrow> wl_storage w = None \<or> load_wallet K (wl_storage w) = w"
  by (cases w) (auto simp: synced_def load_wallet_def)

lemma synced_connect:
  assumes "keypair_laws K" "synced K w"
  shows "synced K (fst (connect K F fresh which w))"
  using assms
  by (cases which) (auto simp: connect_def synced_def read_write stored_demo_write split: sum.splits)

lemma synced_disconnect: "synced K (disconnect w)"
  by (simp add: synced_def disconnect_def read_write stored_demo_write)

lemma synced_reach:
  assumes "keypair_laws K" "wallet_reach K st w"
  shows "synced K w"
  using assms(2)
proof induction
  case loaded
  then show ?case by (simp add: synced_def load_wallet_def)
next
  case (connected w F fresh which)
  then show ?case using synced_connect [OF assms(1)] by blast
next
  case (disconnected w)
  show ?case by (rule synced_disconnect)
qed

section \<open>Sessions over time\<close>

text \<open>Sign-ins are for the account that was asked for; and no call waits for another account's sign-in.\<close>

fun honest_sign_ins :: "auth_state \<Rightarrow> auth_event list \<Rightarrow> bool" where
  "honest_sign_ins c [] \<longleftrightarrow> True"
| "honest_sign_ins c (e # es) \<longleftrightarrow>
     (case e of SignInDone (Inr x) \<Rightarrow> au_inflight c = None \<or> au_inflight c = Some (is_address x) | _ \<Rightarrow> True) \<and>
     honest_sign_ins (auth_step c e) es"

fun one_account_at_a_time :: "auth_state \<Rightarrow> auth_event list \<Rightarrow> bool" where
  "one_account_at_a_time c [] \<longleftrightarrow> True"
| "one_account_at_a_time c (e # es) \<longleftrightarrow>
     (case e of GetToken now a \<Rightarrow> au_inflight c = None \<or> au_inflight c = Some a | _ \<Rightarrow> True) \<and>
     one_account_at_a_time (auth_step c e) es"

definition right_account :: "(jsstring \<times> (wallet_error + issued_session)) \<Rightarrow> bool" where
  "right_account r \<longleftrightarrow> (case snd r of Inl _ \<Rightarrow> True | Inr x \<Rightarrow> is_address x = fst r)"

definition auth_ok :: "auth_state \<Rightarrow> bool" where
  "auth_ok c \<longleftrightarrow> (\<forall>a \<in> set (au_waiting c). au_inflight c = Some a) \<and>
     list_all right_account (au_ready c) \<and> list_all right_account (au_returned c)"

lemma auth_ok_step:
  assumes "auth_ok c" "honest_sign_ins c [e]" "one_account_at_a_time c [e]"
  shows "auth_ok (auth_step c e)"
proof (cases e)
  case (GetToken now a)
  then show ?thesis
    using assms by (auto simp: auth_ok_def isFresh_def right_account_def split: option.splits)
next
  case (SignInDone r)
  then show ?thesis
    using assms by (cases r) (auto simp: auth_ok_def right_account_def list_all_iff split: option.splits)
next
  case Resume
  then show ?thesis
    using assms by (auto simp: auth_ok_def right_account_def split: list.splits sum.splits)
next
  case Clear
  then show ?thesis using assms by (simp add: auth_ok_def)
qed

lemma auth_ok_run:
  "auth_ok c \<Longrightarrow> honest_sign_ins c es \<Longrightarrow> one_account_at_a_time c es \<Longrightarrow> auth_ok (auth_run c es)"
proof (induction es arbitrary: c)
  case (Cons e es)
  then have "auth_ok (auth_step c e)" by (intro auth_ok_step) simp_all
  with Cons show ?case by (simp add: auth_run_def)
qed (simp add: auth_run_def)

section \<open>Properties\<close>

text \<open>The wallet survives a reload.  In a tab whose storage works, after any sequence of connects and
  disconnects, successful or not, loading the page again gives the same wallet: kind and demo key.
  After a disconnect the storage holds neither.\<close>

theorem wallet_survives_reload:
  assumes "keypair_laws K" "wallet_reach K st w"
  shows "(wl_storage w = None \<or> load_wallet K (wl_storage w) = w) \<and>
    read_item (wl_storage (disconnect w)) DEMO_KEY = None \<and> read_item (wl_storage (disconnect w)) KIND_KEY = None"
  using synced_load [OF synced_reach [OF assms]] by (simp add: disconnect_def read_write)

definition sample_keypairs :: "jsstring keypairs" where
  "sample_keypairs = \<lparr>fromSecret = (\<lambda>s. Inr (tl s)), secret = (\<lambda>k. 83 # k), publicKey = (\<lambda>k. 71 # k), sign_xdr = (\<lambda>k xdr p. Inr xdr)\<rparr>"

theorem wallet_survives_reload_witness:
  "let F = \<lparr>fr_isConnected = Inr True, fr_requestAccess = Inr (js ''GF''), fr_getPublicKey = Inr (js ''GF''), fr_sign = (\<lambda>x p a. Inr x)\<rparr>;
       w = fst (connect sample_keypairs F (js ''B'') Freighter (fst (connect sample_keypairs F (js ''A'') Demo
             (load_wallet sample_keypairs (Some Map.empty)))))
   in load_wallet sample_keypairs (wl_storage w) = w \<and> wl_demo w = Some (js ''A'') \<and> wl_kind w = Some (js ''freighter'')"
proof -
  define F where "F = \<lparr>fr_isConnected = Inr True, fr_requestAccess = Inr (js ''GF''), fr_getPublicKey = Inr (js ''GF''), fr_sign = (\<lambda>x p a. Inr x :: error + jsstring)\<rparr>"
  define w where "w = fst (connect sample_keypairs F (js ''B'') Freighter (fst (connect sample_keypairs F (js ''A'') Demo
     (load_wallet sample_keypairs (Some Map.empty)))))"
  have "keypair_laws sample_keypairs" by (simp add: keypair_laws_def sample_keypairs_def)
  moreover have "wallet_reach sample_keypairs (Some Map.empty) w"
    unfolding w_def by (intro connected loaded)
  ultimately have "wl_storage w = None \<or> load_wallet sample_keypairs (wl_storage w) = w"
    using wallet_survives_reload by blast
  moreover have "wl_storage w \<noteq> None" "wl_demo w = Some (js ''A'')" "wl_kind w = Some (js ''freighter'')"
    by (simp_all add: w_def connect_def load_wallet_def F_def isFreighterAvailable_def kind_text_def js_def)
  ultimately show ?thesis unfolding Let_def w_def F_def by blast
qed

text \<open>C22: A token is for the account that asks for it.  As long as no call of \<open>getToken\<close> comes for another account
  while a sign-in is under way, and every sign-in yields a session for the account it was started
  for, each token that a call returns belongs to the address of that call, whatever the order of
  calls, ends of sign-ins, resumptions and \<open>clear\<close>.\<close>

theorem token_for_asking_account:
  assumes "honest_sign_ins (load_auth st) es" "one_account_at_a_time (load_auth st) es"
    and "(a, Inr x) \<in> set (au_returned (auth_run (load_auth st) es))"
  shows "is_address x = a"
proof -
  have "auth_ok (load_auth st)" by (simp add: auth_ok_def load_auth_def)
  from auth_ok_run [OF this assms(1,2)] assms(3) show ?thesis
    by (auto simp: auth_ok_def list_all_iff right_account_def)
qed

theorem token_for_asking_account_witness:
  "let x = \<lparr>is_token = js ''t'', is_address = js ''GA'', is_expires_at = 5000\<rparr>;
       es = [GetToken 0 (js ''GA''), GetToken 1 (js ''GA''), SignInDone (Inr x), Resume, Resume, GetToken 9 (js ''GA'')]
   in (js ''GA'', Inr x) \<in> set (au_returned (auth_run (load_auth (Some Map.empty)) es)) \<and> is_address x = js ''GA''"
proof -
  let ?x = "\<lparr>is_token = js ''t'', is_address = js ''GA'', is_expires_at = 5000\<rparr>"
  let ?es = "[GetToken 0 (js ''GA''), GetToken 1 (js ''GA''), SignInDone (Inr ?x), Resume, Resume, GetToken 9 (js ''GA'')]"
  have r: "(js ''GA'', Inr ?x) \<in> set (au_returned (auth_run (load_auth (Some Map.empty)) ?es))"
    by (simp add: auth_run_def load_auth_def read_item_def isFresh_def EXPIRY_MARGIN_S_def)
  have "is_address ?x = js ''GA''"
    by (rule token_for_asking_account [OF _ _ r]) (simp_all add: load_auth_def read_item_def isFresh_def EXPIRY_MARGIN_S_def)
  then show ?thesis using r by (simp add: Let_def)
qed

text \<open>The condition is needed.  When a call for a second account comes while the sign-in of the first is under
  way, it gets the first account's token, although the wallet context cleared the session in
  between; the cleared session is back in the tab's storage.  Every sign-in is honest here.\<close>

theorem token_of_other_account:
  "let x = \<lparr>is_token = t, is_address = a, is_expires_at = e\<rparr>;
       es = [GetToken now a, Clear, GetToken now' b, SignInDone (Inr x), Resume, Resume];
       c = auth_run (load_auth (Some Map.empty)) es
   in honest_sign_ins (load_auth (Some Map.empty)) es \<and> (b, Inr x) \<in> set (au_returned c) \<and>
      au_current c = Some x \<and> read_item (au_stored c) STORAGE_KEY = Some x"
  by (simp add: Let_def auth_run_def load_auth_def read_write read_item_def write_item_def)

end
