(* ===== verification/Cluster.thy ===== *)
theory Cluster
  imports Startup Numbers
begin

text \<open>
  The two scripts that set up a cluster of validator processes, \<open>validator/devCluster.ts\<close> and
  \<open>validator/initCluster.ts\<close>: identities and tokens, the cluster file for the coordinator, the
  environment of each validator; and, composed with \<open>Startup\<close>, that every process starts and the
  coordinator accepts the file.  Processes and the file system are left out: files are the values
  written, and the file of one start is the argument of the next.
\<close>

section \<open>The identity file\<close>

text \<open>\<open>JSON.stringify(identity, null, 2)\<close>, which \<open>loadOrCreateIdentity\<close> writes.\<close>

definition identity_file :: "identity \<Rightarrow> jsstring" where
  "identity_file ident =
     [123, 10, 32, 32] @ json_quote (js ''secretKey'') @ [58, 32] @ json_quote (id_secretKey ident) @
     [44, 10, 32, 32] @ json_quote (js ''publicKey'') @ [58, 32] @ json_quote (id_publicKey ident) @ [10, 125]"

section \<open>Members\<close>

record cluster_entry =
  ce_index :: nat
  ce_identity :: identity
  ce_apiToken :: jsstring

text \<open>
  \<open>previous\<close>: the members of an earlier cluster file; \<open>stored i\<close>: the identity file of validator
  \<open>i\<close>; \<open>secrets\<close> and \<open>tokens\<close>: the random bytes drawn when there is none.
\<close>

definition earlier_token :: "js_number cluster_member list option \<Rightarrow> nat \<Rightarrow> jsstring option" where
  "earlier_token previous i =
     (case previous of None \<Rightarrow> None
      | Some vs \<Rightarrow> map_option cm_apiToken (List.find (\<lambda>v. cm_index v = Fin (of_nat i)) vs))"

definition cluster_member_of ::
  "ed25519 \<Rightarrow> (nat \<Rightarrow> byte list) \<Rightarrow> (nat \<Rightarrow> jsstring option) \<Rightarrow> (nat \<Rightarrow> byte list) \<Rightarrow> js_number cluster_member list option
     \<Rightarrow> nat \<Rightarrow> error + cluster_entry" where
  "cluster_member_of E secrets stored tokens previous i =
     ebind (loadOrCreateIdentity E (secrets i) (stored i)) (\<lambda>(ident, _).
     Inr \<lparr>ce_index = i, ce_identity = ident,
       ce_apiToken = (case earlier_token previous i of Some t \<Rightarrow> t | None \<Rightarrow> bytesToHex (tokens i))\<rparr>)"

definition cluster_members ::
  "ed25519 \<Rightarrow> (nat \<Rightarrow> byte list) \<Rightarrow> (nat \<Rightarrow> jsstring option) \<Rightarrow> (nat \<Rightarrow> byte list) \<Rightarrow> js_number cluster_member list option
     \<Rightarrow> nat \<Rightarrow> error + cluster_entry list" where
  "cluster_members E secrets stored tokens previous n =
     emap (cluster_member_of E secrets stored tokens previous) [1..<n + 1]"

text \<open>What \<open>identity.json\<close> of a validator holds afterwards.\<close>

definition identity_text :: "(nat \<Rightarrow> jsstring option) \<Rightarrow> cluster_entry \<Rightarrow> jsstring" where
  "identity_text stored m = (case stored (ce_index m) of Some t \<Rightarrow> t | None \<Rightarrow> identity_file (ce_identity m))"

definition cluster_file :: "(nat \<Rightarrow> jsstring) \<Rightarrow> cluster_entry list \<Rightarrow> js_number cluster_member list" where
  "cluster_file url ms = map (\<lambda>m. \<lparr>cm_index = Fin (of_nat (ce_index m)), cm_url = url (ce_index m),
     cm_identityKey = id_publicKey (ce_identity m), cm_apiToken = ce_apiToken m\<rparr>) ms"

text \<open>The URLs: \<open>basePort + index\<close> on this machine, or a template whose first \<open>{i}\<close> is replaced.\<close>

definition dev_url :: "nat \<Rightarrow> nat \<Rightarrow> jsstring" where
  "dev_url basePort i = js ''http://127.0.0.1:'' @ nat_to_string 10 (basePort + i)"

fun replace_first :: "jsstring \<Rightarrow> jsstring \<Rightarrow> jsstring \<Rightarrow> jsstring" where
  "replace_first p r s =
     (if take (length p) s = p then r @ drop (length p) s
      else (case s of [] \<Rightarrow> [] | u # t \<Rightarrow> u # replace_first p r t))"

definition urlFor :: "environment \<Rightarrow> nat \<Rightarrow> jsstring" where
  "urlFor env i = replace_first (js ''{i}'') (nat_to_string 10 i)
     (env_or env ''VALIDATOR_URL_TEMPLATE'' (js ''http://validator-{i}:7700''))"

definition peer_keys :: "cluster_entry list \<Rightarrow> jsstring" where
  "peer_keys ms = join [44] (map (\<lambda>m. nat_to_string 10 (ce_index m) @ [58] @ id_publicKey (ce_identity m)) ms)"

section \<open>Environments\<close>

text \<open>Variables of a child process set over those of the parent, in order.\<close>

definition with_vars :: "environment \<Rightarrow> (string \<times> jsstring) list \<Rightarrow> environment" where
  "with_vars env xs = foldl (\<lambda>e (x, v). e(js x := Some v)) env xs"

definition sealing_vars :: "environment \<Rightarrow> (string \<times> jsstring) list" where
  "sealing_vars env =
     (if env_or env ''ORDER_VAULT_CONTRACT'' [] \<noteq> [] then
        [(''VALIDATOR_ORDER_VAULT_CONTRACT'', env_or env ''ORDER_VAULT_CONTRACT'' []),
         (''VALIDATOR_SOROBAN_RPC_URL'', env_or env ''SOROBAN_RPC_URL'' (js ''https://soroban-testnet.stellar.org'')),
         (''VALIDATOR_NETWORK_PASSPHRASE'', env_or env ''STELLAR_NETWORK_PASSPHRASE'' (js ''Test SDF Network ; September 2015''))]
      else [(''VALIDATOR_INSECURE_SKIP_COMMITMENT_CHECK'', js ''1'')])"

definition dev_env :: "environment \<Rightarrow> (nat \<Rightarrow> jsstring) \<Rightarrow> nat \<Rightarrow> cluster_entry list \<Rightarrow> cluster_entry \<Rightarrow> environment" where
  "dev_env env keyDir basePort ms m = with_vars env
     ([(''VALIDATOR_INDEX'', nat_to_string 10 (ce_index m)),
       (''VALIDATOR_PORT'', nat_to_string 10 (basePort + ce_index m)),
       (''VALIDATOR_KEY_DIR'', keyDir (ce_index m)),
       (''VALIDATOR_API_TOKEN'', ce_apiToken m),
       (''VALIDATOR_PEER_KEYS'', peer_keys ms)] @ sealing_vars env)"

text \<open>\<open>validator.env\<close> of \<open>initCluster\<close>: lines \<open>NAME=value\<close>; the passphrase is quoted.\<close>

definition env_lines :: "environment \<Rightarrow> cluster_entry list \<Rightarrow> cluster_entry \<Rightarrow> jsstring list" where
  "env_lines env ms m =
     [js ''VALIDATOR_API_TOKEN='' @ ce_apiToken m, js ''VALIDATOR_PEER_KEYS='' @ peer_keys ms] @
     (if env_or env ''ORDER_VAULT_CONTRACT'' [] \<noteq> [] then
        [js ''VALIDATOR_ORDER_VAULT_CONTRACT='' @ env_or env ''ORDER_VAULT_CONTRACT'' [],
         js ''VALIDATOR_SOROBAN_RPC_URL='' @ env_or env ''SOROBAN_RPC_URL'' (js ''https://soroban-testnet.stellar.org''),
         js ''VALIDATOR_NETWORK_PASSPHRASE='' @ [34] @ env_or env ''STELLAR_NETWORK_PASSPHRASE'' (js ''Test SDF Network ; September 2015'') @ [34]]
      else [js ''VALIDATOR_INSECURE_SKIP_COMMITMENT_CHECK=1''])"

definition validator_env :: "environment \<Rightarrow> cluster_entry list \<Rightarrow> cluster_entry \<Rightarrow> jsstring" where
  "validator_env env ms m = join [10] (env_lines env ms m) @ [10]"

section \<open>The identity file is read back\<close>

lemma next_is_skip: "is_json_space u \<Longrightarrow> next_is c (u # s) = next_is c s"
  by (simp add: next_is_def)

lemma parse_string_member:
  "parse_members (Suc (Suc n)) ([10, 32, 32] @ json_quote k @ [58, 32] @ json_quote v @ x) =
     (case next_is 44 x of Some r \<Rightarrow> map_option (apfst (Cons (k, VStr v))) (parse_members (Suc n) r)
      | None \<Rightarrow> map_option (\<lambda>r. ([(k, VStr v)], r)) (next_is 125 x))"
proof -
  have "next_is 34 ([10, 32, 32] @ json_quote k @ y) = Some (json_units k @ 34 # y)" for y
    by (simp add: next_is_def json_quote_def is_json_space_def)
  then have a: "Option.bind (next_is 34 ([10, 32, 32] @ json_quote k @ y)) parse_chars = Some (k, y)" for y
    by (simp add: parse_chars_units)
  have "parse_value (Suc n) (32 # json_quote v @ x) = Some (VStr v, x)"
    by (simp add: json_quote_def is_json_space_def parse_chars_units)
  moreover have "next_is 58 ([58, 32] @ json_quote v @ x) = Some (32 # json_quote v @ x)"
    by (simp add: next_is_def is_json_space_def)
  ultimately have b: "Option.bind (next_is 58 ([58, 32] @ json_quote v @ x)) (parse_value (Suc n)) = Some (VStr v, x)"
    by (simp del: parse_value.simps)
  show ?thesis unfolding parse_members.simps(2) [of "Suc n"] a option.case prod.case b ..
qed

lemma JSON_parse_identity:
  "JSON_parse (identity_file ident) = Inr (VObj [(js ''secretKey'', VStr (id_secretKey ident)), (js ''publicKey'', VStr (id_publicKey ident))])"
proof -
  let ?r = "[10, 32, 32] @ json_quote (js ''publicKey'') @ [58, 32] @ json_quote (id_publicKey ident) @ [10, 125]"
  let ?m = "[10, 32, 32] @ json_quote (js ''secretKey'') @ [58, 32] @ json_quote (id_secretKey ident) @ 44 # ?r"
  have x: "next_is 44 [10, 125] = None" "next_is 125 [10, 125] = Some []" "next_is 44 (44 # ?r) = Some ?r"
    "next_is 125 (10 # s) = next_is 125 s" "next_is 125 (32 # s) = next_is 125 s" "next_is 125 (json_quote k @ s) = None" for s k
    by (simp_all add: next_is_def is_json_space_def json_quote_def)
  have "parse_members (Suc (Suc n)) ?r = Some ([(js ''publicKey'', VStr (id_publicKey ident))], [])" for n
    unfolding parse_string_member x by (simp add: next_is_def is_json_space_def)
  then have m: "parse_members (Suc (Suc (Suc n))) ?m
      = Some ([(js ''secretKey'', VStr (id_secretKey ident)), (js ''publicKey'', VStr (id_publicKey ident))], [])" for n
    unfolding parse_string_member [of "Suc n"] x by simp
  have "next_is 125 ?m = None" using x by simp
  then have "parse_value (Suc (Suc (Suc (Suc n)))) (123 # ?m)
      = Some (VObj [(js ''secretKey'', VStr (id_secretKey ident)), (js ''publicKey'', VStr (id_publicKey ident))], [])" for n
    using m [of n] by (subst parse_value.simps(2)) (simp only: dropWhile.simps is_json_space_def, simp del: parse_members.simps)
  from this [of "2 * length (123 # ?m)"]
  have "JSON_parse (123 # ?m) = Inr (VObj [(js ''secretKey'', VStr (id_secretKey ident)), (js ''publicKey'', VStr (id_publicKey ident))])"
    by (rule JSON_parse_exact) simp
  then show ?thesis by (simp add: identity_file_def)
qed

section \<open>Identities and keys\<close>

lemma hex_byte_lower: "list_all (\<lambda>c. is_digit c \<or> 97 \<le> c \<and> c \<le> 102) (hex_byte b)"
proof -
  have d: "\<forall>d \<in> set [0..<16]. is_digit (digit_unit d) \<or> 97 \<le> digit_unit d \<and> digit_unit d \<le> 102" by code_simp
  then have "list_all (\<lambda>c. is_digit c \<or> 97 \<le> c \<and> c \<le> 102) (nat_to_string 16 n)" for n
    using radix_digits_less [of 16 _ n] by (auto simp: nat_to_string_def list_all_iff)
  moreover have "is_digit 48" by (simp add: is_digit_def)
  ultimately show ?thesis by (auto simp: hex_byte_def padStart_def list_all_iff)
qed

lemma is_key_hex_bytes: "length bs = 32 \<Longrightarrow> is_key_hex (bytesToHex bs)"
proof -
  have "list_all (\<lambda>c. is_digit c \<or> 97 \<le> c \<and> c \<le> 102) (bytesToHex bs)"
    using hex_byte_lower by (induction bs) (simp_all add: bytesToHex_def)
  then show "length bs = 32 \<Longrightarrow> ?thesis" by (simp add: is_key_hex_def length_bytesToHex)
qed

lemma identity_source:
  assumes "loadOrCreateIdentity E s st = Inr (ident, w)"
  obtains "st = None" "generateIdentity E s = Inr ident"
  | t v sk where "st = Some t" "JSON_parse t = Inr v" "get_prop v (js ''secretKey'') = Inr (Some (VStr sk))"
    "publicKeyOf E sk = Inr (id_publicKey ident)" "id_secretKey ident = sk"
proof (cases st)
  case None
  then show ?thesis using assms that(1) by (auto simp: loadOrCreateIdentity_def ebind_eq_Inr)
next
  case (Some t)
  then obtain v k where v: "JSON_parse t = Inr v" "get_prop v (js ''secretKey'') = Inr k"
    and k: "(case k of Some (VStr secretKey) \<Rightarrow>
        ebind (publicKeyOf E secretKey) (\<lambda>pk. Inr (\<lparr>id_secretKey = secretKey, id_publicKey = pk\<rparr>, None))
      | _ \<Rightarrow> Inl TypeError) = Inr (ident, w)"
    using assms by (auto simp: loadOrCreateIdentity_def ebind_eq_Inr)
  from k obtain sk where sk: "k = Some (VStr sk)" by (cases k) (simp_all split: js_value.splits)
  show ?thesis using k v Some by (intro that(2) [of t v sk]) (auto simp: sk ebind_eq_Inr)
qed

lemma identity_key:
  assumes "ed25519_laws E" "loadOrCreateIdentity E s st = Inr (ident, w)"
  shows "is_key_hex (id_publicKey ident)"
proof -
  from assms(2) obtain sk pk where "ed_getPublicKey E sk = Inr pk" "id_publicKey ident = bytesToHex pk"
    by (cases rule: identity_source) (auto simp: generateIdentity_def publicKeyOf_def ebind_eq_Inr)
  then show ?thesis using assms(1) is_key_hex_bytes by (auto simp: ed25519_laws_def)
qed

text \<open>A later start reads the identity the earlier one used.\<close>

lemma identity_kept:
  assumes "loadOrCreateIdentity E s st = Inr (ident, w)"
  shows "loadOrCreateIdentity E s' (Some (case st of Some t \<Rightarrow> t | None \<Rightarrow> identity_file ident)) = Inr (ident, None)"
  using assms
proof (cases rule: identity_source)
  case 1
  then obtain pk where pk: "ed_getPublicKey E s = Inr pk" "ident = \<lparr>id_secretKey = bytesToHex s, id_publicKey = bytesToHex pk\<rparr>"
    by (auto simp: generateIdentity_def ebind_eq_Inr)
  have "hexToBytes (bytesToHex s) = Inr s"
    by (simp add: hexToBytes_def hex_pairs_bytesToHex bytesToHex_hex length_bytesToHex)
  then have "publicKeyOf E (bytesToHex s) = Inr (bytesToHex pk)" by (simp add: publicKeyOf_def pk(1))
  then show ?thesis by (simp add: 1(1) loadOrCreateIdentity_def JSON_parse_identity get_prop_def pk(2) js_def)
next
  case (2 t v sk)
  then show ?thesis by (cases ident) (simp add: loadOrCreateIdentity_def)
qed

section \<open>The peer list is read back\<close>

lemma js_split_join:
  "xs \<noteq> [] \<Longrightarrow> \<forall>x \<in> set xs. c \<notin> set x \<Longrightarrow> js_split c (join [c] xs) = xs"
proof (induction xs)
  case (Cons x xs)
  show ?case
  proof (cases xs)
    case Nil
    then show ?thesis using Cons.prems by (simp add: js_split_none)
  next
    case (Cons y ys)
    then show ?thesis using Cons.IH Cons.prems by (simp add: js_split_append)
  qed
qed simp

lemma js_Number_nat: "n < 2 ^ 53 \<Longrightarrow> js_Number (nat_to_string 10 n) = Some (Fin (of_nat n))"
proof -
  assume n: "n < 2 ^ 53"
  have "amount_parts (nat_to_string 10 n) []" using nat_digits by (simp add: amount_parts_def)
  from js_Number_decimal [OF this] show ?thesis
    using round_double_int [of "int n"] n by (simp add: decimal_def amount_value_def dec_value_nat_to_string)
qed

lemma key_units: "is_key_hex k \<Longrightarrow> c \<in> set k \<Longrightarrow> c \<noteq> 44 \<and> c \<noteq> 58 \<and> \<not> js_space c"
proof -
  assume "is_key_hex k" "c \<in> set k"
  then have "is_hex c" by (auto simp: is_key_hex_def list_all_iff is_hex_def)
  then have "48 \<le> c \<and> c \<le> 57 \<or> 65 \<le> c \<and> c \<le> 70 \<or> 97 \<le> c \<and> c \<le> 102" by (auto simp: is_hex_def is_digit_def)
  then show ?thesis by (auto simp: js_space_def word_le_nat_alt)
qed

lemma peer_entry_text:
  assumes "is_key_hex k" "n < 2 ^ 53"
  shows "peer_entry (nat_to_string 10 n @ [58] @ k) = Inr (Fin (of_nat n), k)"
    "js_trim (nat_to_string 10 n @ [58] @ k) = nat_to_string 10 n @ [58] @ k" "44 \<notin> set (nat_to_string 10 n @ [58] @ k)"
proof -
  let ?n = "nat_to_string 10 n"
  have k: "k \<noteq> []" using assms(1) by (auto simp: is_key_hex_def)
  have d: "c \<in> set ?n \<Longrightarrow> is_digit c" for c using nat_digits(1) by (auto simp: list_all_iff)
  have d58: "58 \<notin> set ?n" "44 \<notin> set ?n" using d [of 58] d [of 44] by (auto simp: is_digit_def)
  have k58: "58 \<notin> set k" "44 \<notin> set k" using key_units [OF assms(1)] by blast+
  have "js_split 58 (?n @ [58] @ k) = [?n, k]" using d58 k58 by (simp add: js_split_two)
  then show "peer_entry (?n @ [58] @ k) = Inr (Fin (of_nat n), k)"
    using assms nat_digits round_double_int [of "int n"] by (simp add: peer_entry_def dec_value_nat_to_string)
  show "44 \<notin> set (?n @ [58] @ k)" using d58 k58 by simp
  have "\<not> js_space (hd (?n @ [58] @ k))" using digit_not_space d nat_digits(2) by simp
  moreover have "\<not> js_space (last (?n @ [58] @ k))" using key_units [OF assms(1) last_in_set [OF k]] k by simp
  ultimately show "js_trim (?n @ [58] @ k) = ?n @ [58] @ k" by (intro js_trim_id) simp
qed

definition peers_of :: "cluster_entry list \<Rightarrow> (int \<times> jsstring) list" where
  "peers_of ms = map (\<lambda>m. (int (ce_index m), id_publicKey (ce_identity m))) ms"

lemma parsePeerKeys_cluster:
  assumes "ms \<noteq> []" "\<forall>m \<in> set ms. is_key_hex (id_publicKey (ce_identity m)) \<and> ce_index m < 2 ^ 53" "distinct (map ce_index ms)"
  shows "\<exists>ps. parsePeerKeys (peer_keys ms) = Inr ps \<and> peer_list ps = peers_of ms"
proof -
  let ?t = "\<lambda>m. nat_to_string 10 (ce_index m) @ [58] @ id_publicKey (ce_identity m)"
  let ?e = "\<lambda>m. (Fin (of_nat (ce_index m)) :: js_number, id_publicKey (ce_identity m))"
  have s: "js_split 44 (peer_keys ms) = map ?t ms"
    unfolding peer_keys_def using assms(1,2) peer_entry_text(3) by (intro js_split_join) auto
  have "map js_trim (map ?t ms) = map ?t ms" using assms(2) peer_entry_text(2) by (auto simp: map_idI)
  moreover have "filter (\<lambda>p. p \<noteq> []) (map ?t ms) = map ?t ms" by (simp add: filter_id_conv)
  moreover have "emap peer_entry (map ?t ms) = Inr (map ?e ms)"
    using assms(2) peer_entry_text(1) by (simp add: emap_eq_Inr list_all2_conv_all_nth)
  moreover have "distinct (map fst (map ?e ms))"
    using assms(3) by (simp add: distinct_map inj_on_def comp_def)
  ultimately have "parsePeerKeys (peer_keys ms) = Inr (map ?e ms)"
    unfolding parsePeerKeys_def s by (simp only: ebind_simps js_map_distinct)
  moreover have "peer_list (map ?e ms) = peers_of ms"
    by (induction ms) (simp_all add: peer_list_def peers_of_def map_filter_simps js_integer_def)
  ultimately show ?thesis by blast
qed

section \<open>The whole cluster\<close>

lemma dev_env_vars:
  "dev_env env keyDir basePort ms m (js ''VALIDATOR_INDEX'') = Some (nat_to_string 10 (ce_index m))"
  "dev_env env keyDir basePort ms m (js ''VALIDATOR_KEY_DIR'') = Some (keyDir (ce_index m))"
  "dev_env env keyDir basePort ms m (js ''VALIDATOR_API_TOKEN'') = Some (ce_apiToken m)"
  "dev_env env keyDir basePort ms m (js ''VALIDATOR_PEER_KEYS'') = Some (peer_keys ms)"
  by (simp_all add: dev_env_def with_vars_def sealing_vars_def js_eq_iff)

lemma dev_env_ledger: "is_ok (commitmentLedgerFromEnv (dev_env env keyDir basePort ms m))"
  by (auto simp: commitmentLedgerFromEnv_def dev_env_def with_vars_def sealing_vars_def js_eq_iff env_or_def split: option.splits)

lemma cluster_member_Inr:
  assumes "cluster_member_of E secrets stored tokens previous i = Inr m"
  obtains w where "loadOrCreateIdentity E (secrets i) (stored i) = Inr (ce_identity m, w)" "ce_index m = i"
    "ce_apiToken m = (case earlier_token previous i of Some t \<Rightarrow> t | None \<Rightarrow> bytesToHex (tokens i))"
proof -
  obtain ident w where "loadOrCreateIdentity E (secrets i) (stored i) = Inr (ident, w)"
    "m = \<lparr>ce_index = i, ce_identity = ident,
       ce_apiToken = (case earlier_token previous i of Some t \<Rightarrow> t | None \<Rightarrow> bytesToHex (tokens i))\<rparr>"
    using assms by (auto simp: cluster_member_of_def ebind_eq_Inr)
  then show ?thesis using that [of w] by simp
qed

lemma cluster_members_Inr:
  assumes "cluster_members E secrets stored tokens previous n = Inr ms"
  shows "map ce_index ms = [1..<n + 1]"
    "m \<in> set ms \<Longrightarrow> cluster_member_of E secrets stored tokens previous (ce_index m) = Inr m"
proof -
  have l: "list_all2 (\<lambda>i m. cluster_member_of E secrets stored tokens previous i = Inr m) [1..<n + 1] ms"
    using assms by (simp add: cluster_members_def emap_eq_Inr)
  have i: "cluster_member_of E secrets stored tokens previous i = Inr m \<Longrightarrow> ce_index m = i" for i m
    by (erule cluster_member_Inr)
  show "map ce_index ms = [1..<n + 1]"
    using l i by (auto simp: list_all2_conv_all_nth intro!: nth_equalityI)
  show "m \<in> set ms \<Longrightarrow> cluster_member_of E secrets stored tokens previous (ce_index m) = Inr m"
    using l i by (auto simp: list_all2_conv_all_nth in_set_conv_nth)
qed

definition loaded_members :: "(nat \<Rightarrow> jsstring) \<Rightarrow> cluster_entry list \<Rightarrow> int cluster_member list" where
  "loaded_members url ms = map (\<lambda>m. \<lparr>cm_index = int (ce_index m), cm_url = url (ce_index m),
     cm_identityKey = id_publicKey (ce_identity m), cm_apiToken = ce_apiToken m\<rparr>) ms"

lemma loadClusterFile_cluster:
  assumes "ms \<noteq> []" "distinct (map ce_index ms)"
    and "\<forall>m \<in> set ms. 1 \<le> ce_index m \<and> is_http_url (url (ce_index m)) \<and> is_key_hex (id_publicKey (ce_identity m)) \<and> 32 \<le> length (ce_apiToken m)"
  shows "loadClusterFile (Some (cluster_file url ms)) = Inr (loaded_members url ms)"
proof -
  let ?f = "\<lambda>acc v. ebind (check_member (map cm_index acc) v) (\<lambda>i.
         Inr (acc @ [\<lparr>cm_index = i, cm_url = cm_url v, cm_identityKey = cm_identityKey v, cm_apiToken = cm_apiToken v\<rparr>]))"
  have "efold ?f (loaded_members url xs) (cluster_file url ys) = Inr (loaded_members url (xs @ ys))" if "ms = xs @ ys" for xs ys
    using that
  proof (induction ys arbitrary: xs)
    case Nil
    then show ?case by (simp add: cluster_file_def)
  next
    case (Cons y ys)
    have y: "1 \<le> ce_index y" "is_http_url (url (ce_index y))" "is_key_hex (id_publicKey (ce_identity y))" "32 \<le> length (ce_apiToken y)"
      using assms(3) Cons.prems by simp_all
    have "int (ce_index y) \<notin> set (map cm_index (loaded_members url xs))"
      using assms(2) Cons.prems by (auto simp: loaded_members_def)
    then have "?f (loaded_members url xs) (hd (cluster_file url (y # ys))) = Inr (loaded_members url (xs @ [y]))"
      using y by (simp add: cluster_file_def check_member_def js_integer_def loaded_members_def)
    then show ?case using Cons.IH [of "xs @ [y]"] Cons.prems by (simp add: cluster_file_def)
  qed
  from this [of "[]" ms] have "efold ?f [] (cluster_file url ms) = Inr (loaded_members url ms)" by (simp add: loaded_members_def)
  then show ?thesis using assms(1) by (simp add: loadClusterFile_def loaded_members_def)
qed

lemma startValidator_member:
  assumes "loadOrCreateIdentity E s (Some t) = Inr (ce_identity m, None)" "m \<in> set ms" "distinct (map ce_index ms)"
    and "\<forall>m \<in> set ms. is_key_hex (id_publicKey (ce_identity m)) \<and> ce_index m < 2 ^ 53"
    and "32 \<le> length (ce_apiToken m)" "keyDir (ce_index m) \<noteq> []"
  shows "\<exists>v. startValidator E (dev_env env keyDir basePort ms m) s (Some t) None = Inr (v, ce_apiToken m) \<and>
    lv_index v = int (ce_index m) \<and> lv_identity v = ce_identity m \<and> lv_peers v = peers_of ms"
proof -
  have ne: "ms \<noteq> []" using assms(2) by auto
  obtain ps where ps: "parsePeerKeys (peer_keys ms) = Inr ps" "peer_list ps = peers_of ms"
    using parsePeerKeys_cluster [OF ne assms(4,3)] by blast
  obtain cs where cs: "commitmentLedgerFromEnv (dev_env env keyDir basePort ms m) = Inr cs"
    using dev_env_ledger by (blast elim: is_okE)
  have i: "ce_index m < 2 ^ 53" using assms(2,4) by blast
  have "distinct (map fst (peers_of ms))" using assms(3) by (simp add: peers_of_def distinct_map inj_on_def comp_def)
  then have p: "map_of (peers_of ms) (int (ce_index m)) = Some (id_publicKey (ce_identity m))"
    using assms(2) by (intro map_of_is_SomeI) (auto simp: peers_of_def)
  have "peer_keys ms \<noteq> []"
    using ne nat_digits(2) by (cases ms; cases "tl ms") (auto simp: peer_keys_def)
  then have r: "required (dev_env env keyDir basePort ms m) ''VALIDATOR_INDEX'' = Inr (nat_to_string 10 (ce_index m))"
    "required (dev_env env keyDir basePort ms m) ''VALIDATOR_KEY_DIR'' = Inr (keyDir (ce_index m))"
    "required (dev_env env keyDir basePort ms m) ''VALIDATOR_API_TOKEN'' = Inr (ce_apiToken m)"
    "required (dev_env env keyDir basePort ms m) ''VALIDATOR_PEER_KEYS'' = Inr (peer_keys ms)"
    using assms(5,6) nat_digits(2) by (auto simp: required_def dev_env_vars)
  show ?thesis
    unfolding startValidator_def r cs ebind_simps assms(1) prod.case ps
    using js_Number_nat [OF i] assms(5) p by (simp add: js_integer_def newLocalValidator_def)
qed

lemma is_http_dev: "is_http_url (dev_url basePort i)"
  by (simp add: is_http_url_def dev_url_def js_def)

lemma find_index:
  "distinct (map ce_index ms) \<Longrightarrow> m \<in> set ms \<Longrightarrow> List.find (\<lambda>x. ce_index x = ce_index m) ms = Some m"
proof (induction ms)
  case (Cons y ys)
  then show ?case by (cases "y = m") auto
qed simp

lemma earlier_token_file:
  assumes "distinct (map ce_index ms)" "m \<in> set ms"
  shows "earlier_token (Some (cluster_file url ms)) (ce_index m) = Some (ce_apiToken m)"
proof -
  have "List.find (\<lambda>v. cm_index v = Fin (of_nat (ce_index m))) (cluster_file url ms)
      = map_option (\<lambda>m. \<lparr>cm_index = Fin (of_nat (ce_index m)), cm_url = url (ce_index m),
          cm_identityKey = id_publicKey (ce_identity m), cm_apiToken = ce_apiToken m\<rparr>) (List.find (\<lambda>x. ce_index x = ce_index m) ms)"
    by (induction ms) (simp_all add: cluster_file_def)
  then show ?thesis by (simp add: earlier_token_def find_index [OF assms])
qed

text \<open>The next start, from the files the first one wrote.\<close>

lemma cluster_members_again:
  assumes "cluster_members E secrets stored tokens previous n = Inr ms"
  shows "cluster_members E secrets' (\<lambda>i. map_option (identity_text stored) (List.find (\<lambda>m. ce_index m = i) ms)) tokens'
      (Some (cluster_file url ms)) n = Inr ms"
proof -
  let ?st = "\<lambda>i. map_option (identity_text stored) (List.find (\<lambda>m. ce_index m = i) ms)"
  note c = cluster_members_Inr [OF assms]
  have d: "distinct (map ce_index ms)" unfolding c(1) by simp
  have m: "cluster_member_of E secrets' ?st tokens' (Some (cluster_file url ms)) (ce_index m) = Inr m" if m: "m \<in> set ms" for m
  proof -
    obtain w where "loadOrCreateIdentity E (secrets (ce_index m)) (stored (ce_index m)) = Inr (ce_identity m, w)"
      by (rule cluster_member_Inr [OF c(2) [OF m]])
    from identity_kept [OF this, of "secrets' (ce_index m)"]
    have "loadOrCreateIdentity E (secrets' (ce_index m)) (?st (ce_index m)) = Inr (ce_identity m, None)"
      by (simp add: find_index [OF d m] identity_text_def)
    then show ?thesis by (simp add: cluster_member_of_def earlier_token_file [OF d m])
  qed
  have "length ms = n" using arg_cong [OF c(1), of length] by simp
  show ?thesis
    unfolding cluster_members_def emap_eq_Inr
  proof (rule list_all2_all_nthI)
    show "length [1..<n + 1] = length ms" using \<open>length ms = n\<close> by simp
  next
    fix k assume "k < length [1..<n + 1]"
    then have k: "k < length ms" using \<open>length ms = n\<close> by (simp only: length_upt)
    then have "ce_index (ms ! k) = [1..<n + 1] ! k" by (simp only: c(1) [symmetric] nth_map)
    then show "cluster_member_of E secrets' ?st tokens' (Some (cluster_file url ms)) ([1..<n + 1] ! k) = Inr (ms ! k)"
      using m [OF nth_mem [OF k]] by simp
  qed
qed

section \<open>Properties\<close>

text \<open>C26: The cluster a start writes works and stays.  When \<open>devCluster\<close> has made its members, the coordinator
  accepts the cluster file; every validator process, started with its environment and identity
  file, comes up with its own index, identity and the whole peer list; and the next start, from
  the files of this one, yields the same members: no identity or token is made anew.\<close>

theorem cluster_starts:
  assumes "ed25519_laws E" "cluster_members E secrets stored tokens previous n = Inr ms" "0 < n" "n < 2 ^ 53"
    and "\<forall>i. length (tokens i) = 32" "\<forall>i t. earlier_token previous i = Some t \<longrightarrow> 32 \<le> length t" "\<forall>i. keyDir i \<noteq> []"
  shows "loadClusterFile (Some (cluster_file (dev_url basePort) ms)) = Inr (loaded_members (dev_url basePort) ms) \<and>
    (\<forall>m \<in> set ms. \<exists>v. startValidator E (dev_env env keyDir basePort ms m) s (Some (identity_text stored m)) None = Inr (v, ce_apiToken m) \<and>
       lv_index v = int (ce_index m) \<and> lv_identity v = ce_identity m \<and> lv_peers v = peers_of ms) \<and>
    cluster_members E secrets' (\<lambda>i. map_option (identity_text stored) (List.find (\<lambda>m. ce_index m = i) ms)) tokens'
      (Some (cluster_file (dev_url basePort) ms)) n = Inr ms"
proof -
  note c = cluster_members_Inr [OF assms(2)]
  have d: "distinct (map ce_index ms)" unfolding c(1) by simp
  have ne: "ms \<noteq> []" using c(1) assms(3) by auto
  have i: "1 \<le> ce_index m \<and> ce_index m < 2 ^ 53" if "m \<in> set ms" for m
  proof -
    have "ce_index m \<in> set (map ce_index ms)" using that by simp
    then show ?thesis unfolding c(1) using assms(4) by auto
  qed
  have m: "\<exists>w. loadOrCreateIdentity E (secrets (ce_index m)) (stored (ce_index m)) = Inr (ce_identity m, w)"
    "32 \<le> length (ce_apiToken m)" if mm: "m \<in> set ms" for m
  proof -
    obtain w where w: "loadOrCreateIdentity E (secrets (ce_index m)) (stored (ce_index m)) = Inr (ce_identity m, w)"
      "ce_apiToken m = (case earlier_token previous (ce_index m) of Some t \<Rightarrow> t | None \<Rightarrow> bytesToHex (tokens (ce_index m)))"
      by (rule cluster_member_Inr [OF c(2) [OF mm]])
    then show "\<exists>w. loadOrCreateIdentity E (secrets (ce_index m)) (stored (ce_index m)) = Inr (ce_identity m, w)" by blast
    show "32 \<le> length (ce_apiToken m)" using w(2) assms(5,6) by (auto simp: length_bytesToHex split: option.splits)
  qed
  have k: "is_key_hex (id_publicKey (ce_identity m))" if "m \<in> set ms" for m
    using m(1) [OF that] identity_key [OF assms(1)] by blast
  have s: "\<exists>v. startValidator E (dev_env env keyDir basePort ms m) s (Some (identity_text stored m)) None = Inr (v, ce_apiToken m) \<and>
       lv_index v = int (ce_index m) \<and> lv_identity v = ce_identity m \<and> lv_peers v = peers_of ms" if "m \<in> set ms" for m
    using m(1) [OF that] identity_kept [of E "secrets (ce_index m)" "stored (ce_index m)" "ce_identity m" _ s]
    by (intro startValidator_member) (use that d i k m(2) assms(7) in \<open>auto simp: identity_text_def\<close>)
  show ?thesis
    using loadClusterFile_cluster [OF ne d, of "dev_url basePort"] i k m(2) is_http_dev s cluster_members_again [OF assms(2)] by simp
qed

theorem cluster_starts_witness:
  "\<exists>ms. cluster_members sample_ed25519 (\<lambda>i. replicate 32 (of_nat i)) (\<lambda>_. None) (\<lambda>i. replicate 32 7) None 3 = Inr ms \<and> length ms = 3 \<and>
     loadClusterFile (Some (cluster_file (dev_url 6000) ms)) = Inr (loaded_members (dev_url 6000) ms) \<and>
     list_all (\<lambda>m. \<exists>v. startValidator sample_ed25519 (dev_env (\<lambda>_. None) (\<lambda>_. js ''d'') 6000 ms m) [] (Some (identity_text (\<lambda>_. None) m)) None
       = Inr (v, ce_apiToken m) \<and> lv_index v = int (ce_index m)) ms"
proof -
  have "\<exists>m. cluster_member_of sample_ed25519 (\<lambda>i. replicate 32 (of_nat i)) (\<lambda>_. None) (\<lambda>i. replicate 32 7) None i = Inr m" for i
    by (simp add: cluster_member_of_def loadOrCreateIdentity_def generateIdentity_def sample_ed25519_def)
  then have "is_ok (cluster_members sample_ed25519 (\<lambda>i. replicate 32 (of_nat i)) (\<lambda>_. None) (\<lambda>i. replicate 32 7) None 3)"
    unfolding cluster_members_def emap_ok_iff by (metis is_ok_simps(2))
  then obtain ms where ms: "cluster_members sample_ed25519 (\<lambda>i. replicate 32 (of_nat i)) (\<lambda>_. None) (\<lambda>i. replicate 32 7) None 3 = Inr ms"
    by (rule is_okE)
  have "length ms = 3" using arg_cong [OF cluster_members_Inr(1) [OF ms], of length] by simp
  moreover have "loadClusterFile (Some (cluster_file (dev_url 6000) ms)) = Inr (loaded_members (dev_url 6000) ms) \<and>
    (\<forall>m \<in> set ms. \<exists>v. startValidator sample_ed25519 (dev_env (\<lambda>_. None) (\<lambda>_. js ''d'') 6000 ms m) [] (Some (identity_text (\<lambda>_. None) m)) None
        = Inr (v, ce_apiToken m) \<and> lv_index v = int (ce_index m) \<and> lv_identity v = ce_identity m \<and> lv_peers v = peers_of ms) \<and>
    cluster_members sample_ed25519 (\<lambda>_. []) (\<lambda>i. map_option (identity_text (\<lambda>_. None)) (List.find (\<lambda>m. ce_index m = i) ms)) (\<lambda>_. [])
      (Some (cluster_file (dev_url 6000) ms)) 3 = Inr ms"
    by (rule cluster_starts [OF sample_ed25519_laws ms]) (simp_all add: earlier_token_def js_def)
  ultimately show ?thesis using ms by (auto simp: list_all_iff)
qed

end
