(* ===== verification/SettlementEngine.thy ===== *)
theory SettlementEngine
  imports Prelude "HOL-Library.Signed_Division"
begin

text \<open>
  The \<open>settlement-engine\<close> contract (\<open>contracts/settlement-engine/src/lib.rs\<close>): constant-product
  pools, liquidity shares, and the settlement of a batch of opened orders against the pools.

  An entry point is a function of the contract's storage and of the world outside it (the token
  contracts), and returns both updated.  \<open>Inl\<close> is a failed call: an error the contract returns, or
  a panic.  The host rolls back everything a failed call did, so a failure carries no state.
  \<open>i128\<close> values are integers whose range is checked at every operation, as the contract is built
  with \<open>overflow-checks = true\<close>.  Addresses are any linearly ordered type: the code only compares
  them.  Storage lifetimes (\<open>extend_ttl\<close>) are not modelled.

  The token contracts are not part of the repository.  They are the argument \<open>T\<close>, whose laws
  (\<open>token_laws\<close>) are what the token interface SEP-41 documents.
\<close>

section \<open>Values of the contract\<close>

datatype settlement_error =
    AlreadyInitialized | NotInitialized | BatchAlreadySettled | InsufficientOutput | EmptyPool
  | InsufficientLiquidity

datatype failure = Returned settlement_error | Panic

record 'a engine_order =
  se_user :: 'a
  se_token_in :: 'a
  se_token_out :: 'a
  se_amount_in :: int
  se_min_amount_out :: int

record 'a engine_result =
  er_user :: 'a
  er_token_in :: 'a
  er_token_out :: 'a
  er_amount_in :: int
  er_amount_out :: int
  er_fee :: int

text \<open>The storage: one association list for each symbol that prefixes a key.\<close>

record 'a engine =
  e_admin :: "'a option"
  e_pool :: "(('a \<times> 'a) \<times> (int \<times> int)) list"
  e_supply :: "(('a \<times> 'a) \<times> int) list"
  e_lp_bal :: "(('a \<times> 'a \<times> 'a) \<times> int) list"
  e_fees :: "('a \<times> int) list"
  e_results :: "(byte list \<times> 'a engine_result list) list"

definition new_engine :: "'a engine" where
  "new_engine = \<lparr>e_admin = None, e_pool = [], e_supply = [], e_lp_bal = [], e_fees = [], e_results = []\<rparr>"

text \<open>\<open>storage.get(key).unwrap_or(default)\<close>.\<close>

definition get_or :: "'v \<Rightarrow> ('k \<times> 'v) list \<Rightarrow> 'k \<Rightarrow> 'v" where
  "get_or d m k = (case map_of m k of None \<Rightarrow> d | Some v \<Rightarrow> v)"

definition FEE_BPS :: int where "FEE_BPS = 30"
definition BPS_DENOMINATOR :: int where "BPS_DENOMINATOR = 10000"

text \<open>An \<open>i128\<close> result, and the division, which truncates towards zero.\<close>

definition i128 :: "int \<Rightarrow> failure + int" where
  "i128 n = (if - (2 ^ 127) \<le> n \<and> n < 2 ^ 127 then Inr n else Inl Panic)"

definition i128_div :: "int \<Rightarrow> int \<Rightarrow> failure + int" where
  "i128_div m n = (if n = 0 then Inl Panic else i128 (m sdiv n))"

text \<open>\<open>(x * y) / z\<close>.\<close>

definition mul_div :: "int \<Rightarrow> int \<Rightarrow> int \<Rightarrow> failure + int" where
  "mul_div x y z = ebind (i128 (x * y)) (\<lambda>p. i128_div p z)"

section \<open>The token contracts\<close>

text \<open>
  In the world \<open>w\<close>, on the token contract \<open>t\<close>: \<open>tk_transfer T w t from to amount\<close> and
  \<open>tk_transfer_from T w t spender from to amount\<close> give the world afterwards, or \<open>None\<close> when the
  token contract panics.
\<close>

record ('a, 'w) tokens =
  tk_transfer :: "'w \<Rightarrow> 'a \<Rightarrow> 'a \<Rightarrow> 'a \<Rightarrow> int \<Rightarrow> 'w option"
  tk_transfer_from :: "'w \<Rightarrow> 'a \<Rightarrow> 'a \<Rightarrow> 'a \<Rightarrow> 'a \<Rightarrow> int \<Rightarrow> 'w option"
  tk_balance :: "'w \<Rightarrow> 'a \<Rightarrow> 'a \<Rightarrow> int"
  tk_allowance :: "'w \<Rightarrow> 'a \<Rightarrow> 'a \<Rightarrow> 'a \<Rightarrow> int"

definition call_token :: "'w option \<Rightarrow> failure + 'w" where
  "call_token r = (case r of None \<Rightarrow> Inl Panic | Some w \<Rightarrow> Inr w)"

section \<open>Entry points\<close>

definition initialize :: "'a engine \<Rightarrow> 'a \<Rightarrow> failure + 'a engine" where
  "initialize e admin =
     (if e_admin e \<noteq> None then Inl (Returned AlreadyInitialized) else Inr (e\<lparr>e_admin := Some admin\<rparr>))"

definition pool_key :: "'a::linorder \<Rightarrow> 'a \<Rightarrow> 'a \<times> 'a" where
  "pool_key token_a token_b = (if token_a < token_b then (token_a, token_b) else (token_b, token_a))"

definition get_reserves_ordered :: "'a::linorder engine \<Rightarrow> 'a \<Rightarrow> 'a \<Rightarrow> int \<times> int" where
  "get_reserves_ordered e token_a token_b =
     (let key = pool_key token_a token_b;
          (reserve_key_a, reserve_key_b) = get_or (0, 0) (e_pool e) key
      in if token_a = fst key then (reserve_key_a, reserve_key_b) else (reserve_key_b, reserve_key_a))"

definition set_reserves_ordered :: "'a::linorder engine \<Rightarrow> 'a \<Rightarrow> 'a \<Rightarrow> int \<Rightarrow> int \<Rightarrow> 'a engine" where
  "set_reserves_ordered e token_a token_b reserve_a reserve_b =
     (let key = pool_key token_a token_b;
          ordered = (if token_a = fst key then (reserve_a, reserve_b) else (reserve_b, reserve_a))
      in e\<lparr>e_pool := AList.update key ordered (e_pool e)\<rparr>)"

text \<open>The loop of \<open>isqrt\<close>; its variables are never negative.\<close>

function isqrt_loop :: "nat \<Rightarrow> nat \<Rightarrow> nat \<Rightarrow> failure + int" where
  "isqrt_loop v x y =
     (if y < x then
        (if y = 0 then Inl Panic
         else ebind (i128 (int (y + v div y))) (\<lambda>s. isqrt_loop v y (nat s div 2)))
      else Inr (int x))"
  by pat_completeness auto

termination
  by (relation "measure (\<lambda>(v, x, y). x)") auto

declare isqrt_loop.simps [simp del]

definition isqrt :: "int \<Rightarrow> failure + int" where
  "isqrt n =
     (if n < 2 then Inr (max n 0)
      else ebind (i128 (n + 1)) (\<lambda>s. isqrt_loop (nat n) (nat n) (nat s div 2)))"

text \<open>
  \<open>auths\<close>: the addresses whose authorization the call carries.  \<open>self\<close>: the address of the
  contract.
\<close>

definition add_liquidity ::
  "('a::linorder, 'w) tokens \<Rightarrow> 'a \<Rightarrow> 'a engine \<Rightarrow> 'w \<Rightarrow> 'a set \<Rightarrow> 'a \<Rightarrow> 'a \<Rightarrow> 'a \<Rightarrow> int \<Rightarrow> int
     \<Rightarrow> failure + (int \<times> 'a engine \<times> 'w)" where
  "add_liquidity T self e w auths user token_a token_b amount_a amount_b =
     (if user \<notin> auths then Inl Panic
      else
        (let (reserve_a, reserve_b) = get_reserves_ordered e token_a token_b;
             key = pool_key token_a token_b;
             total_supply = get_or 0 (e_supply e) key
         in ebind
              (if total_supply = 0 then ebind (i128 (amount_a * amount_b)) isqrt
               else ebind (mul_div amount_a total_supply reserve_a) (\<lambda>tokens_from_a.
                    ebind (mul_div amount_b total_supply reserve_b) (\<lambda>tokens_from_b.
                      Inr (min tokens_from_a tokens_from_b)))) (\<lambda>lp_tokens.
            ebind (call_token (tk_transfer T w token_a user self amount_a)) (\<lambda>w1.
            ebind (call_token (tk_transfer T w1 token_b user self amount_b)) (\<lambda>w2.
            ebind (i128 (reserve_a + amount_a)) (\<lambda>reserve_a'.
            ebind (i128 (reserve_b + amount_b)) (\<lambda>reserve_b'.
            ebind (i128 (total_supply + lp_tokens)) (\<lambda>total_supply'.
            ebind (i128 (get_or 0 (e_lp_bal e) (user, key) + lp_tokens)) (\<lambda>balance'.
              Inr (lp_tokens,
                (set_reserves_ordered e token_a token_b reserve_a' reserve_b')
                  \<lparr>e_supply := AList.update key total_supply' (e_supply e),
                   e_lp_bal := AList.update (user, key) balance' (e_lp_bal e)\<rparr>, w2))))))))))"

definition remove_liquidity ::
  "('a::linorder, 'w) tokens \<Rightarrow> 'a \<Rightarrow> 'a engine \<Rightarrow> 'w \<Rightarrow> 'a set \<Rightarrow> 'a \<Rightarrow> 'a \<Rightarrow> 'a \<Rightarrow> int
     \<Rightarrow> failure + ((int \<times> int) \<times> 'a engine \<times> 'w)" where
  "remove_liquidity T self e w auths user token_a token_b lp_tokens =
     (if user \<notin> auths then Inl Panic
      else
        (let key = pool_key token_a token_b;
             lp_balance = get_or 0 (e_lp_bal e) (user, key);
             total_supply = get_or 0 (e_supply e) key;
             (reserve_a, reserve_b) = get_reserves_ordered e token_a token_b
         in if lp_tokens > lp_balance then Inl (Returned InsufficientLiquidity)
            else if total_supply = 0 then Inl (Returned EmptyPool)
            else
              ebind (mul_div lp_tokens reserve_a total_supply) (\<lambda>amount_a.
              ebind (mul_div lp_tokens reserve_b total_supply) (\<lambda>amount_b.
              ebind (i128 (reserve_a - amount_a)) (\<lambda>reserve_a'.
              ebind (i128 (reserve_b - amount_b)) (\<lambda>reserve_b'.
              ebind (i128 (total_supply - lp_tokens)) (\<lambda>total_supply'.
              ebind (i128 (lp_balance - lp_tokens)) (\<lambda>lp_balance'.
              ebind (call_token (tk_transfer T w token_a self user amount_a)) (\<lambda>w1.
              ebind (call_token (tk_transfer T w1 token_b self user amount_b)) (\<lambda>w2.
                Inr ((amount_a, amount_b),
                  (set_reserves_ordered e token_a token_b reserve_a' reserve_b')
                    \<lparr>e_supply := AList.update key total_supply' (e_supply e),
                     e_lp_bal := AList.update (user, key) lp_balance' (e_lp_bal e)\<rparr>, w2)))))))))))"

definition get_reserves :: "'a::linorder engine \<Rightarrow> 'a \<Rightarrow> 'a \<Rightarrow> int \<times> int" where
  "get_reserves e token_a token_b = get_reserves_ordered e token_a token_b"

definition quote_swap :: "'a::linorder engine \<Rightarrow> 'a engine_order \<Rightarrow> failure + (int \<times> int)" where
  "quote_swap e ord =
     (let (reserve_in, reserve_out) = get_reserves_ordered e (se_token_in ord) (se_token_out ord)
      in if reserve_in = 0 \<or> reserve_out = 0 then Inl (Returned EmptyPool)
         else
           ebind (mul_div (se_amount_in ord) FEE_BPS BPS_DENOMINATOR) (\<lambda>fee.
           ebind (i128 (se_amount_in ord - fee)) (\<lambda>amount_in_after_fee.
           ebind (i128 (amount_in_after_fee * reserve_out)) (\<lambda>n.
           ebind (i128 (reserve_in + amount_in_after_fee)) (\<lambda>d.
           ebind (i128_div n d) (\<lambda>amount_out.
             if amount_out < se_min_amount_out ord then Inl (Returned InsufficientOutput)
             else Inr (amount_out, fee)))))))"

text \<open>One round of the loop of \<open>settle_batch\<close>.\<close>

definition settle_order ::
  "('a::linorder, 'w) tokens \<Rightarrow> 'a \<Rightarrow> 'a engine \<times> 'w \<times> 'a engine_result list \<Rightarrow> 'a engine_order
     \<Rightarrow> failure + ('a engine \<times> 'w \<times> 'a engine_result list)" where
  "settle_order T self st ord =
     (case st of (e, w, results) \<Rightarrow>
        ebind (quote_swap e ord) (\<lambda>(amount_out, fee).
          (let (reserve_in, reserve_out) = get_reserves_ordered e (se_token_in ord) (se_token_out ord)
           in ebind (i128 (reserve_in + se_amount_in ord)) (\<lambda>reserve_in'.
              ebind (i128 (reserve_out - amount_out)) (\<lambda>reserve_out'.
              ebind (call_token (tk_transfer_from T w (se_token_in ord) self (se_user ord) self (se_amount_in ord))) (\<lambda>w1.
              ebind (call_token (tk_transfer T w1 (se_token_out ord) self (se_user ord) amount_out)) (\<lambda>w2.
              ebind (i128 (get_or 0 (e_fees e) (se_token_in ord) + fee)) (\<lambda>accrued'.
                Inr ((set_reserves_ordered e (se_token_in ord) (se_token_out ord) reserve_in' reserve_out')
                       \<lparr>e_fees := AList.update (se_token_in ord) accrued' (e_fees e)\<rparr>, w2,
                     results @ [\<lparr>er_user = se_user ord, er_token_in = se_token_in ord,
                       er_token_out = se_token_out ord, er_amount_in = se_amount_in ord,
                       er_amount_out = amount_out, er_fee = fee\<rparr>])))))))))"

definition settle_batch ::
  "('a::linorder, 'w) tokens \<Rightarrow> 'a \<Rightarrow> 'a engine \<Rightarrow> 'w \<Rightarrow> byte list \<Rightarrow> 'a engine_order list
     \<Rightarrow> failure + ('a engine_result list \<times> 'a engine \<times> 'w)" where
  "settle_batch T self e w batch_id decrypted_orders =
     (if map_of (e_results e) batch_id \<noteq> None then Inl (Returned BatchAlreadySettled)
      else ebind (efold (settle_order T self) (e, w, []) decrypted_orders) (\<lambda>(e', w', results).
        Inr (results, e'\<lparr>e_results := AList.update batch_id results (e_results e')\<rparr>, w')))"

definition get_settlement_results :: "'a engine \<Rightarrow> byte list \<Rightarrow> 'a engine_result list" where
  "get_settlement_results e batch_id = get_or [] (e_results e) batch_id"

definition collect_fees ::
  "('a, 'w) tokens \<Rightarrow> 'a \<Rightarrow> 'a engine \<Rightarrow> 'w \<Rightarrow> 'a set \<Rightarrow> 'a \<Rightarrow> 'a \<Rightarrow> failure + (int \<times> 'a engine \<times> 'w)" where
  "collect_fees T self e w auths receiver token =
     (case e_admin e of None \<Rightarrow> Inl (Returned NotInitialized)
      | Some admin \<Rightarrow>
          if admin \<notin> auths then Inl Panic
          else
            (let accumulated = get_or 0 (e_fees e) token
             in if accumulated > 0 then
                  ebind (call_token (tk_transfer T w token self receiver accumulated)) (\<lambda>w'.
                    Inr (accumulated, e\<lparr>e_fees := AList.update token 0 (e_fees e)\<rparr>, w'))
                else Inr (accumulated, e, w)))"

section \<open>What the token interface promises\<close>

definition moved :: "('a, 'w) tokens \<Rightarrow> 'w \<Rightarrow> 'w \<Rightarrow> 'a \<Rightarrow> 'a \<Rightarrow> 'a \<Rightarrow> int \<Rightarrow> bool" where
  "moved T w w' t f r n \<longleftrightarrow> 0 \<le> n \<and> (\<forall>t' u. tk_balance T w' t' u =
     tk_balance T w t' u - (if t' = t \<and> u = f then n else 0) + (if t' = t \<and> u = r then n else 0))"

definition token_laws :: "('a, 'w) tokens \<Rightarrow> bool" where
  "token_laws T \<longleftrightarrow>
     (\<forall>w t f r n w'. tk_transfer T w t f r n = Some w' \<longrightarrow>
        moved T w w' t f r n \<and> n \<le> tk_balance T w t f \<and>
        (\<forall>t' u s. tk_allowance T w' t' u s = tk_allowance T w t' u s)) \<and>
     (\<forall>w t s f r n w'. tk_transfer_from T w t s f r n = Some w' \<longrightarrow>
        moved T w w' t f r n \<and> n \<le> tk_balance T w t f \<and> n \<le> tk_allowance T w t f s \<and>
        (\<forall>t' u s'. tk_allowance T w' t' u s' \<le> tk_allowance T w t' u s'))"

text \<open>The interface of a token contract, for the lemmas of its client.\<close>

locale token_contract =
  fixes T :: "('a::linorder, 'w) tokens"
  assumes laws: "token_laws T"

section \<open>Arithmetic\<close>

lemma i128_Inr: "i128 n = Inr m \<longleftrightarrow> m = n \<and> - (2 ^ 127) \<le> n \<and> n < 2 ^ 127"
  by (auto simp: i128_def)

lemma i128_div_Inr: "i128_div m n = Inr q \<longleftrightarrow> n \<noteq> 0 \<and> q = m sdiv n \<and> - (2 ^ 127) \<le> q \<and> q < 2 ^ 127"
  by (auto simp: i128_div_def i128_def)

lemma mul_div_Inr:
  "mul_div x y z = Inr q \<longleftrightarrow>
     z \<noteq> 0 \<and> q = (x * y) sdiv z \<and> - (2 ^ 127) \<le> x * y \<and> x * y < 2 ^ 127 \<and> - (2 ^ 127) \<le> q \<and> q < 2 ^ 127"
  by (auto simp: mul_div_def ebind_eq_Inr i128_Inr i128_div_Inr)

lemma sdiv_nonneg: "0 \<le> m \<Longrightarrow> 0 < n \<Longrightarrow> m sdiv n = m div (n :: int)"
  by (auto simp: signed_divide_int_def sgn_if)

lemma sdiv_neg: "m < 0 \<Longrightarrow> 0 < n \<Longrightarrow> m sdiv n = - (- m div (n :: int))"
  by (auto simp: signed_divide_int_def sgn_if)

text \<open>Newton's iteration stays at or above the root, and stops only at it.\<close>

lemma newton_above:
  fixes v x :: nat
  assumes "0 < x"
  shows "v < ((x + v div x) div 2 + 1) ^ 2"
proof (rule ccontr)
  define y where "y = (x + v div x) div 2"
  assume "\<not> ?thesis"
  then have "(y + 1)\<^sup>2 \<le> v" by (simp add: y_def)
  moreover have "x + v div x + 1 \<le> 2 * (y + 1)" by (simp add: y_def)
  then have "x * (x + v div x + 1) \<le> 2 * (x * (y + 1))"
    using mult_le_mono2 [of "x + v div x + 1" "2 * (y + 1)" x] by (simp only: mult.left_commute)
  moreover have "v < x * (v div x + 1)"
    using assms by (metis Suc_eq_plus1 dividend_less_times_div mult_Suc_right add.commute)
  ultimately have "x * x + (y + 1)\<^sup>2 < 2 * (x * (y + 1))"
    by (simp only: distrib_left mult_1_right)
  then have "int (x * x + (y + 1)\<^sup>2) < int (2 * (x * (y + 1)))" by (simp only: of_nat_less_iff)
  then have "int x * int x + (int y + 1) ^ 2 < 2 * (int x * (int y + 1))" by (simp add: algebra_simps)
  moreover have "0 \<le> (int x - (int y + 1)) ^ 2" by simp
  ultimately show False by (simp add: algebra_simps power2_eq_square)
qed

lemma newton_exit:
  fixes v x :: nat
  assumes "0 < x" and "x \<le> (x + v div x) div 2"
  shows "x ^ 2 \<le> v"
proof -
  have "x \<le> v div x" using assms(2) by linarith
  then have "x * x \<le> x * (v div x)" by simp
  also have "\<dots> \<le> v" by simp
  finally show ?thesis by (simp add: power2_eq_square)
qed

lemma quotient_sum:
  fixes v y :: nat
  assumes "1 \<le> y" and "y \<le> v"
  shows "y + v div y \<le> v + 1"
proof -
  obtain q where q: "v div y = q + 1" using assms by (metis Suc_eq_plus1 div_greater_zero_iff gr0_implies_Suc less_le_trans zero_less_one)
  obtain z where z: "y = z + 1" using assms(1) by (metis add.commute le_Suc_ex)
  have "y * (v div y) \<le> v" by simp
  then have "z * q + z + q + 1 \<le> v" using q z by (simp add: algebra_simps)
  then show ?thesis using q z by simp
qed

lemma isqrt_loop_correct:
  assumes "2 \<le> v" and "int v + 1 < 2 ^ 127" and "0 < x" and "x \<le> v" and "v < (x + 1) ^ 2"
    and "y = (x + v div x) div 2"
  shows "\<exists>r. isqrt_loop v x y = Inr (int r) \<and> r ^ 2 \<le> v \<and> v < (r + 1) ^ 2"
  using assms(3-)
proof (induction x arbitrary: y rule: less_induct)
  case (less x)
  show ?case
  proof (cases "y < x")
    case False
    then have "x ^ 2 \<le> v" using less.prems newton_exit by simp
    then show ?thesis
      using False less.prems by (intro exI [of _ x], subst isqrt_loop.simps) simp
  next
    case True
    have "2 \<le> x + v div x" using less.prems assms(1)
      by (cases "x = 1") (auto intro: le_trans)
    then have y: "1 \<le> y" "y \<le> v" using less.prems True by linarith+
    have sum: "int (y + v div y) < 2 ^ 127" using quotient_sum [OF y] assms(2) by linarith
    have above: "v < (y + 1) ^ 2" using newton_above [OF less.prems(1)] less.prems(4) by simp
    have "isqrt_loop v x y = isqrt_loop v y ((y + v div y) div 2)"
      using True y sum by (simp add: isqrt_loop.simps [of v x y] i128_def nat_add_distrib)
    then show ?thesis using less.IH [OF True, of "(y + v div y) div 2"] y above by simp
  qed
qed

lemma isqrt_correct:
  assumes "0 \<le> n" and "n < 2 ^ 127 - 1"
  shows "\<exists>r. isqrt n = Inr r \<and> 0 \<le> r \<and> r ^ 2 \<le> n \<and> n < (r + 1) ^ 2"
proof (cases "n < 2")
  case True
  then have "n = 0 \<or> n = 1" using assms(1) by linarith
  then show ?thesis by (auto simp: isqrt_def)
next
  case False
  define v where "v = nat n"
  have v: "2 \<le> v" "int v + 1 < 2 ^ 127" "int v = n" using False assms by (auto simp: v_def)
  have "v < (v + 1) ^ 2" by (simp add: power2_eq_square)
  from isqrt_loop_correct [OF v(1,2) _ _ this] obtain r
    where r: "isqrt_loop v v ((v + v div v) div 2) = Inr (int r)" "r ^ 2 \<le> v" "v < (r + 1) ^ 2" using v(1) by auto
  have "isqrt n = Inr (int r)"
    using r(1) False v by (simp add: isqrt_def i128_def nat_add_distrib flip: v_def)
  moreover have "int r ^ 2 \<le> n" "n < (int r + 1) ^ 2"
    using r(2,3) v(3) by (metis of_nat_mono of_nat_power, metis of_nat_less_iff of_nat_power of_nat_add of_nat_1)
  ultimately show ?thesis by auto
qed

lemma isqrt_Inr:
  assumes "isqrt n = Inr r" and "0 \<le> n" and "n < 2 ^ 127"
  shows "0 \<le> r \<and> r ^ 2 \<le> n"
proof -
  have "n < 2 ^ 127 - 1" using assms by (auto simp: isqrt_def i128_def split: if_splits)
  then show ?thesis using isqrt_correct [OF assms(2)] assms(1) by auto
qed

section \<open>Sums over the storage\<close>

lemma get_or_simps [simp]: "get_or d [] k = d"
  by (simp add: get_or_def)

lemma get_or_update [simp]: "get_or d (AList.update k v m) k' = (if k' = k then v else get_or d m k')"
  by (simp add: get_or_def update_conv)

lemma sum_update:
  fixes g :: "'k \<times> 'v \<Rightarrow> int"
  assumes "distinct (map fst m)" and "g (k, d) = 0"
  shows "(\<Sum>x\<leftarrow>AList.update k v m. g x) = (\<Sum>x\<leftarrow>m. g x) - g (k, get_or d m k) + g (k, v)"
  using assms(1)
proof (induction m)
  case Nil
  then show ?case by (simp add: assms(2))
next
  case (Cons x m)
  have "get_or d m k = d" if "k \<notin> fst ` set m"
    using that by (simp add: get_or_def map_of_eq_None_iff [symmetric] del: map_of_eq_None_iff)
  then show ?case using Cons by (cases x) (auto simp: get_or_def)
qed

text \<open>What the pools say the contract holds of a token.\<close>

definition pool_share :: "'a \<Rightarrow> ('a \<times> 'a) \<times> (int \<times> int) \<Rightarrow> int" where
  "pool_share t p = (case p of ((token_a, token_b), (x, y)) \<Rightarrow>
     (if token_a = t then x else 0) + (if token_b = t then y else 0))"

definition held :: "'a engine \<Rightarrow> 'a \<Rightarrow> int" where
  "held e t = (\<Sum>p\<leftarrow>e_pool e. pool_share t p)"

text \<open>The shares of a pool that accounts own.\<close>

definition owned_share :: "'a \<times> 'a \<Rightarrow> ('a \<times> 'a \<times> 'a) \<times> int \<Rightarrow> int" where
  "owned_share key p = (case p of ((user, k), n) \<Rightarrow> if k = key then n else 0)"

definition owned :: "'a engine \<Rightarrow> 'a \<times> 'a \<Rightarrow> int" where
  "owned e key = (\<Sum>p\<leftarrow>e_lp_bal e. owned_share key p)"

lemma held_set_reserves:
  assumes "distinct (map fst (e_pool e))" and "get_reserves_ordered e a b = (x, y)"
  shows "held (set_reserves_ordered e a b x' y') t =
    held e t + (if a = t then x' - x else 0) + (if b = t then y' - y else 0)"
proof -
  have z: "pool_share t (pool_key a b, (0, 0)) = 0" by (cases "pool_key a b") (simp add: pool_share_def)
  have upd: "(\<Sum>p\<leftarrow>AList.update (pool_key a b) v (e_pool e). pool_share t p) = held e t
      - pool_share t (pool_key a b, get_or (0, 0) (e_pool e) (pool_key a b)) + pool_share t (pool_key a b, v)" for v
    unfolding held_def by (rule sum_update [OF assms(1), where g = "pool_share t" and d = "(0, 0)", OF z])
  obtain p q where pq: "get_or (0, 0) (e_pool e) (pool_key a b) = (p, q)" by fastforce
  show ?thesis
    using assms(2) unfolding held_def [of "set_reserves_ordered e a b x' y'"]
    by (auto simp: set_reserves_ordered_def get_reserves_ordered_def Let_def upd pq)
       (auto simp: pool_share_def pool_key_def)
qed

lemma owned_update:
  assumes "distinct (map fst (e_lp_bal e))"
  shows "owned (e\<lparr>e_lp_bal := AList.update (user, key) n (e_lp_bal e)\<rparr>) k =
    owned e k + (if k = key then n - get_or 0 (e_lp_bal e) (user, key) else 0)"
  using sum_update [OF assms, of "owned_share k" "(user, key)" 0 n] by (simp add: owned_def owned_share_def)

lemma pool_key_sym: "pool_key a b = pool_key b a"
  by (auto simp: pool_key_def)

lemma reserves_swapped: "get_reserves_ordered e b a = prod.swap (get_reserves_ordered e a b)" if "a \<noteq> b"
  using that by (auto simp: get_reserves_ordered_def Let_def pool_key_def split: prod.splits)

text \<open>The product of a pool's reserves, whichever way round they are read.\<close>

definition product :: "'a engine \<Rightarrow> 'a \<times> 'a \<Rightarrow> int" where
  "product e key = (case get_or (0, 0) (e_pool e) key of (x, y) \<Rightarrow> x * y)"

lemma reserves_product: "get_reserves_ordered e a b = (x, y) \<Longrightarrow> product e (pool_key a b) = x * y"
  by (auto simp: get_reserves_ordered_def product_def Let_def split: if_splits prod.splits)

lemma set_reserves_product:
  "product (set_reserves_ordered e a b x y) k = (if k = pool_key a b then x * y else product e k)"
  by (simp add: set_reserves_ordered_def product_def Let_def)

section \<open>The arithmetic of a pool\<close>

lemma quote_arith:
  fixes a x y :: int
  assumes "0 \<le> a" and "0 < x" and "0 < y" and "f = a * 30 div 10000" and "z = (a - f) * y div (x + (a - f))"
  shows "0 \<le> f \<and> f \<le> a \<and> 0 \<le> z \<and> z < y \<and> x * y \<le> (x + a) * (y - z) \<and> (a = 0 \<longrightarrow> z = 0)"
proof -
  have f: "0 \<le> f" "f \<le> a" using assms(1,4) by linarith+
  define b where "b = a - f"
  have b: "0 \<le> b" "b \<le> a" using f by (simp_all add: b_def)
  have z: "z = b * y div (x + b)" using assms(5) by (simp add: b_def)
  have pos: "0 < x + b" using assms(2) b by linarith
  have z0: "0 \<le> z" using z b assms(3) pos by (simp add: pos_imp_zdiv_nonneg_iff)
  have le: "z * (x + b) \<le> b * y"
    using div_mult_mod_eq [of "b * y" "x + b"] pos_mod_sign [OF pos, of "b * y"] unfolding z by linarith
  have "z < y"
  proof (rule ccontr)
    assume "\<not> z < y"
    then have "y * (x + b) \<le> z * (x + b)" using pos by (simp add: mult_right_mono)
    with le have "y * x \<le> 0" by (simp add: algebra_simps)
    then show False using mult_pos_pos [OF assms(3) assms(2)] by linarith
  qed
  moreover have "x * y \<le> (x + a) * (y - z)"
  proof (rule order_trans)
    show "x * y \<le> (x + b) * (y - z)" using le by (simp add: algebra_simps)
    show "(x + b) * (y - z) \<le> (x + a) * (y - z)" using b \<open>z < y\<close> by (intro mult_right_mono) auto
  qed
  moreover have "a = 0 \<Longrightarrow> z = 0" using z b by simp
  ultimately show ?thesis using f z0 by auto
qed

text \<open>Shares minted for a deposit, and burnt for a withdrawal, leave every share backed.\<close>

lemma deposit_arith:
  fixes a b x y S L :: int
  assumes "0 < S" and "S ^ 2 \<le> x * y" and "0 \<le> x" and "0 \<le> y" and "0 \<le> L" and "L * x \<le> a * S" and "L * y \<le> b * S"
  shows "(S + L) ^ 2 \<le> (x + a) * (y + b)"
proof -
  have "0 < S ^ 2" using assms(1) by simp
  then have xy: "0 < x * y" using assms(2) by linarith
  have 1: "(S + L) * x \<le> S * (x + a)" using assms(6) by (simp add: algebra_simps)
  have 2: "(S + L) * y \<le> S * (y + b)" using assms(7) by (simp add: algebra_simps)
  have n: "0 \<le> (S + L) * x" "0 \<le> (S + L) * y" using assms by simp_all
  have "((S + L) * x) * ((S + L) * y) \<le> (S * (x + a)) * (S * (y + b))"
    using mult_mono [OF 1 2] n 1 by linarith
  then have m: "(x * y) * (S + L) ^ 2 \<le> S ^ 2 * ((x + a) * (y + b))" by (simp add: power2_eq_square algebra_simps)
  have "0 \<le> S * (x + a)" "0 \<le> S * (y + b)" using 1 2 n by linarith+
  then have "0 \<le> x + a" "0 \<le> y + b" using assms(1) by (simp_all add: zero_le_mult_iff)
  then have "S ^ 2 * ((x + a) * (y + b)) \<le> (x * y) * ((x + a) * (y + b))"
    using assms(2) by (intro mult_right_mono) auto
  with m have "(x * y) * (S + L) ^ 2 \<le> (x * y) * ((x + a) * (y + b))" by linarith
  then show ?thesis using xy by (simp only: mult_le_cancel_left_pos)
qed

lemma withdraw_arith:
  fixes a b x y S L :: int
  assumes "0 < S" and "S ^ 2 \<le> x * y" and "0 \<le> x" and "0 \<le> y" and "0 \<le> L" and "L \<le> S"
    and "a * S \<le> L * x" and "b * S \<le> L * y"
  shows "(S - L) ^ 2 \<le> (x - a) * (y - b) \<and> a \<le> x \<and> b \<le> y"
proof -
  have "L * x \<le> S * x" "L * y \<le> S * y" using assms by (auto intro: mult_right_mono)
  then have "S * a \<le> S * x" "S * b \<le> S * y" using assms(7,8) by (simp_all add: mult.commute)
  then have ab: "a \<le> x" "b \<le> y" using assms(1) by simp_all
  have 1: "(S - L) * x \<le> S * (x - a)" using assms(7) by (simp add: algebra_simps)
  have 2: "(S - L) * y \<le> S * (y - b)" using assms(8) by (simp add: algebra_simps)
  have n: "0 \<le> (S - L) * x" "0 \<le> (S - L) * y" using assms by simp_all
  have "((S - L) * x) * ((S - L) * y) \<le> (S * (x - a)) * (S * (y - b))"
    using mult_mono [OF 1 2] n 1 by linarith
  then have "(S - L) ^ 2 * (x * y) \<le> S ^ 2 * ((x - a) * (y - b))" by (simp add: power2_eq_square algebra_simps)
  moreover have "(S - L) ^ 2 * S ^ 2 \<le> (S - L) ^ 2 * (x * y)" using assms(2) by (intro mult_left_mono) auto
  ultimately have "S ^ 2 * (S - L) ^ 2 \<le> S ^ 2 * ((x - a) * (y - b))" by (simp add: mult.commute)
  then show ?thesis using ab assms(1) by simp
qed

text \<open>Burning a negative number of shares would pay a negative amount on one side at least.\<close>

lemma negative_withdraw:
  fixes x y S L :: int
  assumes "0 < S" and "S ^ 2 \<le> x * y" and "0 \<le> x" and "0 \<le> y" and "L < 0"
    and "0 \<le> (L * x) sdiv S" and "0 \<le> (L * y) sdiv S"
  shows False
proof -
  have small: "u < S" if "0 \<le> u" "0 \<le> (L * u) sdiv S" for u
  proof (cases "u = 0")
    case False
    then have neg: "L * u < 0" using that(1) assms(5) by (simp add: mult_neg_pos)
    then have "- (L * u) div S \<le> 0" using that(2) sdiv_neg [OF neg assms(1)] by simp
    then have "- (L * u) < S" using assms(1) neg by (metis linorder_not_less neg_0_less_iff_less pos_imp_zdiv_pos_iff not_less)
    moreover have "1 * u \<le> (- L) * u" using that(1) assms(5) by (intro mult_right_mono) auto
    ultimately show ?thesis by simp
  qed (use assms(1) in simp)
  have "x * y \<le> (S - 1) * (S - 1)" using small [of x] small [of y] assms by (intro mult_mono) auto
  then show False using assms(1,2) by (simp add: power2_eq_square algebra_simps)
qed

section \<open>The invariant of the storage\<close>

definition engine_ok :: "'a engine \<Rightarrow> bool" where
  "engine_ok e \<longleftrightarrow>
     distinct (map fst (e_pool e)) \<and> distinct (map fst (e_lp_bal e)) \<and>
     (\<forall>key. 0 \<le> fst (get_or (0, 0) (e_pool e) key) \<and> 0 \<le> snd (get_or (0, 0) (e_pool e) key)) \<and>
     (\<forall>key. 0 \<le> get_or 0 (e_supply e) key \<and> get_or 0 (e_supply e) key ^ 2 \<le> product e key \<and>
        get_or 0 (e_supply e) key = owned e key) \<and>
     (\<forall>k. 0 \<le> get_or 0 (e_lp_bal e) k) \<and> (\<forall>t. 0 \<le> get_or 0 (e_fees e) t)"

lemma set_reserves_fields [simp]:
  "e_supply (set_reserves_ordered e a b x y) = e_supply e" "e_lp_bal (set_reserves_ordered e a b x y) = e_lp_bal e"
  "e_fees (set_reserves_ordered e a b x y) = e_fees e" "e_results (set_reserves_ordered e a b x y) = e_results e"
  "e_admin (set_reserves_ordered e a b x y) = e_admin e"
  "distinct (map fst (e_pool e)) \<Longrightarrow> distinct (map fst (e_pool (set_reserves_ordered e a b x y)))"
  "get_or d (e_pool (set_reserves_ordered e a b x y)) k =
     (if k = pool_key a b then (if a = fst (pool_key a b) then (x, y) else (y, x)) else get_or d (e_pool e) k)"
  by (simp_all add: set_reserves_ordered_def Let_def distinct_update)

lemma engine_okD:
  assumes "engine_ok e"
  shows "distinct (map fst (e_pool e))" and "distinct (map fst (e_lp_bal e))"
    and "0 \<le> fst (get_or (0, 0) (e_pool e) key)" and "0 \<le> snd (get_or (0, 0) (e_pool e) key)"
    and "0 \<le> get_or 0 (e_supply e) key" and "get_or 0 (e_supply e) key ^ 2 \<le> product e key"
    and "get_or 0 (e_supply e) key = owned e key" and "0 \<le> get_or 0 (e_lp_bal e) k" and "0 \<le> get_or 0 (e_fees e) t"
  using assms unfolding engine_ok_def by blast+

lemma engine_okI:
  assumes "distinct (map fst (e_pool e))" and "distinct (map fst (e_lp_bal e))"
    and "\<And>key. 0 \<le> fst (get_or (0, 0) (e_pool e) key)" and "\<And>key. 0 \<le> snd (get_or (0, 0) (e_pool e) key)"
    and "\<And>key. 0 \<le> get_or 0 (e_supply e) key" and "\<And>key. get_or 0 (e_supply e) key ^ 2 \<le> product e key"
    and "\<And>key. get_or 0 (e_supply e) key = owned e key"
    and "\<And>k. 0 \<le> get_or 0 (e_lp_bal e) k" and "\<And>t. 0 \<le> get_or 0 (e_fees e) t"
  shows "engine_ok e"
  using assms unfolding engine_ok_def by blast

lemma engine_ok_new: "engine_ok new_engine"
  by (rule engine_okI) (simp_all add: new_engine_def product_def owned_def)

lemma reserves_nonneg:
  assumes "engine_ok e" and "get_reserves_ordered e a b = (x, y)"
  shows "0 \<le> x \<and> 0 \<le> y"
  using assms(2) engine_okD(3,4) [OF assms(1), of "pool_key a b"]
  by (auto simp: get_reserves_ordered_def Let_def split: if_splits prod.splits)

lemma supply_backed:
  "engine_ok e \<Longrightarrow> get_reserves_ordered e a b = (x, y) \<Longrightarrow>
     0 \<le> get_or 0 (e_supply e) (pool_key a b) \<and> get_or 0 (e_supply e) (pool_key a b) ^ 2 \<le> x * y"
  using engine_okD(5,6) [of e "pool_key a b"] by (simp add: reserves_product)

text \<open>An account owns at most the supply.\<close>

lemma get_or_member: "distinct (map fst m) \<Longrightarrow> (k, v) \<in> set m \<Longrightarrow> get_or d m k = v"
  by (simp add: get_or_def)

lemma share_le_owned:
  assumes "engine_ok e"
  shows "get_or 0 (e_lp_bal e) (u, key) \<le> owned e key"
proof -
  let ?m = "AList.update (u, key) 0 (e_lp_bal e)"
  note d = engine_okD(2) [OF assms]
  have "0 \<le> owned_share key p" if "p \<in> set ?m" for p
  proof -
    have "get_or 0 ?m (fst p) = snd p" using that d by (intro get_or_member) (simp_all add: distinct_update)
    then have "0 \<le> snd p" using engine_okD(8) [OF assms, of "fst p"] by (auto split: if_splits)
    then show ?thesis by (cases p) (auto simp: owned_share_def)
  qed
  then have "0 \<le> (\<Sum>p\<leftarrow>?m. owned_share key p)" by (intro sum_list_nonneg) auto
  also have "\<dots> = owned e key - get_or 0 (e_lp_bal e) (u, key)"
    by (subst sum_update [OF d, where d = 0]) (simp_all add: owned_def, simp_all add: owned_share_def)
  finally show ?thesis by simp
qed

text \<open>Changing reserves, supply and one account's shares together.\<close>

lemma engine_ok_change:
  assumes "engine_ok e" and "0 \<le> x" and "0 \<le> y" and "0 \<le> S'" and "S' ^ 2 \<le> x * y" and "0 \<le> n'"
    and "S' - get_or 0 (e_supply e) (pool_key a b) = n' - get_or 0 (e_lp_bal e) (u, pool_key a b)"
  shows "engine_ok ((set_reserves_ordered e a b x y)
    \<lparr>e_supply := AList.update (pool_key a b) S' (e_supply e),
     e_lp_bal := AList.update (u, pool_key a b) n' (e_lp_bal e)\<rparr>)" (is "engine_ok ?e'")
proof -
  note ok = engine_okD [OF assms(1)]
  have o: "owned ?e' k = owned e k + (if k = pool_key a b then n' - get_or 0 (e_lp_bal e) (u, pool_key a b) else 0)" for k
    using owned_update [OF ok(2), of u "pool_key a b" n' k] by (simp add: owned_def)
  have p: "product ?e' k = (if k = pool_key a b then x * y else product e k)" for k
    using set_reserves_product [of e a b x y k] by (simp add: product_def)
  show ?thesis
    by (rule engine_okI) (use assms ok in \<open>auto simp: o p distinct_update\<close>)
qed

text \<open>A swap changes the reserves and the fees.\<close>

lemma engine_ok_swap:
  assumes "engine_ok e" and "0 \<le> x" and "0 \<le> y" and "product e (pool_key a b) \<le> x * y" and "0 \<le> f"
  shows "engine_ok ((set_reserves_ordered e a b x y)\<lparr>e_fees := AList.update a f (e_fees e)\<rparr>)" (is "engine_ok ?e'")
proof -
  note ok = engine_okD [OF assms(1)]
  have o: "owned ?e' k = owned e k" for k
    by (simp add: owned_def set_reserves_ordered_def Let_def)
  have p: "product ?e' k = (if k = pool_key a b then x * y else product e k)" for k
    using set_reserves_product [of e a b x y k] by (simp add: product_def)
  have s: "get_or 0 (e_supply e) (pool_key a b) ^ 2 \<le> x * y"
    using ok(6) assms(4) by (rule order_trans)
  show ?thesis
    by (rule engine_okI) (use assms ok s in \<open>auto simp: o p distinct_update\<close>)
qed

section \<open>What each entry point keeps\<close>

text \<open>What the contract holds of a token beyond what its pools say.\<close>

definition slack :: "('a, 'w) tokens \<Rightarrow> 'a \<Rightarrow> 'a engine \<Rightarrow> 'w \<Rightarrow> 'a \<Rightarrow> int" where
  "slack T self e w t = tk_balance T w t self - held e t"

text \<open>The contract has granted itself no allowance: it never calls \<open>approve\<close>.\<close>

definition no_self_allowance :: "('a, 'w) tokens \<Rightarrow> 'a \<Rightarrow> 'w \<Rightarrow> bool" where
  "no_self_allowance T self w \<longleftrightarrow> (\<forall>t. tk_allowance T w t self self \<le> 0)"

lemma call_token_Inr: "call_token r = Inr w \<longleftrightarrow> r = Some w"
  by (cases r) (simp_all add: call_token_def)

context token_contract begin

lemma transfer_moved:
  "tk_transfer T w t f r n = Some w' \<Longrightarrow> moved T w w' t f r n"
  using laws by (simp add: token_laws_def)

lemma transfer_quiet:
  "tk_transfer T w t f r n = Some w' \<Longrightarrow> no_self_allowance T self w \<Longrightarrow> no_self_allowance T self w'"
  using laws by (simp add: token_laws_def no_self_allowance_def)

lemma transfer_from_moved:
  assumes "tk_transfer_from T w t s f r n = Some w'"
  shows "moved T w w' t f r n \<and> n \<le> tk_allowance T w t f s"
  using laws assms unfolding token_laws_def by blast

lemma transfer_from_quiet:
  assumes "tk_transfer_from T w t s f r n = Some w'" and "no_self_allowance T self w"
  shows "no_self_allowance T self w'"
  using laws assms unfolding token_laws_def no_self_allowance_def by (meson order_trans)

end

lemma moved_nonneg: "moved T w w' t f r n \<Longrightarrow> 0 \<le> n"
  by (simp add: moved_def)

lemma moved_balance:
  "moved T w w' t f r n \<Longrightarrow> tk_balance T w' t' u =
     tk_balance T w t' u - (if t' = t \<and> u = f then n else 0) + (if t' = t \<and> u = r then n else 0)"
  by (simp add: moved_def)

lemma held_record [simp]:
  "held (e\<lparr>e_supply := s, e_lp_bal := l\<rparr>) t = held e t" "held (e\<lparr>e_fees := f\<rparr>) t = held e t"
  "held (e\<lparr>e_results := r\<rparr>) t = held e t" "held (e\<lparr>e_admin := a\<rparr>) t = held e t"
  by (simp_all add: held_def)

lemma product_record [simp]:
  "product (e\<lparr>e_supply := s, e_lp_bal := l\<rparr>) k = product e k" "product (e\<lparr>e_fees := f\<rparr>) k = product e k"
  "product (e\<lparr>e_results := r\<rparr>) k = product e k" "product (e\<lparr>e_admin := a\<rparr>) k = product e k"
  by (simp_all add: product_def)

lemma owned_record [simp]:
  "owned (e\<lparr>e_fees := f\<rparr>) k = owned e k" "owned (e\<lparr>e_results := r\<rparr>) k = owned e k" "owned (e\<lparr>e_admin := a\<rparr>) k = owned e k"
  by (simp_all add: owned_def)

text \<open>A quote: the product of the reserves does not shrink, the reserve is not emptied.\<close>

lemma quote_swap_Inr:
  assumes "quote_swap e ord = Inr (out, fee)" and "get_reserves_ordered e (se_token_in ord) (se_token_out ord) = (x, y)"
    and "engine_ok e" and "0 \<le> se_amount_in ord"
  shows "se_min_amount_out ord \<le> out \<and> fee = se_amount_in ord * 30 div 10000 \<and> 0 \<le> fee \<and> fee \<le> se_amount_in ord \<and>
    0 \<le> out \<and> out < y \<and> x * y \<le> (x + se_amount_in ord) * (y - out) \<and> (se_amount_in ord = 0 \<longrightarrow> out = 0)"
proof -
  let ?a = "se_amount_in ord"
  have xy: "0 < x" "0 < y" using assms reserves_nonneg [OF assms(3,2)]
    by (auto simp: quote_swap_def split: if_splits)
  have fee: "fee = ?a * 30 div 10000" "se_min_amount_out ord \<le> out"
    and o: "out = ((?a - fee) * y) sdiv (x + (?a - fee))"
    using assms(1,2,4)
    by (auto simp: quote_swap_def FEE_BPS_def BPS_DENOMINATOR_def ebind_eq_Inr mul_div_Inr i128_Inr i128_div_Inr sdiv_nonneg
        split: if_splits)
  have "0 \<le> ?a - fee" using fee(1) assms(4) by linarith
  then have "out = (?a - fee) * y div (x + (?a - fee))" using o xy by (simp add: sdiv_nonneg)
  then show ?thesis using quote_arith [OF assms(4) xy fee(1)] fee by blast
qed

definition honours :: "'a engine_order \<Rightarrow> 'a engine_result \<Rightarrow> bool" where
  "honours ord r \<longleftrightarrow> er_user r = se_user ord \<and> er_token_in r = se_token_in ord \<and> er_token_out r = se_token_out ord \<and>
     er_amount_in r = se_amount_in ord \<and> 0 \<le> er_amount_in r \<and> er_fee r = se_amount_in ord * 30 div 10000 \<and>
     se_min_amount_out ord \<le> er_amount_out r \<and> 0 \<le> er_amount_out r"

definition kept :: "('a::linorder, 'w) tokens \<Rightarrow> 'a \<Rightarrow> 'a engine \<Rightarrow> 'w \<Rightarrow> 'a engine \<Rightarrow> 'w \<Rightarrow> bool" where
  "kept T self e w e' w' \<longleftrightarrow> engine_ok e' \<and> no_self_allowance T self w' \<and> (\<forall>t. slack T self e' w' t = slack T self e w t)"

lemma kept_trans: "kept T self e w e1 w1 \<Longrightarrow> kept T self e1 w1 e2 w2 \<Longrightarrow> kept T self e w e2 w2"
  by (simp add: kept_def)

context token_contract begin

lemma settle_order_kept:
  assumes ok: "engine_ok e" and quiet: "no_self_allowance T self w"
    and run: "settle_order T self (e, w, rs) ord = Inr (e', w', rs')"
  shows "kept T self e w e' w' \<and> (\<forall>k. product e k \<le> product e' k) \<and> e_results e' = e_results e \<and>
    (\<exists>r. rs' = rs @ [r] \<and> honours ord r)"
proof -
  let ?i = "se_token_in ord" and ?o = "se_token_out ord" and ?a = "se_amount_in ord" and ?u = "se_user ord"
  obtain x y where xy: "get_reserves_ordered e ?i ?o = (x, y)" by fastforce
  obtain out fee where q: "quote_swap e ord = Inr (out, fee)"
    using run by (auto simp: settle_order_def ebind_eq_Inr)
  from run q xy obtain w1 where
      t1: "tk_transfer_from T w ?i self ?u self ?a = Some w1" and t2: "tk_transfer T w1 ?o self ?u out = Some w'"
    and e': "e' = (set_reserves_ordered e ?i ?o (x + ?a) (y - out))
          \<lparr>e_fees := AList.update ?i (get_or 0 (e_fees e) ?i + fee) (e_fees e)\<rparr>"
    and rs': "rs' = rs @ [\<lparr>er_user = ?u, er_token_in = ?i, er_token_out = ?o, er_amount_in = ?a,
          er_amount_out = out, er_fee = fee\<rparr>]"
    by (auto simp: settle_order_def ebind_eq_Inr i128_Inr call_token_Inr)
  note m1 = transfer_from_moved [OF t1, THEN conjunct1] and m2 = transfer_moved [OF t2]
  have a: "0 \<le> ?a" using m1 by (rule moved_nonneg)
  note Q = quote_swap_Inr [OF q xy ok a]
  have "?a = 0" if "?u = self"
    using transfer_from_moved [OF t1] quiet [unfolded no_self_allowance_def, rule_format, of ?i] a that by simp
  then have self: "?a = 0 \<and> out = 0" if "?u = self" using Q that by blast
  have p: "x * y \<le> (x + ?a) * (y - out)" using Q by blast
  have "engine_ok e'"
    unfolding e'
    using reserves_nonneg [OF ok xy] a Q engine_okD(9) [OF ok, of ?i] reserves_product [OF xy]
    by (intro engine_ok_swap ok) auto
  moreover have "no_self_allowance T self w'"
    using transfer_quiet [OF t2 transfer_from_quiet [OF t1 quiet]] .
  moreover have "slack T self e' w' t = slack T self e w t" for t
    using self moved_balance [OF m1, of t self] moved_balance [OF m2, of t self]
      held_set_reserves [OF engine_okD(1) [OF ok] xy, of "x + ?a" "y - out" t]
    by (auto simp: slack_def e' split: if_splits)
  moreover have "product e k \<le> product e' k" for k
    using p reserves_product [OF xy] by (simp add: e' set_reserves_product)
  ultimately show ?thesis using Q a by (simp add: kept_def e' rs' honours_def)
qed

lemma settle_orders_kept:
  "engine_ok e \<Longrightarrow> no_self_allowance T self w \<Longrightarrow> efold (settle_order T self) (e, w, rs) os = Inr (e', w', rs') \<Longrightarrow>
    kept T self e w e' w' \<and> (\<forall>k. product e k \<le> product e' k) \<and> e_results e' = e_results e \<and>
    (\<exists>r. rs' = rs @ r \<and> list_all2 honours os r)"
proof (induction os arbitrary: e w rs)
  case Nil
  then show ?case by (simp add: kept_def)
next
  case (Cons ord os)
  from Cons.prems(3) obtain e1 w1 rs1 where s1: "settle_order T self (e, w, rs) ord = Inr (e1, w1, rs1)"
    and s2: "efold (settle_order T self) (e1, w1, rs1) os = Inr (e', w', rs')"
    by (auto simp: ebind_eq_Inr)
  note k1 = settle_order_kept [OF Cons.prems(1,2) s1]
  then have "engine_ok e1" "no_self_allowance T self w1" by (auto simp: kept_def)
  from Cons.IH [OF this s2] k1 obtain r q where "rs1 = rs @ [r]" "honours ord r" "rs' = rs1 @ q" "list_all2 honours os q"
    "kept T self e1 w1 e' w'" "\<forall>k. product e1 k \<le> product e' k" "e_results e' = e_results e1" by blast
  moreover have "product e k \<le> product e' k" for k
    using k1 \<open>\<forall>k. product e1 k \<le> product e' k\<close> by (meson order_trans)
  ultimately show ?case using k1 by (auto intro!: exI [of _ "r # q"] intro: kept_trans)
qed

lemma settle_batch_kept:
  assumes "engine_ok e" and "no_self_allowance T self w"
    and "settle_batch T self e w b os = Inr (rs, e', w')"
  shows "kept T self e w e' w' \<and> (\<forall>k. product e k \<le> product e' k) \<and> list_all2 honours os rs \<and>
    map_of (e_results e) b = None \<and> e_results e' = AList.update b rs (e_results e)"
proof -
  from assms(3) obtain e1 where s: "efold (settle_order T self) (e, w, []) os = Inr (e1, w', rs)"
    and e': "e' = e1\<lparr>e_results := AList.update b rs (e_results e1)\<rparr>" and b: "map_of (e_results e) b = None"
    by (auto simp: settle_batch_def ebind_eq_Inr split: if_splits)
  note k = settle_orders_kept [OF assms(1,2) s]
  then have ok: "engine_ok e1" by (simp add: kept_def)
  have "engine_ok e'"
    unfolding e' using engine_okD [OF ok] by (intro engine_okI) auto
  then show ?thesis using k b by (auto simp: kept_def slack_def e')
qed

lemma collect_fees_kept:
  assumes ok: "engine_ok e" and quiet: "no_self_allowance T self w"
    and run: "collect_fees T self e w auths receiver tok = Inr (n, e', w')"
  shows "engine_ok e' \<and> no_self_allowance T self w' \<and> 0 \<le> n \<and> e_results e' = e_results e \<and>
    (\<forall>t. slack T self e' w' t = slack T self e w t - (if t = tok \<and> receiver \<noteq> self then n else 0))"
proof (cases "0 < get_or 0 (e_fees e) tok")
  case True
  with run have n: "n = get_or 0 (e_fees e) tok" and t: "tk_transfer T w tok self receiver n = Some w'"
    and e': "e' = e\<lparr>e_fees := AList.update tok 0 (e_fees e)\<rparr>"
    by (auto simp: collect_fees_def Let_def ebind_eq_Inr call_token_Inr split: option.splits if_splits)
  have "engine_ok e'" unfolding e' using engine_okD [OF ok] by (intro engine_okI) auto
  then show ?thesis
    using transfer_quiet [OF t quiet] moved_balance [OF transfer_moved [OF t], of _ self] True
    by (auto simp: e' slack_def n)
next
  case False
  then have "n = 0" "e' = e" "w' = w"
    using run engine_okD(9) [OF ok, of tok] by (auto simp: collect_fees_def Let_def split: option.splits if_splits)
  then show ?thesis using ok quiet by simp
qed

end

lemma lp_tokens_nonneg:
  assumes "0 \<le> a" and "0 \<le> S" and "0 < x" and "mul_div a S x = Inr L"
  shows "0 \<le> L \<and> L * x \<le> a * S"
proof -
  have L: "L = (a * S) div x" using assms by (simp add: mul_div_Inr sdiv_nonneg)
  have "L * x \<le> a * S"
    using div_mult_mod_eq [of "a * S" x] pos_mod_sign [OF assms(3), of "a * S"] unfolding L by linarith
  then show ?thesis using assms L by (simp add: pos_imp_zdiv_nonneg_iff)
qed

context token_contract begin

lemma add_liquidity_kept:
  assumes ok: "engine_ok e" and quiet: "no_self_allowance T self w" and auths: "self \<notin> auths"
    and run: "add_liquidity T self e w auths user a b n m = Inr (lp, e', w')"
  shows "kept T self e w e' w' \<and> e_results e' = e_results e \<and> 0 \<le> lp"
proof -
  let ?S = "get_or 0 (e_supply e) (pool_key a b)"
  obtain x y where xy: "get_reserves_ordered e a b = (x, y)" by fastforce
  from run xy obtain w1 where user: "user \<in> auths"
    and lp: "(if ?S = 0 then ebind (i128 (n * m)) isqrt
       else ebind (mul_div n ?S x) (\<lambda>p. ebind (mul_div m ?S y) (\<lambda>q. Inr (min p q)))) = Inr lp"
    and t1: "tk_transfer T w a user self n = Some w1" and t2: "tk_transfer T w1 b user self m = Some w'"
    and e': "e' = (set_reserves_ordered e a b (x + n) (y + m))
      \<lparr>e_supply := AList.update (pool_key a b) (?S + lp) (e_supply e),
       e_lp_bal := AList.update (user, pool_key a b) (get_or 0 (e_lp_bal e) (user, pool_key a b) + lp) (e_lp_bal e)\<rparr>"
    by (auto simp: add_liquidity_def Let_def ebind_eq_Inr i128_Inr call_token_Inr split: if_splits)
  note m1 = transfer_moved [OF t1] and m2 = transfer_moved [OF t2]
  note nm = m1 [THEN moved_nonneg] m2 [THEN moved_nonneg]
  note pos = reserves_nonneg [OF ok xy] and S = supply_backed [OF ok xy]
  have L: "0 \<le> lp \<and> (?S + lp) ^ 2 \<le> (x + n) * (y + m)"
  proof (cases "?S = 0")
    case True
    then have "0 \<le> lp \<and> lp ^ 2 \<le> n * m" using lp nm by (auto simp: ebind_eq_Inr i128_Inr dest!: isqrt_Inr)
    moreover have "n * m \<le> (x + n) * (y + m)" using pos nm by (intro mult_mono) auto
    ultimately show ?thesis using True by auto
  next
    case False
    then obtain p q where pq: "mul_div n ?S x = Inr p" "mul_div m ?S y = Inr q" "lp = min p q"
      using lp by (auto simp: ebind_eq_Inr)
    have xy0: "0 < x" "0 < y" using pq(1,2) pos by (auto simp: mul_div_Inr)
    note p = lp_tokens_nonneg [OF nm(1) S [THEN conjunct1] xy0(1) pq(1)]
      and q = lp_tokens_nonneg [OF nm(2) S [THEN conjunct1] xy0(2) pq(2)]
    have l: "0 \<le> lp" "lp \<le> p" "lp \<le> q" using p q pq(3) by auto
    then have "lp * x \<le> p * x" "lp * y \<le> q * y" using xy0 by (simp_all add: mult_right_mono)
    then have "lp * x \<le> n * ?S" "lp * y \<le> m * ?S" using p q by linarith+
    then show ?thesis using False S pos l by (auto intro!: deposit_arith)
  qed
  have "engine_ok e'"
    unfolding e' using pos nm S L engine_okD(8) [OF ok, of "(user, pool_key a b)"] by (intro engine_ok_change ok) auto
  moreover have "slack T self e' w' t = slack T self e w t" for t
    using user auths moved_balance [OF m1, of t self] moved_balance [OF m2, of t self]
      held_set_reserves [OF engine_okD(1) [OF ok] xy, of "x + n" "y + m" t]
    by (auto simp: slack_def e' split: if_splits)
  ultimately show ?thesis
    using L transfer_quiet [OF t2 transfer_quiet [OF t1 quiet]] by (simp add: kept_def e')
qed

lemma remove_liquidity_kept:
  assumes ok: "engine_ok e" and quiet: "no_self_allowance T self w" and auths: "self \<notin> auths"
    and run: "remove_liquidity T self e w auths user a b lp = Inr ((n, m), e', w')"
  shows "kept T self e w e' w' \<and> e_results e' = e_results e \<and> 0 \<le> lp"
proof -
  let ?S = "get_or 0 (e_supply e) (pool_key a b)" and ?B = "get_or 0 (e_lp_bal e) (user, pool_key a b)"
  obtain x y where xy: "get_reserves_ordered e a b = (x, y)" by fastforce
  from run xy obtain w1 where user: "user \<in> auths" and lp: "lp \<le> ?B" and S0: "?S \<noteq> 0"
    and n: "n = (lp * x) sdiv ?S" and m: "m = (lp * y) sdiv ?S"
    and t1: "tk_transfer T w a self user n = Some w1" and t2: "tk_transfer T w1 b self user m = Some w'"
    and e': "e' = (set_reserves_ordered e a b (x - n) (y - m))
      \<lparr>e_supply := AList.update (pool_key a b) (?S - lp) (e_supply e),
       e_lp_bal := AList.update (user, pool_key a b) (?B - lp) (e_lp_bal e)\<rparr>"
    by (auto simp: remove_liquidity_def Let_def ebind_eq_Inr i128_Inr mul_div_Inr call_token_Inr split: if_splits)
  note m1 = transfer_moved [OF t1] and m2 = transfer_moved [OF t2]
  note nm = m1 [THEN moved_nonneg] m2 [THEN moved_nonneg]
  note pos = reserves_nonneg [OF ok xy] and S = supply_backed [OF ok xy]
  have S1: "0 < ?S" using S S0 by linarith
  have lp0: "0 \<le> lp"
    using negative_withdraw [OF S1 S [THEN conjunct2]] pos nm n m by (meson not_less)
  have lpS: "lp \<le> ?S"
    using lp share_le_owned [OF ok, of user "pool_key a b"] engine_okD(7) [OF ok, of "pool_key a b"] by linarith
  have share: "u sdiv ?S * ?S \<le> u" if "0 \<le> u" for u
    using div_mult_mod_eq [of u ?S] pos_mod_sign [OF S1, of u] unfolding sdiv_nonneg [OF that S1] by linarith
  have "n * ?S \<le> lp * x" "m * ?S \<le> lp * y" using share [of "lp * x"] share [of "lp * y"] lp0 pos n m by auto
  then have L: "(?S - lp) ^ 2 \<le> (x - n) * (y - m) \<and> n \<le> x \<and> m \<le> y"
    using S1 S pos lp0 lpS by (intro withdraw_arith) auto
  have "engine_ok e'"
    unfolding e' using L lp lpS by (intro engine_ok_change ok) auto
  moreover have "slack T self e' w' t = slack T self e w t" for t
    using user auths moved_balance [OF m1, of t self] moved_balance [OF m2, of t self]
      held_set_reserves [OF engine_okD(1) [OF ok] xy, of "x - n" "y - m" t]
    by (auto simp: slack_def e' split: if_splits)
  ultimately show ?thesis
    using lp0 transfer_quiet [OF t2 transfer_quiet [OF t1 quiet]] by (simp add: kept_def e')
qed

end

section \<open>The contract and the token contracts over time\<close>

text \<open>
  \<open>ch_paid\<close> counts the fees that left the contract, \<open>ch_donated\<close> what reached it other than through
  its entry points; both only record, no entry point reads them.
\<close>

record ('a, 'w) chain =
  ch_engine :: "'a engine"
  ch_world :: 'w
  ch_paid :: "'a \<Rightarrow> int"
  ch_donated :: "'a \<Rightarrow> int"

datatype 'a engine_call =
    Initialize 'a
  | AddLiquidity "'a list" 'a 'a 'a int int
  | RemoveLiquidity "'a list" 'a 'a 'a int
  | SettleBatch "byte list" "'a engine_order list"
  | CollectFees "'a list" 'a 'a

text \<open>One transaction.  Nobody can sign for the contract's own address.\<close>

fun run_call :: "('a::linorder, 'w) tokens \<Rightarrow> 'a \<Rightarrow> ('a, 'w) chain \<Rightarrow> 'a engine_call \<Rightarrow> failure + ('a, 'w) chain" where
  "run_call T self s (Initialize admin) =
     ebind (initialize (ch_engine s) admin) (\<lambda>e. Inr (s\<lparr>ch_engine := e\<rparr>))"
| "run_call T self s (AddLiquidity auths user a b n m) =
     (if self \<in> set auths then Inl Panic
      else ebind (add_liquidity T self (ch_engine s) (ch_world s) (set auths) user a b n m) (\<lambda>(lp, e, w).
        Inr (s\<lparr>ch_engine := e, ch_world := w\<rparr>)))"
| "run_call T self s (RemoveLiquidity auths user a b lp) =
     (if self \<in> set auths then Inl Panic
      else ebind (remove_liquidity T self (ch_engine s) (ch_world s) (set auths) user a b lp) (\<lambda>(nm, e, w).
        Inr (s\<lparr>ch_engine := e, ch_world := w\<rparr>)))"
| "run_call T self s (SettleBatch b os) =
     ebind (settle_batch T self (ch_engine s) (ch_world s) b os) (\<lambda>(rs, e, w).
       Inr (s\<lparr>ch_engine := e, ch_world := w\<rparr>))"
| "run_call T self s (CollectFees auths receiver t) =
     ebind (collect_fees T self (ch_engine s) (ch_world s) (set auths) receiver t) (\<lambda>(n, e, w).
       Inr (s\<lparr>ch_engine := e, ch_world := w,
         ch_paid := (ch_paid s)(t := ch_paid s t + (if receiver = self then 0 else n))\<rparr>))"

text \<open>
  Between its transactions the tokens move in any way that does not need the contract's consent:
  its balances do not shrink and it grants no allowance.
\<close>

inductive engine_step :: "('a::linorder, 'w) tokens \<Rightarrow> 'a \<Rightarrow> ('a, 'w) chain \<Rightarrow> ('a, 'w) chain \<Rightarrow> bool"
  for T :: "('a, 'w) tokens" and self :: 'a where
  call_step: "run_call T self s call = Inr s' \<Longrightarrow> engine_step T self s s'"
| outside_step: "no_self_allowance T self w' \<Longrightarrow> (\<And>t. tk_balance T (ch_world s) t self \<le> tk_balance T w' t self) \<Longrightarrow>
    engine_step T self s (s\<lparr>ch_world := w',
      ch_donated := (\<lambda>t. ch_donated s t + (tk_balance T w' t self - tk_balance T (ch_world s) t self))\<rparr>)"

text \<open>A freshly deployed contract, in a world where some tokens may lie at its address already.\<close>

definition deployed :: "('a, 'w) tokens \<Rightarrow> 'a \<Rightarrow> 'w \<Rightarrow> ('a, 'w) chain" where
  "deployed T self w = \<lparr>ch_engine = new_engine, ch_world = w, ch_paid = (\<lambda>t. 0), ch_donated = (\<lambda>t. tk_balance T w t self)\<rparr>"

definition accounted :: "('a, 'w) tokens \<Rightarrow> 'a \<Rightarrow> ('a, 'w) chain \<Rightarrow> bool" where
  "accounted T self s \<longleftrightarrow> engine_ok (ch_engine s) \<and> no_self_allowance T self (ch_world s) \<and>
     (\<forall>t. slack T self (ch_engine s) (ch_world s) t = ch_donated s t - ch_paid s t)"

lemma deployed_accounted: "no_self_allowance T self w \<Longrightarrow> accounted T self (deployed T self w)"
  by (simp add: accounted_def deployed_def engine_ok_new slack_def) (simp add: held_def new_engine_def)

lemma initialize_kept:
  assumes "engine_ok e" and "initialize e admin = Inr e'"
  shows "engine_ok e' \<and> held e' t = held e t \<and> e_results e' = e_results e"
proof -
  have e': "e' = e\<lparr>e_admin := Some admin\<rparr>" using assms(2) by (auto simp: initialize_def split: if_splits)
  have "engine_ok e'" unfolding e' using engine_okD [OF assms(1)] by (intro engine_okI) auto
  then show ?thesis by (simp add: e')
qed

context token_contract begin

lemma run_call_accounted:
  assumes acc: "accounted T self s" and run: "run_call T self s call = Inr s'"
  shows "accounted T self s'"
proof -
  have ok: "engine_ok (ch_engine s)" and quiet: "no_self_allowance T self (ch_world s)"
    using acc by (simp_all add: accounted_def)
  show ?thesis
  proof (cases call)
    case (Initialize admin)
    then show ?thesis using acc run initialize_kept [OF ok] by (auto simp: accounted_def slack_def ebind_eq_Inr)
  next
    case (AddLiquidity auths user a b n m)
    then show ?thesis
      using acc run by (auto simp: accounted_def kept_def ebind_eq_Inr split: if_splits dest!: add_liquidity_kept [OF ok quiet])
  next
    case (RemoveLiquidity auths user a b lp)
    then show ?thesis
      using acc run by (auto simp: accounted_def kept_def ebind_eq_Inr split: if_splits dest!: remove_liquidity_kept [OF ok quiet])
  next
    case (SettleBatch b os)
    then show ?thesis
      using acc run by (auto simp: accounted_def kept_def ebind_eq_Inr dest!: settle_batch_kept [OF ok quiet])
  next
    case (CollectFees auths receiver t)
    then show ?thesis
      using acc run by (auto simp: accounted_def ebind_eq_Inr dest!: collect_fees_kept [OF ok quiet])
  qed
qed

lemma engine_steps_accounted:
  assumes "(engine_step T self)\<^sup>*\<^sup>* s s'" and "accounted T self s"
  shows "accounted T self s'"
  using assms(1)
proof (induction rule: rtranclp_induct)
  case (step s1 s2)
  from step.hyps(2) show ?case
  proof cases
    case (call_step call)
    then show ?thesis using run_call_accounted [OF step.IH] by simp
  next
    case (outside_step w')
    have acc: "slack T self (ch_engine s1) (ch_world s1) t = ch_donated s1 t - ch_paid s1 t" for t
      using step.IH by (simp add: accounted_def)
    have "slack T self (ch_engine s2) (ch_world s2) t = ch_donated s2 t - ch_paid s2 t" for t
      using acc [of t] outside_step(1) by (simp add: slack_def)
    then show ?thesis using step.IH outside_step by (simp add: accounted_def)
  qed
qed (use assms(2) in simp)

end

text \<open>Recorded results stay.\<close>

lemma settle_order_results:
  "settle_order T self (e, w, rs) ord = Inr (e', w', rs') \<Longrightarrow> e_results e' = e_results e"
  by (cases "get_reserves_ordered e (se_token_in ord) (se_token_out ord)") (auto simp: settle_order_def Let_def ebind_eq_Inr)

lemma settle_orders_results:
  "efold (settle_order T self) (e, w, rs) os = Inr (e', w', rs') \<Longrightarrow> e_results e' = e_results e"
proof (induction os arbitrary: e w rs)
  case (Cons ord os)
  then obtain e1 w1 rs1 where "settle_order T self (e, w, rs) ord = Inr (e1, w1, rs1)"
    "efold (settle_order T self) (e1, w1, rs1) os = Inr (e', w', rs')" by (auto simp: ebind_eq_Inr)
  then show ?case using Cons.IH settle_order_results by metis
qed simp

lemma run_call_results:
  assumes "run_call T self s call = Inr s'" and "map_of (e_results (ch_engine s)) b = Some rs"
  shows "map_of (e_results (ch_engine s')) b = Some rs"
proof (cases call)
  case (Initialize admin)
  then show ?thesis using assms by (auto simp: initialize_def ebind_eq_Inr split: if_splits)
next
  case (AddLiquidity auths user a b n m)
  then show ?thesis
    using assms by (auto simp: add_liquidity_def Let_def ebind_eq_Inr split: if_splits prod.splits)
next
  case (RemoveLiquidity auths user a b lp)
  then show ?thesis
    using assms by (auto simp: remove_liquidity_def Let_def ebind_eq_Inr split: if_splits prod.splits)
next
  case (SettleBatch c os)
  then show ?thesis
    using assms by (auto simp: settle_batch_def ebind_eq_Inr update_conv split: if_splits dest!: settle_orders_results)
next
  case (CollectFees auths receiver t)
  then show ?thesis
    using assms by (auto simp: collect_fees_def Let_def ebind_eq_Inr split: if_splits option.splits)
qed

lemma engine_steps_results:
  assumes "(engine_step T self)\<^sup>*\<^sup>* s s'" and "map_of (e_results (ch_engine s)) b = Some rs"
  shows "map_of (e_results (ch_engine s')) b = Some rs"
  using assms(1)
proof (induction rule: rtranclp_induct)
  case (step s1 s2)
  from step.hyps(2) show ?case
    by cases (use step.IH run_call_results in auto)
qed (use assms(2) in simp)

lemma run_calls_steps: "efold (run_call T self) s calls = Inr s' \<Longrightarrow> (engine_step T self)\<^sup>*\<^sup>* s s'"
proof (induction calls arbitrary: s)
  case (Cons call calls)
  then obtain s1 where "run_call T self s call = Inr s1" "efold (run_call T self) s1 calls = Inr s'"
    by (auto simp: ebind_eq_Inr)
  then show ?case using Cons.IH by (meson call_step converse_rtranclp_into_rtranclp)
qed simp

section \<open>Token contracts that keep the laws\<close>

text \<open>A ledger of balances and allowances with checked transfers, as SEP-41 describes them.\<close>

record 'a ledger =
  lg_balance :: "'a \<Rightarrow> 'a \<Rightarrow> int"
  lg_allowance :: "'a \<Rightarrow> 'a \<Rightarrow> 'a \<Rightarrow> int"

definition ledger_move :: "'a ledger \<Rightarrow> 'a \<Rightarrow> 'a \<Rightarrow> 'a \<Rightarrow> int \<Rightarrow> 'a ledger option" where
  "ledger_move w t f r n =
     (if 0 \<le> n \<and> n \<le> lg_balance w t f then
        Some (w\<lparr>lg_balance := (\<lambda>t' u. lg_balance w t' u - (if t' = t \<and> u = f then n else 0)
          + (if t' = t \<and> u = r then n else 0))\<rparr>)
      else None)"

definition ledger_tokens :: "('a, 'a ledger) tokens" where
  "ledger_tokens = \<lparr>tk_transfer = ledger_move,
     tk_transfer_from = (\<lambda>w t s f r n. if n \<le> lg_allowance w t f s then
       ledger_move (w\<lparr>lg_allowance := (\<lambda>t' u s'. lg_allowance w t' u s' - (if t' = t \<and> u = f \<and> s' = s then max n 0 else 0))\<rparr>)
         t f r n else None),
     tk_balance = lg_balance, tk_allowance = lg_allowance\<rparr>"

lemma ledger_tokens_laws: "token_laws ledger_tokens"
  by (auto simp: token_laws_def ledger_tokens_def moved_def ledger_move_def split: if_splits)

interpretation ledger: token_contract ledger_tokens
  by unfold_locales (rule ledger_tokens_laws)

text \<open>The contract is account 0; 1 provides liquidity, 2 trades, 9 is the administrator.\<close>

definition sample_ledger :: "nat ledger" where
  "sample_ledger = \<lparr>lg_balance = (\<lambda>t u. if u = 1 \<or> u = 2 then 10000000 else 0),
     lg_allowance = (\<lambda>t u s. if u = 2 \<and> s = 0 then 1000000 else 0)\<rparr>"

definition sample_swap :: "nat engine_order" where
  "sample_swap = \<lparr>se_user = 2, se_token_in = 10, se_token_out = 11, se_amount_in = 10000, se_min_amount_out = 9000\<rparr>"

definition sample_chain :: "failure + (nat, nat ledger) chain" where
  "sample_chain = efold (run_call ledger_tokens 0) (deployed ledger_tokens 0 sample_ledger)
     [Initialize 9, AddLiquidity [1] 1 10 11 1000000 1000000, SettleBatch [7] [sample_swap], CollectFees [9] 9 10]"

definition sample_pools :: "failure + (nat, nat ledger) chain" where
  "sample_pools = efold (run_call ledger_tokens 0) (deployed ledger_tokens 0 sample_ledger)
     [Initialize 9, AddLiquidity [1] 1 10 11 1000000 1000000]"

lemma sample_quiet: "no_self_allowance ledger_tokens 0 sample_ledger"
  by (simp add: no_self_allowance_def ledger_tokens_def sample_ledger_def)

lemma sample_chain_steps:
  "sample_chain = Inr s \<Longrightarrow> (engine_step ledger_tokens 0)\<^sup>*\<^sup>* (deployed ledger_tokens 0 sample_ledger) s"
  unfolding sample_chain_def by (rule run_calls_steps)

lemma sample_root: "isqrt 1000000000000 = Inr 1000000"
proof -
  obtain r where r: "isqrt 1000000000000 = Inr r" "0 \<le> r" "r ^ 2 \<le> 1000000000000" "1000000000000 < (r + 1) ^ 2"
    using isqrt_correct [of 1000000000000] by auto
  have "r ^ 2 \<le> 1000000 ^ 2" "1000000 ^ 2 < (r + 1) ^ 2" using r(3,4) by simp_all
  then have "r \<le> 1000000" "1000000 < r + 1" using r(2) power2_le_imp_le [of r 1000000] power_less_imp_less_base [of 1000000 2 "r + 1"] by auto
  then show ?thesis using r(1) by simp
qed

lemmas sample_run_simps = deployed_def new_engine_def initialize_def add_liquidity_def remove_liquidity_def settle_batch_def
  settle_order_def quote_swap_def collect_fees_def get_reserves_ordered_def set_reserves_ordered_def pool_key_def
  ledger_tokens_def ledger_move_def call_token_def sample_ledger_def sample_swap_def mul_div_def i128_div_def i128_def
  signed_divide_int_def FEE_BPS_def BPS_DENOMINATOR_def sample_root Let_def get_or_def

lemma sample_chain_runs: "\<exists>s. sample_chain = Inr s \<and> ch_paid s 10 = 30 \<and> held (ch_engine s) 10 = 1010000 \<and>
    tk_balance ledger_tokens (ch_world s) 10 0 = 1009970 \<and>
    run_call ledger_tokens 0 s (RemoveLiquidity [1] 1 10 11 1000000) = Inl Panic"
  by (simp add: sample_chain_def sample_run_simps held_def pool_share_def)

lemma sample_pools_runs: "\<exists>s rs e' w'. sample_pools = Inr s \<and> map er_amount_out rs = [9871] \<and>
    settle_batch ledger_tokens 0 (ch_engine s) (ch_world s) [7] [sample_swap] = Inr (rs, e', w')"
  by (simp add: sample_pools_def sample_run_simps)

section \<open>Properties\<close>

text \<open>C36: The integer square root is one: the loop ends without overflow for every value below the
  greatest \<open>i128\<close>, with the greatest integer whose square is not above the value.
\<close>

theorem isqrt_is_root:
  assumes "0 \<le> n" and "n < 2 ^ 127 - 1"
  shows "\<exists>r. isqrt n = Inr r \<and> 0 \<le> r \<and> r ^ 2 \<le> n \<and> n < (r + 1) ^ 2"
  using assms by (rule isqrt_correct)

theorem isqrt_is_root_witness: "\<exists>r. isqrt 1000003 = Inr r \<and> 0 \<le> r \<and> r ^ 2 \<le> 1000003 \<and> 1000003 < (r + 1) ^ 2"
  using isqrt_is_root [of 1000003] by simp

text \<open>C19: The liquidity shares stay backed.  Whatever calls were made and whatever the tokens did in
  between, a pool's shares sum up to its supply, no account's shares are negative, and the square
  of the supply never exceeds the product of the reserves; so nobody can mint unbacked shares,
  not even with negative amounts, which no guard of the contract excludes.
\<close>

theorem shares_stay_backed:
  assumes "token_laws T" and "no_self_allowance T self w"
    and "(engine_step T self)\<^sup>*\<^sup>* (deployed T self w) s" and "get_reserves (ch_engine s) a b = (x, y)"
  shows "get_or 0 (e_supply (ch_engine s)) (pool_key a b) = owned (ch_engine s) (pool_key a b) \<and>
    0 \<le> get_or 0 (e_lp_bal (ch_engine s)) (user, pool_key a b) \<and> 0 \<le> x \<and> 0 \<le> y \<and>
    (get_or 0 (e_supply (ch_engine s)) (pool_key a b)) ^ 2 \<le> x * y"
proof -
  have ok: "engine_ok (ch_engine s)"
    using token_contract.engine_steps_accounted [OF token_contract.intro [OF assms(1)] assms(3) deployed_accounted [OF assms(2)]] by (simp add: accounted_def)
  note r = assms(4) [unfolded get_reserves_def]
  show ?thesis using engine_okD(7,8) [OF ok] supply_backed [OF ok r] reserves_nonneg [OF ok r] by blast
qed

theorem shares_stay_backed_witness:
  "case sample_chain of Inl f \<Rightarrow> False | Inr s \<Rightarrow>
     (get_or 0 (e_supply (ch_engine s)) (pool_key 10 11)) ^ 2 \<le>
       fst (get_reserves (ch_engine s) 10 11) * snd (get_reserves (ch_engine s) 10 11)"
proof -
  obtain s where s: "sample_chain = Inr s" using sample_chain_runs by blast
  obtain x y where r: "get_reserves (ch_engine s) 10 11 = (x, y)" by fastforce
  have "(get_or 0 (e_supply (ch_engine s)) (pool_key 10 11)) ^ 2 \<le> x * y"
    using shares_stay_backed [OF ledger_tokens_laws sample_quiet sample_chain_steps [OF s] r, of 1] by (elim conjE)
  then show ?thesis by (simp add: s r)
qed

text \<open>C20: What the contract owns, exactly: its balance of a token and the fees paid out in that token
  make up the reserves of the token in all pools and the tokens that reached it otherwise.  Fees
  are added to the reserves and to the fees, so each fee collected is missing from the reserves.
\<close>

theorem fees_come_out_of_reserves:
  assumes "token_laws T" and "no_self_allowance T self w" and "(engine_step T self)\<^sup>*\<^sup>* (deployed T self w) s"
  shows "tk_balance T (ch_world s) t self + ch_paid s t = held (ch_engine s) t + ch_donated s t"
proof -
  have "slack T self (ch_engine s) (ch_world s) t = ch_donated s t - ch_paid s t"
    using token_contract.engine_steps_accounted [OF token_contract.intro [OF assms(1)] assms(3) deployed_accounted [OF assms(2)]] by (simp add: accounted_def)
  then show ?thesis by (simp add: slack_def)
qed

text \<open>At the sample, after one swap and one collection, the only provider cannot withdraw its shares.\<close>

theorem fees_come_out_of_reserves_witness:
  "case sample_chain of Inl f \<Rightarrow> False | Inr s \<Rightarrow>
     tk_balance ledger_tokens (ch_world s) 10 0 + 30 = held (ch_engine s) 10 \<and>
     run_call ledger_tokens 0 s (RemoveLiquidity [1] 1 10 11 1000000) = Inl Panic"
proof -
  obtain s where s: "sample_chain = Inr s" "ch_paid s 10 = 30" "tk_balance ledger_tokens (ch_world s) 10 0 = 1009970"
    "held (ch_engine s) 10 = 1010000" "run_call ledger_tokens 0 s (RemoveLiquidity [1] 1 10 11 1000000) = Inl Panic"
    using sample_chain_runs by blast
  have "1009970 + 30 = 1010000 + ch_donated s 10"
    using fees_come_out_of_reserves [OF ledger_tokens_laws sample_quiet sample_chain_steps [OF s(1)], of 10] s by simp
  then show ?thesis by (simp add: s del: run_call.simps One_nat_def)
qed

text \<open>A settled batch honours its orders.  If \<open>settle_batch\<close> returns, it returns one result for each
  order, in their order, with at least the minimum the order asked for and the fee of 30 in 10000; no pool's
  product of reserves has shrunk, and the results are what \<open>get_settlement_results\<close> answers.
\<close>

theorem settled_batch_honours_orders:
  assumes "token_laws T" and "no_self_allowance T self w"
    and "(engine_step T self)\<^sup>*\<^sup>* (deployed T self w) s"
    and "settle_batch T self (ch_engine s) (ch_world s) b os = Inr (rs, e', w')"
  shows "list_all2 honours os rs \<and> product (ch_engine s) k \<le> product e' k \<and> get_settlement_results e' b = rs"
proof -
  have "engine_ok (ch_engine s)" "no_self_allowance T self (ch_world s)"
    using token_contract.engine_steps_accounted [OF token_contract.intro [OF assms(1)] assms(3) deployed_accounted [OF assms(2)]] by (simp_all add: accounted_def)
  note kept = token_contract.settle_batch_kept [OF token_contract.intro [OF assms(1)] this assms(4)]
  have "product (ch_engine s) k \<le> product e' k" by (rule kept [THEN conjunct2, THEN conjunct1, THEN spec])
  moreover have "list_all2 honours os rs" "e_results e' = AList.update b rs (e_results (ch_engine s))" using kept by blast+
  ultimately show ?thesis by (simp add: get_settlement_results_def)
qed

theorem settled_batch_honours_orders_witness:
  "case sample_pools of Inl f \<Rightarrow> False | Inr s \<Rightarrow>
     (case settle_batch ledger_tokens 0 (ch_engine s) (ch_world s) [7] [sample_swap] of Inl f \<Rightarrow> False
      | Inr (rs, e', w') \<Rightarrow> map er_amount_out rs = [9871] \<and> list_all2 honours [sample_swap] rs \<and>
          product (ch_engine s) (10, 11) \<le> product e' (10, 11))"
proof -
  obtain s rs e' w' where s: "sample_pools = Inr s" "map er_amount_out rs = [9871]"
    "settle_batch ledger_tokens 0 (ch_engine s) (ch_world s) [7] [sample_swap] = Inr (rs, e', w')"
    using sample_pools_runs by (elim exE conjE)
  note steps = run_calls_steps [OF s(1) [unfolded sample_pools_def]]
  show ?thesis
    using settled_batch_honours_orders [OF ledger_tokens_laws sample_quiet steps s(3), of "(10, 11)"] by (simp add: s)
qed

text \<open>C37: Anyone can close a batch.  \<open>settle_batch\<close> asks for no authorization and takes the orders from
  its caller, so a batch not settled yet is closed by an empty list, and every later settlement
  of it fails.
\<close>

theorem batch_closed_by_anyone:
  assumes "map_of (e_results e) b = None"
  shows "\<exists>e'. settle_batch T self e w b [] = Inr ([], e', w) \<and>
    (\<forall>s s'. ch_engine s = e' \<longrightarrow> (engine_step T self)\<^sup>*\<^sup>* s s' \<longrightarrow>
       settle_batch T self (ch_engine s') (ch_world s') b os = Inl (Returned BatchAlreadySettled))"
proof -
  let ?e' = "e\<lparr>e_results := AList.update b [] (e_results e)\<rparr>"
  have "settle_batch T self (ch_engine s') w' b os = Inl (Returned BatchAlreadySettled)"
    if "ch_engine s = ?e'" "(engine_step T self)\<^sup>*\<^sup>* s s'" for s s' w'
    using engine_steps_results [OF that(2), of b "[]"] that(1) by (simp add: settle_batch_def update_conv)
  then show ?thesis using assms by (intro exI [of _ ?e']) (simp add: settle_batch_def)
qed

theorem batch_closed_by_anyone_witness:
  "case settle_batch ledger_tokens 0 new_engine sample_ledger [7] [] of Inl f \<Rightarrow> False
   | Inr (rs, e', w') \<Rightarrow> settle_batch ledger_tokens 0 e' w' [7] [sample_swap] = Inl (Returned BatchAlreadySettled)"
proof -
  obtain e' where e': "settle_batch ledger_tokens 0 new_engine sample_ledger [7] [] = Inr ([], e', sample_ledger)"
    and later: "\<forall>s s'. ch_engine s = e' \<longrightarrow> (engine_step ledger_tokens 0)\<^sup>*\<^sup>* s s' \<longrightarrow>
      settle_batch ledger_tokens 0 (ch_engine s') (ch_world s') [7] [sample_swap] = Inl (Returned BatchAlreadySettled)"
    using batch_closed_by_anyone [of new_engine "[7]" ledger_tokens 0 sample_ledger "[sample_swap]"]
    by (auto simp: new_engine_def)
  let ?s = "\<lparr>ch_engine = e', ch_world = sample_ledger, ch_paid = (\<lambda>t. 0), ch_donated = (\<lambda>t. 0)\<rparr>"
  have "settle_batch ledger_tokens 0 (ch_engine ?s) (ch_world ?s) [7] [sample_swap] = Inl (Returned BatchAlreadySettled)"
    by (rule later [rule_format, of ?s ?s]) simp_all
  then show ?thesis by (simp add: e')
qed

end
