(* ===== verification/SettlementFlow.thy ===== *)
theory SettlementFlow
  imports Settlement SettlementEngine
begin

text \<open>
  The settlement across the process boundary: \<open>sorobanService.settleBatch\<close> of the backend with
  the \<open>settlement-engine\<close> contract behind its contract call.  Addresses are strings here; the
  contract only needs some linear order on them, which is the lexicographic one.
\<close>

section \<open>The call\<close>

text \<open>
  What \<open>#[contracttype]\<close> makes of an argument: a map with exactly the fields of \<open>DecryptedOrder\<close> in
  the order of their names, each of its type, or the host refuses the call.
\<close>

definition order_of_sc :: "sc_val \<Rightarrow> jsstring engine_order option" where
  "order_of_sc v =
     (case v of
        ScMap [(k1, ScI128 amount_in), (k2, ScI128 min_amount_out), (k3, ScAddress token_in),
          (k4, ScAddress token_out), (k5, ScAddress user)] \<Rightarrow>
          if k1 = js ''amount_in'' \<and> k2 = js ''min_amount_out'' \<and> k3 = js ''token_in'' \<and> k4 = js ''token_out'' \<and> k5 = js ''user''
          then Some \<lparr>se_user = user, se_token_in = token_in, se_token_out = token_out,
            se_amount_in = amount_in, se_min_amount_out = min_amount_out\<rparr>
          else None
      | _ \<Rightarrow> None)"

definition native_of :: "jsstring engine_result \<Rightarrow> native_result" where
  "native_of r = \<lparr>nr_user = er_user r, nr_token_in = er_token_in r, nr_token_out = er_token_out r,
     nr_amount_in = er_amount_in r, nr_amount_out = er_amount_out r, nr_fee = er_fee r\<rparr>"

text \<open>The call as \<open>invokeContract\<close> reports it: a failed simulation or transaction is a 502.\<close>

definition contract_call ::
  "(jsstring, 'w) tokens \<Rightarrow> jsstring \<Rightarrow> (jsstring, 'w) chain \<Rightarrow> byte list \<Rightarrow> sc_val \<Rightarrow> error + native_result list" where
  "contract_call T self s b v =
     (case v of
        ScVec vs \<Rightarrow>
          (case those (map order_of_sc vs) of None \<Rightarrow> Inl (AppError 502)
           | Some os \<Rightarrow>
               (case settle_batch T self (ch_engine s) (ch_world s) b os of
                  Inl _ \<Rightarrow> Inl (AppError 502)
                | Inr (rs, _, _) \<Rightarrow> Inr (map native_of rs)))
      | _ \<Rightarrow> Inl (AppError 502))"

section \<open>Lemmas\<close>

lemma those_list_all2: "those xs = Some ys \<longleftrightarrow> list_all2 (\<lambda>x y. x = Some y) xs ys"
proof (induction xs arbitrary: ys)
  case (Cons x xs)
  then show ?case by (cases x; cases ys) (auto simp: list_all2_Cons1)
qed auto

text \<open>The contract reads back the order the backend wrote, with the addresses of its tokens.\<close>

lemma order_of_sc_order:
  assumes "decryptedOrderToScVal is_address tcs d = Inr v" and "order_of_sc v = Some ord"
  shows "se_user ord = do_user d \<and> se_amount_in ord = dec_value (do_amount_in d) \<and>
    se_min_amount_out ord = dec_value (do_min_amount_out d) \<and>
    resolveTokenAddress tcs (do_token_in d) = Inr (se_token_in ord) \<and>
    resolveTokenAddress tcs (do_token_out d) = Inr (se_token_out ord)"
  using assms by (auto simp: decryptedOrderToScVal_Inr order_of_sc_def split: if_splits)

lemma dec_value_int_to_string: "0 \<le> n \<Longrightarrow> dec_value (int_to_string 10 n) = n"
  by (simp add: int_to_string_def dec_value_nat_to_string)

text \<open>A result of the backend for an order.\<close>

definition settled_as :: "(jsstring \<times> jsstring) list \<Rightarrow> decrypted_order \<Rightarrow> settlement_result \<Rightarrow> bool" where
  "settled_as tcs d r \<longleftrightarrow> sr_user r = do_user d \<and>
     resolveTokenAddress tcs (do_token_in d) = Inr (sr_token_in r) \<and>
     resolveTokenAddress tcs (do_token_out d) = Inr (sr_token_out r) \<and>
     dec_value (sr_amount_in r) = dec_value (do_amount_in d) \<and>
     dec_value (do_min_amount_out d) \<le> dec_value (sr_amount_out r) \<and>
     dec_value (sr_fee r) = dec_value (do_amount_in d) * 30 div 10000"

lemma honoured_order:
  assumes "decryptedOrderToScVal is_address tcs d = Inr v" and "order_of_sc v = Some ord" and "honours ord r"
  shows "settled_as tcs d (nativeSettlementResult (native_of r))"
  using order_of_sc_order [OF assms(1,2)] assms(3)
  by (auto simp: settled_as_def honours_def nativeSettlementResult_def native_of_def dec_value_int_to_string)

lemma honoured_orders:
  assumes "list_all2 (\<lambda>d v. decryptedOrderToScVal is_address tcs d = Inr v) ds vs"
    and "list_all2 (\<lambda>v ord. order_of_sc v = Some ord) vs os" and "list_all2 honours os rs"
  shows "list_all2 (settled_as tcs) ds (map (nativeSettlementResult \<circ> native_of) rs)"
  using assms honoured_order
  by (auto simp: list_all2_conv_all_nth)

section \<open>A sample\<close>

text \<open>Accounts \<open>L\<close> and \<open>U\<close>, tokens \<open>A\<close> and \<open>B\<close>, the contract at \<open>E\<close>.\<close>

definition sample_accounts :: "jsstring ledger" where
  "sample_accounts = \<lparr>lg_balance = (\<lambda>t u. if u = js ''L'' \<or> u = js ''U'' then 10000000 else 0),
     lg_allowance = (\<lambda>t u s. if u = js ''U'' \<and> s = js ''E'' then 1000000 else 0)\<rparr>"

definition sample_market :: "failure + (jsstring, jsstring ledger) chain" where
  "sample_market = efold (run_call ledger_tokens (js ''E'')) (deployed ledger_tokens (js ''E'') sample_accounts)
     [AddLiquidity [js ''L''] (js ''L'') (js ''A'') (js ''B'') 1000000 1000000]"

definition sample_config :: soroban_config where
  "sample_config = \<lparr>sc_settlementEngineContract = js ''E'',
     sc_tokenContracts = [(js ''XLM'', js ''A''), (js ''USDC'', js ''B'')]\<rparr>"

definition sample_opened_order :: decrypted_order where
  "sample_opened_order = \<lparr>do_user = js ''U'', do_token_in = js ''XLM'', do_token_out = js ''USDC'',
     do_amount_in = js ''10000'', do_min_amount_out = js ''9000''\<rparr>"

definition sample_settled_id :: jsstring where
  "sample_settled_id = js ''00000000-0000-4000-8000-000000000001''"

lemma sample_accounts_quiet: "no_self_allowance ledger_tokens (js ''E'') sample_accounts"
  by (simp add: no_self_allowance_def ledger_tokens_def sample_accounts_def js_def)

lemma sample_market_runs: "\<exists>s. sample_market = Inr s \<and> (\<exists>results.
    soroban_settleBatch sample_config (\<lambda>a. True) (contract_call ledger_tokens (js ''E'') s) sample_settled_id [sample_opened_order]
      = Inr results)"
proof -
  have d: "dec_value (js ''10000'') = 10000" "dec_value (js ''9000'') = 9000" by code_simp+
  have v: "decryptedOrderToScVal (\<lambda>a. True) (sc_tokenContracts sample_config) sample_opened_order =
      Inr (ScMap [(js ''amount_in'', ScI128 10000), (js ''min_amount_out'', ScI128 9000),
        (js ''token_in'', ScAddress (js ''A'')), (js ''token_out'', ScAddress (js ''B'')), (js ''user'', ScAddress (js ''U''))])"
    unfolding decryptedOrderToScVal_Inr
    by (simp add: sample_config_def sample_opened_order_def resolveTokenAddress_def d) (simp add: js_def)
  have b: "batchIdBytes sample_settled_id = Inr [0,0,0,0,0,0,0x40,0,0x80,0,0,0,0,0,0,1]"
    by code_simp
  show ?thesis
    using v b
    by (simp add: sample_market_def sample_accounts_def soroban_settleBatch_def contract_call_def order_of_sc_def
        sample_run_simps sample_config_def js_def)
qed

section \<open>Settlement on chain\<close>

text \<open>C13: On-chain settlement keeps its word to the backend.  With a settlement contract configured, in
  any state the contract can reach, the results \<open>settleBatch\<close> returns are one for each opened order,
  in order: for the user of the order, between the contracts of the tokens it names, over its
  amount, with at least the minimum it asked for and the fee of 30 in 10000.
\<close>

theorem onchain_settlement_pays_minimum:
  assumes "token_laws T" and "no_self_allowance T self w" and "(engine_step T self)\<^sup>*\<^sup>* (deployed T self w) s"
    and "sc_settlementEngineContract cfg \<noteq> []"
    and "soroban_settleBatch cfg is_address (contract_call T self s) batchId orders = Inr results"
  shows "list_all2 (settled_as (sc_tokenContracts cfg)) orders results"
proof -
  from assms(4,5) obtain vals b raw where
      vals: "list_all2 (\<lambda>d v. decryptedOrderToScVal is_address (sc_tokenContracts cfg) d = Inr v) orders vals"
    and raw: "contract_call T self s b (ScVec vals) = Inr raw" and res: "results = map nativeSettlementResult raw"
    by (auto simp: soroban_settleBatch_def ebind_eq_Inr emap_eq_Inr)
  from raw obtain os rs e' w' where os: "those (map order_of_sc vals) = Some os"
    and settled: "settle_batch T self (ch_engine s) (ch_world s) b os = Inr (rs, e', w')" and rs: "raw = map native_of rs"
    by (auto simp: contract_call_def split: option.splits sum.splits)
  have "accounted T self s" 
    by (rule token_contract.engine_steps_accounted [OF token_contract.intro [OF assms(1)] assms(3) deployed_accounted [OF assms(2)]])
  then have "list_all2 honours os rs" using token_contract.settle_batch_kept [OF token_contract.intro [OF assms(1)] _ _ settled] by (simp add: accounted_def)
  moreover have "list_all2 (\<lambda>v ord. order_of_sc v = Some ord) vals os"
    using os by (simp add: those_list_all2 list_all2_map1)
  ultimately show ?thesis using honoured_orders [OF vals] by (simp add: res rs)
qed

theorem onchain_settlement_pays_minimum_witness:
  "case sample_market of Inl f \<Rightarrow> False | Inr s \<Rightarrow>
     (case soroban_settleBatch sample_config (\<lambda>a. True) (contract_call ledger_tokens (js ''E'') s) sample_settled_id [sample_opened_order] of
        Inl e \<Rightarrow> False
      | Inr results \<Rightarrow> list_all2 (settled_as (sc_tokenContracts sample_config)) [sample_opened_order] results)"
proof -
  obtain s results where s: "sample_market = Inr s"
    and r: "soroban_settleBatch sample_config (\<lambda>a. True) (contract_call ledger_tokens (js ''E'') s) sample_settled_id
      [sample_opened_order] = Inr results"
    using sample_market_runs by blast
  have c: "sc_settlementEngineContract sample_config \<noteq> []" by (simp add: sample_config_def js_def)
  note steps = run_calls_steps [OF s [unfolded sample_market_def]]
  show ?thesis
    using onchain_settlement_pays_minimum [OF ledger_tokens_laws sample_accounts_quiet steps c r] by (simp add: s r)
qed

end
