(* ===== verification/JsonPrint.thy ===== *)
theory JsonPrint
  imports JsonText
begin

text \<open>
  \<open>JSON.stringify\<close> of any value and its inverse: what \<open>JSON.parse\<close> reads back from the text.  An
  object is the list of its properties in the order in which the engine enumerates them.
\<close>

section \<open>Printing\<close>

text \<open>An undefined property is left out, an undefined element is \<open>null\<close>.\<close>

fun JSON_value :: "json \<Rightarrow> jsstring" where
  "JSON_value JUndefined = js ''null''"
| "JSON_value JNull = js ''null''"
| "JSON_value (JBool b) = (if b then js ''true'' else js ''false'')"
| "JSON_value (JInt i) = int_to_string 10 i"
| "JSON_value (JStr s) = json_quote s"
| "JSON_value (JArr xs) = [91] @ join [44] (map JSON_value xs) @ [93]"
| "JSON_value (JObj kvs) =
     [123] @ join [44] (map (\<lambda>(k, t). json_quote k @ [58] @ t)
       (map (\<lambda>(k, v). (k, JSON_value v)) (filter (\<lambda>(k, v). v \<noteq> JUndefined) kvs))) @ [125]"

text \<open>The value that is read back.\<close>

fun value_of :: "json \<Rightarrow> js_value" where
  "value_of JUndefined = VNull"
| "value_of JNull = VNull"
| "value_of (JBool b) = VBool b"
| "value_of (JInt i) = VNum (Fin (of_int i))"
| "value_of (JStr s) = VStr s"
| "value_of (JArr xs) = VArr (map value_of xs)"
| "value_of (JObj kvs) = VObj (map (\<lambda>(k, v). (k, value_of v)) (filter (\<lambda>(k, v). v \<noteq> JUndefined) kvs))"

text \<open>Integers that a double holds exactly.\<close>

fun printable :: "json \<Rightarrow> bool" where
  "printable (JInt i) = (\<bar>i\<bar> < 2 ^ 53)"
| "printable (JArr xs) = list_all printable xs"
| "printable (JObj kvs) = list_all (\<lambda>(k, v). printable v) kvs"
| "printable _ = True"

section \<open>Reading back\<close>

lemma parses_word:
  assumes "w = u # t" "\<not> is_json_space u" "u \<noteq> 34" "u \<noteq> 91" "u \<noteq> 123"
    and "\<And>n x. parse_value (Suc n) (w @ x) = Some (v, x)"
  shows "parses w v"
  unfolding parses_def
proof (intro exI [of _ 1] allI impI)
  fix n :: nat and x assume "1 \<le> n"
  then obtain m where "n = Suc m" by (cases n) auto
  then show "parse_value n (w @ x) = Some (v, x)" using assms(6) by simp
qed

lemma parses_null: "parses (js ''null'') VNull"
  by (rule parses_word) (auto simp: js_def is_json_space_def parse_word_def)

lemma parses_bool: "parses (if b then js ''true'' else js ''false'') (VBool b)"
  by (cases b; simp; rule parses_word) (auto simp: js_def is_json_space_def parse_word_def)

lemma join_head: "xs \<noteq> [] \<Longrightarrow> hd xs \<noteq> [] \<Longrightarrow> join [44] xs \<noteq> [] \<and> hd (join [44] xs) = hd (hd xs)"
  by (cases xs; cases "tl xs") auto

text \<open>The first unit of a text: never blank and never a closing bracket.\<close>

definition opens :: "jsstring \<Rightarrow> bool" where
  "opens t \<longleftrightarrow> t \<noteq> [] \<and> \<not> is_json_space (hd t) \<and> hd t \<noteq> 93 \<and> hd t \<noteq> 125"

lemma opens_value: "opens (JSON_value v)"
proof (cases v)
  case (JInt i)
  then show ?thesis
    using int_head [of i] by (auto simp: opens_def is_json_space_def is_digit_def)
qed (auto simp: opens_def is_json_space_def js_def json_quote_def)

lemma parse_elems_ok:
  assumes "list_all2 parses ts vs" and "ts \<noteq> []"
  shows "\<exists>m. \<forall>n \<ge> m. \<forall>x. parse_elems n (join [44] ts @ 93 # x) = Some (vs, x)"
  using assms
proof (induction ts arbitrary: vs)
  case (Cons t ts)
  from Cons.prems(1) obtain v vs' where vs: "vs = v # vs'" "parses t v" and tl: "list_all2 parses ts vs'"
    by (auto simp: list_all2_Cons1)
  obtain m1 where m1: "\<And>n x. m1 \<le> n \<Longrightarrow> delimited x \<Longrightarrow> parse_value n (t @ x) = Some (v, x)"
    using vs(2) unfolding parses_def by blast
  show ?case
  proof (cases ts)
    case Nil
    have "parse_elems n (t @ 93 # x) = Some (vs, x)" if "Suc m1 \<le> n" for n x
    proof -
      from that obtain n' where n': "n = Suc n'" "m1 \<le> n'" by (cases n) auto
      have "parse_value n' (t @ 93 # x) = Some (v, 93 # x)" by (rule m1 [OF n'(2)]) (simp add: delimited_def)
      then show ?thesis using Nil tl vs(1) n'(1) by (simp add: next_is_simps)
    qed
    then show ?thesis using Nil by auto
  next
    case (Cons t' ts')
    then obtain m2 where m2: "\<And>n x. m2 \<le> n \<Longrightarrow> parse_elems n (join [44] ts @ 93 # x) = Some (vs', x)"
      using Cons.IH [OF tl] by auto
    let ?r = "join [44] ts"
    have "parse_elems n (t @ 44 # ?r @ 93 # x) = Some (vs, x)" if "Suc (max m1 m2) \<le> n" for n x
    proof -
      from that obtain n' where n': "n = Suc n'" "m1 \<le> n'" "m2 \<le> n'" by (cases n) auto
      have "parse_value n' (t @ 44 # ?r @ 93 # x) = Some (v, 44 # ?r @ 93 # x)"
        by (rule m1 [OF n'(2)]) (simp add: delimited_def)
      then show ?thesis using m2 [OF n'(3)] vs(1) n'(1) by (simp add: next_is_hit is_json_space_def)
    qed
    then show ?thesis using Cons by (intro exI [of _ "Suc (max m1 m2)"]) simp
  qed
qed simp

lemma parses_bracket:
  assumes u: "u = 91 \<or> u = 123" and c: "c = (if u = 91 then 93 else 125)"
    and body: "\<And>x. next_is c (b @ x) = None" "\<exists>m. \<forall>n \<ge> m. \<forall>x.
      (if u = 91 then map_option (apfst VArr) (parse_elems n (b @ x)) else map_option (apfst VObj) (parse_members n (b @ x))) = Some (v, x)"
  shows "parses (u # b) v"
proof -
  obtain m where m: "\<And>n x. m \<le> n \<Longrightarrow>
      (if u = 91 then map_option (apfst VArr) (parse_elems n (b @ x)) else map_option (apfst VObj) (parse_members n (b @ x))) = Some (v, x)"
    using body(2) by blast
  have "parse_value n (u # b @ x) = Some (v, x)" if n: "Suc m \<le> n" for n x
  proof -
    obtain n' where n': "n = Suc n'" "m \<le> n'" using n by (cases n) auto
    then show ?thesis using m [OF n'(2), of x] body(1) [of x] u c
      by (auto simp: is_json_space_def)
  qed
  then show ?thesis unfolding parses_def by (intro exI [of _ "Suc m"]) simp
qed

lemma parses_empty: "parses [91, 93] (VArr [])" "parses [123, 125] (VObj [])"
  unfolding parses_def
  by ((intro exI [of _ 1] allI impI), (case_tac n), simp_all add: is_json_space_def next_is_simps)+

lemma parses_arr:
  assumes "list_all2 parses (map JSON_value xs) vs"
  shows "parses (JSON_value (JArr xs)) (VArr vs)"
proof (cases "xs = []")
  case True
  then show ?thesis using assms parses_empty(1) by simp
next
  case False
  let ?ts = "map JSON_value xs"
  have o: "opens (hd ?ts)" using False opens_value by (simp add: hd_map)
  obtain u y where uy: "join [44] ?ts = u # y" "\<not> is_json_space u" "u \<noteq> 93"
    using join_head [of ?ts] False o by (cases "join [44] ?ts") (auto simp: opens_def)
  have "next_is 93 ((join [44] ?ts @ [93]) @ x) = None" for x
    using uy by (simp add: next_is_miss)
  moreover obtain m where m: "\<And>n x. m \<le> n \<Longrightarrow> parse_elems n (join [44] ?ts @ 93 # x) = Some (vs, x)"
    using parse_elems_ok [OF assms] False by auto
  ultimately have "parses (91 # (join [44] ?ts @ [93])) (VArr vs)"
    by (intro parses_bracket [where c = 93] exI [of _ m]) (simp_all add: m)
  then show ?thesis by simp
qed

lemma parses_obj:
  assumes "list_all2 (\<lambda>(k, t) (k', v). k = k' \<and> parses t v) kts kvs"
  shows "parses ([123] @ join [44] (map (\<lambda>(k, t). json_quote k @ [58] @ t) kts) @ [125]) (VObj kvs)"
proof (cases "kts = []")
  case True
  then show ?thesis using assms parses_empty(2) by simp
next
  case False
  let ?j = "join [44] (map (\<lambda>(k, t). json_quote k @ [58] @ t) kts)"
  let ?ms = "map (\<lambda>(k, t). json_quote k @ [58] @ t) kts"
  have ms: "?ms \<noteq> []" "hd ?ms \<noteq> []" "hd (hd ?ms) = 34"
    using False by (cases kts; auto simp: json_quote_def)+
  have "?j \<noteq> [] \<and> hd ?j = 34" using join_head [OF ms(1,2)] ms(3) by (simp only: simp_thms)
  then have "?j = 34 # tl ?j" by (metis list.collapse)
  then obtain y where y: "?j = 34 # y" by blast
  have "next_is 125 ((?j @ [125]) @ x) = None" for x unfolding y by (simp add: next_is_simps)
  moreover obtain m where m: "\<And>n x. m \<le> n \<Longrightarrow> parse_members n (?j @ 125 # x) = Some (kvs, x)"
    using parse_members_ok [OF assms False] by blast
  ultimately have "parses (123 # (?j @ [125])) (VObj kvs)"
    by (intro parses_bracket [where c = 125] exI [of _ m]) (simp_all add: m)
  then show ?thesis by simp
qed

lemma parses_value: "printable v \<Longrightarrow> parses (JSON_value v) (value_of v)"
proof (induction v rule: JSON_value.induct)
  case (3 b)
  then show ?case using parses_bool [of b] by simp
next
  case (4 i)
  then show ?case using parses_int [of i] by (simp add: json_text_def)
next
  case (5 s)
  then show ?case using parses_string [of s] by (simp add: json_text_def)
next
  case (6 xs)
  then have "list_all2 parses (map JSON_value xs) (map value_of xs)"
    by (simp add: list_all2_conv_all_nth list_all_length)
  then show ?case using parses_arr by simp
next
  case (7 kvs)
  let ?kvs = "filter (\<lambda>(k, v). v \<noteq> JUndefined) kvs"
  have "parses (JSON_value v) (value_of v)" if "(k, v) \<in> set ?kvs" for k v
    using 7 that by (auto simp: list_all_iff)
  then have "list_all2 (\<lambda>(k, t) (k', v). k = k' \<and> parses t v) (map (\<lambda>(k, v). (k, JSON_value v)) ?kvs)
      (map (\<lambda>(k, v). (k, value_of v)) ?kvs)"
    unfolding list_all2_map1 list_all2_map2 by (intro list_all2_same [THEN iffD2]) auto
  then show ?case unfolding JSON_value.simps value_of.simps by (rule parses_obj)
qed (use parses_null in simp_all)

text \<open>Parsing inverts printing.\<close>

lemma JSON_parse_value: "printable v \<Longrightarrow> JSON_parse (JSON_value v) = Inr (value_of v)"
  by (rule JSON_parse_parses [OF parses_value])

section \<open>Texts on the wire\<close>

lemma well_formed_join: "(\<And>x. x \<in> set xs \<Longrightarrow> well_formed x) \<Longrightarrow> well_formed (join [44] xs)"
proof (induction "[44] :: jsstring" xs rule: join.induct)
  case (3 x y ys)
  then have "well_formed (join [44] (y # ys))" "well_formed x" by auto
  then show ?case using well_formed_append [of x] by (simp add: well_formed_Cons is_high_def is_low_def)
qed auto

lemma well_formed_quote: "well_formed (json_quote s)"
  using well_formed_json_units [of s] well_formed_append [of "json_units s" "[34]"]
  by (simp add: json_quote_def well_formed_Cons is_high_def is_low_def)

lemma well_formed_value: "well_formed (JSON_value v)"
proof (induction v rule: JSON_value.induct)
  case (4 i)
  then show ?case using ascii_int [of i] by (intro well_formed_ascii) simp
next
  case (5 s)
  then show ?case using well_formed_quote by simp
next
  case (6 xs)
  then have "well_formed (join [44] (map JSON_value xs))" by (intro well_formed_join) auto
  then show ?case by (simp add: well_formed_append well_formed_Cons is_high_def is_low_def)
next
  case (7 kvs)
  have "well_formed (json_quote k @ [58] @ JSON_value v)" if "(k, v) \<in> set (filter (\<lambda>(k, v). v \<noteq> JUndefined) kvs)" for k v
    using 7 that well_formed_quote [of k] by (auto simp: well_formed_append well_formed_Cons is_high_def is_low_def)
  then have "well_formed (join [44] (map (\<lambda>(k, t). json_quote k @ [58] @ t)
      (map (\<lambda>(k, v). (k, JSON_value v)) (filter (\<lambda>(k, v). v \<noteq> JUndefined) kvs))))"
    by (intro well_formed_join) auto
  then show ?case by (simp add: well_formed_append well_formed_Cons is_high_def is_low_def)
qed (simp_all add: js_def is_high_def is_low_def)

text \<open>What arrives is what was sent: UTF-8 loses nothing of a printed text.\<close>

lemma utf8_value: "utf8_decode (utf8_encode (JSON_value v)) = JSON_value v"
proof (rule utf8_roundtrip)
  show "well_formed (JSON_value v)" by (rule well_formed_value)
  show "take 1 (JSON_value v) \<noteq> [0xFEFF]"
  proof (cases v)
    case (JInt i)
    then show ?thesis using int_head [of i] by (cases "int_to_string 10 i") (auto simp: is_digit_def)
  qed (auto simp: js_def json_quote_def)
qed

end
