(* ===== verification/Http.thy ===== *)
theory Http
  imports JsonText
begin

text \<open>What the two HTTP interfaces share: methods, and reading the properties of a parsed body.\<close>

datatype http_method = GET | POST

text \<open>\<open>b.k\<close> for a \<open>b\<close> that is not null, and \<open>x ?? d\<close>.\<close>

definition js_prop :: "js_value \<Rightarrow> string \<Rightarrow> js_value option" where
  "js_prop b k = (case b of VObj kvs \<Rightarrow> map_of (rev kvs) (js k) | _ \<Rightarrow> None)"

definition nullish :: "js_value option \<Rightarrow> js_value \<Rightarrow> js_value" where
  "nullish x d = (case x of None \<Rightarrow> d | Some VNull \<Rightarrow> d | Some v \<Rightarrow> v)"

end
