(* ===== verification/Transport.thy ===== *)
theory Transport
  imports JsonPrint Http Startup
begin

text \<open>
  A validator behind HTTP: the client \<open>RemoteValidator\<close> (\<open>backend/src/validator/remoteValidator.ts\<close>)
  and the server \<open>createValidatorApp\<close> (\<open>validator/server.ts\<close>), and that together they are the
  validator itself.

  What crosses the wire are bytes; the validator's methods take and return JSON values.  Express's
  \<open>express.json({ limit: '5mb' })\<close> is the argument \<open>P\<close>: the parsed body or the status it answers with.
\<close>

section \<open>The client\<close>

record wire_request =
  wr_method :: http_method
  wr_path :: jsstring
  wr_authorization :: "jsstring option"
  wr_body :: "byte list option"

text \<open>The calls of the interface \<open>ValidatorNode\<close>; messages are JSON values.\<close>

datatype node_request =
    Info
  | DecryptionShares jsstring "jsstring list"
  | DkgBegin jsstring int "int list"
  | DkgDeal "json list"
  | DkgReceive "json list" "json list"
  | DkgRespond "json list"
  | DkgFinalize "json list" "json list" "json list"

fun request_line :: "node_request \<Rightarrow> http_method \<times> jsstring \<times> json option" where
  "request_line Info = (GET, js ''/v1/info'', None)"
| "request_line (DecryptionShares batchId ciphertexts) = (POST, js ''/v1/decryption-shares'',
     Some (JObj [(js ''batchId'', JStr batchId), (js ''ciphertexts'', JArr (map JStr ciphertexts))]))"
| "request_line (DkgBegin session threshold participants) = (POST, js ''/v1/dkg/begin'',
     Some (JObj [(js ''session'', JStr session), (js ''threshold'', JInt threshold),
       (js ''participants'', JArr (map JInt participants))]))"
| "request_line (DkgDeal transportKeys) = (POST, js ''/v1/dkg/deal'',
     Some (JObj [(js ''transportKeys'', JArr transportKeys)]))"
| "request_line (DkgReceive broadcasts sharesForMe) = (POST, js ''/v1/dkg/receive'',
     Some (JObj [(js ''broadcasts'', JArr broadcasts), (js ''sharesForMe'', JArr sharesForMe)]))"
| "request_line (DkgRespond complaints) = (POST, js ''/v1/dkg/respond'',
     Some (JObj [(js ''complaints'', JArr complaints)]))"
| "request_line (DkgFinalize broadcasts complaints reveals) = (POST, js ''/v1/dkg/finalize'',
     Some (JObj [(js ''transcript'', JObj [(js ''broadcasts'', JArr broadcasts), (js ''complaints'', JArr complaints),
       (js ''reveals'', JArr reveals)])]))"

definition wire_request :: "int cluster_member \<Rightarrow> node_request \<Rightarrow> wire_request" where
  "wire_request member req = (case request_line req of (http_method, route, body) \<Rightarrow>
     \<lparr>wr_method = http_method, wr_path = route, wr_authorization = Some (js ''Bearer '' @ cm_apiToken member),
      wr_body = map_option (\<lambda>b. utf8_encode (JSON_value b)) body\<rparr>)"

text \<open>
  \<open>call\<close>: an exchange with the server \<open>srv\<close> in its state \<open>s\<close>.  A request or an answer may be lost, or
  take longer than the time limit; then the server may have acted all the same.
\<close>

datatype delivery = Delivered | RequestLost | ResponseLost

definition remote_exchange ::
  "int cluster_member \<Rightarrow> delivery \<Rightarrow> (wire_request \<Rightarrow> 's \<Rightarrow> 's \<times> nat \<times> byte list) \<Rightarrow> node_request \<Rightarrow> 's
     \<Rightarrow> 's \<times> (error + js_value)" where
  "remote_exchange member d srv req s =
     (case d of
        RequestLost \<Rightarrow> (s, remote_call (VObj []) NoResponse)
      | ResponseLost \<Rightarrow> (fst (srv (wire_request member req) s), remote_call (VObj []) NoResponse)
      | Delivered \<Rightarrow>
          (case srv (wire_request member req) s of (s', code, bytes) \<Rightarrow>
             (s', remote_call (VObj []) (Response code
               (case JSON_parse (utf8_decode bytes) of Inl _ \<Rightarrow> None | Inr v \<Rightarrow> Some v)))))"

section \<open>The server\<close>

text \<open>The validator's methods as the routes call them, with whatever the body holds.\<close>

record 's untyped_validator =
  uv_index :: "'s \<Rightarrow> int"
  uv_info :: "'s \<Rightarrow> 's \<times> (error + json)"
  uv_shares :: "'s \<Rightarrow> jsstring \<Rightarrow> js_value option \<Rightarrow> 's \<times> (error + json)"
  uv_begin :: "'s \<Rightarrow> jsstring \<Rightarrow> js_value option \<Rightarrow> js_value option \<Rightarrow> 's \<times> (error + json)"
  uv_deal :: "'s \<Rightarrow> js_value \<Rightarrow> 's \<times> (error + json)"
  uv_receive :: "'s \<Rightarrow> js_value \<Rightarrow> js_value \<Rightarrow> 's \<times> (error + json)"
  uv_respond :: "'s \<Rightarrow> js_value \<Rightarrow> 's \<times> (error + json)"
  uv_finalize :: "'s \<Rightarrow> js_value \<Rightarrow> 's \<times> (error + json)"

text \<open>\<open>String(x)\<close>; \<open>numText\<close> writes a number.\<close>

fun value_String :: "(js_number \<Rightarrow> jsstring) \<Rightarrow> js_value \<Rightarrow> jsstring" where
  "value_String numText VNull = js ''null''"
| "value_String numText (VBool b) = (if b then js ''true'' else js ''false'')"
| "value_String numText (VNum x) = numText x"
| "value_String numText (VStr s) = s"
| "value_String numText (VArr xs) = join [44] (map (\<lambda>x. if x = VNull then [] else value_String numText x) xs)"
| "value_String numText (VObj kvs) = js ''[object Object]''"

definition js_String :: "(js_number \<Rightarrow> jsstring) \<Rightarrow> js_value option \<Rightarrow> jsstring" where
  "js_String numText x = (case x of None \<Rightarrow> js ''undefined'' | Some v \<Rightarrow> value_String numText v)"

definition v1_handler ::
  "(js_number \<Rightarrow> jsstring) \<Rightarrow> 's untyped_validator \<Rightarrow> http_method \<Rightarrow> jsstring \<Rightarrow> js_value
     \<Rightarrow> ('s \<Rightarrow> 's \<times> (error + json)) option" where
  "v1_handler numText U http_method path b =
     (if http_method = GET then
        (if path = js ''/v1/info'' then Some (uv_info U) else None)
      else if path = js ''/v1/decryption-shares'' then
        Some (\<lambda>s. uv_shares U s (js_String numText (js_prop b ''batchId'')) (js_prop b ''ciphertexts''))
      else if path = js ''/v1/dkg/begin'' then
        Some (\<lambda>s. uv_begin U s (js_String numText (js_prop b ''session'')) (js_prop b ''threshold'') (js_prop b ''participants''))
      else if path = js ''/v1/dkg/deal'' then
        Some (\<lambda>s. uv_deal U s (nullish (js_prop b ''transportKeys'') (VArr [])))
      else if path = js ''/v1/dkg/receive'' then
        Some (\<lambda>s. uv_receive U s (nullish (js_prop b ''broadcasts'') (VArr [])) (nullish (js_prop b ''sharesForMe'') (VArr [])))
      else if path = js ''/v1/dkg/respond'' then
        Some (\<lambda>s. uv_respond U s (nullish (js_prop b ''complaints'') (VArr [])))
      else if path = js ''/v1/dkg/finalize'' then
        Some (\<lambda>s. uv_finalize U s (nullish (js_prop b ''transcript'')
          (VObj [(js ''broadcasts'', VArr []), (js ''complaints'', VArr []), (js ''reveals'', VArr [])])))
      else None)"

text \<open>\<open>res.json\<close>, and the wrapper \<open>route\<close>; \<open>errText\<close> is the message of an error.\<close>

definition res_json :: "nat \<Rightarrow> json \<Rightarrow> nat \<times> byte list" where
  "res_json code v = (code, utf8_encode (JSON_value v))"

definition v1_answer :: "(error \<Rightarrow> jsstring) \<Rightarrow> error + json \<Rightarrow> nat \<times> byte list" where
  "v1_answer errText r = (case r of Inl e \<Rightarrow> res_json 400 (JObj [(js ''error'', JStr (errText e))]) | Inr x \<Rightarrow> res_json 200 x)"

text \<open>
  The application, for paths in lower case: the body is parsed before anything else, then \<open>/health\<close>, the token for everything
  under \<open>/v1\<close>, and the routes.  Answers that Express makes itself have the empty body here.
\<close>

definition serve ::
  "(byte list \<Rightarrow> nat + js_value) \<Rightarrow> (js_number \<Rightarrow> jsstring) \<Rightarrow> (error \<Rightarrow> jsstring) \<Rightarrow> jsstring \<Rightarrow> 's untyped_validator
     \<Rightarrow> wire_request \<Rightarrow> 's \<Rightarrow> 's \<times> nat \<times> byte list" where
  "serve P numText errText apiToken U req s =
     (case (case wr_body req of None \<Rightarrow> Inr (VObj []) | Some bs \<Rightarrow> P bs) of
        Inl code \<Rightarrow> (s, code, [])
      | Inr body \<Rightarrow>
          if wr_method req = GET \<and> wr_path req = js ''/health'' then
            (s, res_json 200 (JObj [(js ''status'', JStr (js ''ok'')), (js ''index'', JInt (uv_index U s))]))
          else if (wr_path req = js ''/v1'' \<or> take 4 (wr_path req) = js ''/v1/'') \<and> \<not> v1_authorized apiToken (wr_authorization req) then
            (s, res_json 401 (JObj [(js ''error'', JStr (js ''unauthorized''))]))
          else
            (case v1_handler numText U (wr_method req) (wr_path req) (nullish (Some body) (VObj [])) of
               None \<Rightarrow> (s, 404, [])
             | Some fn \<Rightarrow> (case fn s of (s', r) \<Rightarrow> (s', v1_answer errText r))))"

definition createValidatorApp ::
  "(byte list \<Rightarrow> nat + js_value) \<Rightarrow> (js_number \<Rightarrow> jsstring) \<Rightarrow> (error \<Rightarrow> jsstring) \<Rightarrow> 's untyped_validator \<Rightarrow> jsstring
     \<Rightarrow> error + (wire_request \<Rightarrow> 's \<Rightarrow> 's \<times> nat \<times> byte list)" where
  "createValidatorApp P numText errText U apiToken =
     (if length apiToken < 32 then Inl SecretTooShort else Inr (serve P numText errText apiToken U))"

section \<open>The validator without HTTP\<close>

text \<open>The same call on the validator's methods directly.\<close>

fun direct_call :: "'s untyped_validator \<Rightarrow> node_request \<Rightarrow> 's \<Rightarrow> 's \<times> (error + json)" where
  "direct_call U Info s = uv_info U s"
| "direct_call U (DecryptionShares batchId cts) s = uv_shares U s batchId (Some (VArr (map VStr cts)))"
| "direct_call U (DkgBegin session t ps) s = uv_begin U s session (Some (VNum (Fin (of_int t))))
     (Some (VArr (map (\<lambda>p. VNum (Fin (of_int p))) ps)))"
| "direct_call U (DkgDeal ks) s = uv_deal U s (VArr (map value_of ks))"
| "direct_call U (DkgReceive bs ss) s = uv_receive U s (VArr (map value_of bs)) (VArr (map value_of ss))"
| "direct_call U (DkgRespond cs) s = uv_respond U s (VArr (map value_of cs))"
| "direct_call U (DkgFinalize bs cs rs) s = uv_finalize U s (VObj [(js ''broadcasts'', VArr (map value_of bs)),
     (js ''complaints'', VArr (map value_of cs)), (js ''reveals'', VArr (map value_of rs))])"

text \<open>
  What Express documents of its JSON parser: a body within the limit (5 MB are \<open>5 \<cdot> 2\<^sup>2\<^sup>0\<close> bytes) that is
  the UTF-8 text of an object is given to \<open>JSON.parse\<close>.
\<close>

definition BODY_LIMIT :: nat where "BODY_LIMIT = 5 * 2 ^ 20"

definition body_parser_laws :: "(byte list \<Rightarrow> nat + js_value) \<Rightarrow> bool" where
  "body_parser_laws P \<longleftrightarrow>
     (\<forall>t v. take 1 t = [123] \<longrightarrow> well_formed t \<longrightarrow> length (utf8_encode t) \<le> BODY_LIMIT \<longrightarrow> JSON_parse t = Inr v \<longrightarrow>
        P (utf8_encode t) = Inr v)"

fun printable_request :: "node_request \<Rightarrow> bool" where
  "printable_request (DkgBegin session t ps) \<longleftrightarrow> \<bar>t\<bar> < 2 ^ 53 \<and> list_all (\<lambda>p. \<bar>p\<bar> < 2 ^ 53) ps"
| "printable_request (DkgDeal ks) \<longleftrightarrow> list_all printable ks"
| "printable_request (DkgReceive bs ss) \<longleftrightarrow> list_all printable bs \<and> list_all printable ss"
| "printable_request (DkgRespond cs) \<longleftrightarrow> list_all printable cs"
| "printable_request (DkgFinalize bs cs rs) \<longleftrightarrow> list_all printable bs \<and> list_all printable cs \<and> list_all printable rs"
| "printable_request _ \<longleftrightarrow> True"

definition fits :: "node_request \<Rightarrow> bool" where
  "fits req = (case request_line req of (_, _, None) \<Rightarrow> True | (_, _, Some b) \<Rightarrow> length (utf8_encode (JSON_value b)) \<le> BODY_LIMIT)"

section \<open>Lemmas\<close>

definition request_body :: "node_request \<Rightarrow> js_value" where
  "request_body req = (case request_line req of (_, _, None) \<Rightarrow> VObj [] | (_, _, Some b) \<Rightarrow> value_of b)"

lemma body_props:
  "js_prop (VObj ((js k, v) # kvs)) k' = (case js_prop (VObj kvs) k' of None \<Rightarrow> if k = k' then Some v else None | Some w \<Rightarrow> Some w)"
  "js_prop (VObj []) k = None"
  by (auto simp: js_prop_def js_eq_iff map_add_def split: option.split)

lemma v1_handler_direct:
  assumes "request_line req = (http_method, path, b)"
  shows "v1_handler numText U http_method path (nullish (Some (request_body req)) (VObj [])) = Some (direct_call U req)"
  using assms
  by (cases req; clarsimp simp: v1_handler_def request_body_def nullish_def body_props js_eq_iff js_String_def fun_eq_iff comp_def)

lemma request_printable:
  assumes "printable_request req" and "request_line req = (http_method, path, Some b)"
  shows "printable b \<and> take 1 (JSON_value b) = [123]"
  using assms by (cases req) (auto simp: list_all_iff)

lemma request_path: "request_line req = (http_method, path, b) \<Longrightarrow>
    take 4 path = js ''/v1/'' \<and> path \<noteq> js ''/health''"
  by (cases req) (auto simp: js_def)

lemma request_parsed:
  assumes P: "body_parser_laws P" and "printable_request req" and "fits req"
    and r: "request_line req = (http_method, path, b)"
  shows "(case map_option (\<lambda>b. utf8_encode (JSON_value b)) b of None \<Rightarrow> Inr (VObj []) | Some bs \<Rightarrow> P bs) = Inr (request_body req)"
proof (cases b)
  case None
  then show ?thesis using r by (simp add: request_body_def)
next
  case (Some c)
  then have c: "printable c" "take 1 (JSON_value c) = [123]" using request_printable assms(2) r by auto
  have "length (utf8_encode (JSON_value c)) \<le> BODY_LIMIT" using assms(3) r Some by (simp add: fits_def)
  then have "P (utf8_encode (JSON_value c)) = Inr (value_of c)"
    using P c well_formed_value JSON_parse_value [OF c(1)] by (auto simp: body_parser_laws_def)
  then show ?thesis using r Some by (simp add: request_body_def)
qed

text \<open>The token the client presents is the one the server asks for.\<close>

definition is_api_token :: "jsstring \<Rightarrow> bool" where
  "is_api_token t \<longleftrightarrow> 32 \<le> length t \<and> list_all (\<lambda>c. unat c < 128 \<and> \<not> js_space c) t"

lemma bearer_authorized: "is_api_token t \<Longrightarrow> v1_authorized t (Some (js ''Bearer '' @ t))"
  by (subst v1_authorized_iff) (auto simp: is_api_token_def list_all_iff intro!: bearer_header)

lemma serve_request:
  assumes "body_parser_laws P" and "is_api_token apiToken" and "cm_apiToken member = apiToken"
    and "printable_request req" and "fits req"
  shows "serve P numText errText apiToken U (wire_request member req) s =
    (case direct_call U req s of (s', r) \<Rightarrow> (s', v1_answer errText r))"
proof -
  obtain http_method path b where r: "request_line req = (http_method, path, b)" by (metis prod_cases3)
  have w: "wire_request member req = \<lparr>wr_method = http_method, wr_path = path,
      wr_authorization = Some (js ''Bearer '' @ apiToken), wr_body = map_option (\<lambda>b. utf8_encode (JSON_value b)) b\<rparr>"
    by (simp add: wire_request_def r assms(3))
  show ?thesis
    unfolding serve_def w wire_request.simps request_parsed [OF assms(1,4,5) r] sum.case v1_handler_direct [OF r] option.case
    using request_path [OF r] bearer_authorized [OF assms(2)] by simp
qed

lemma answer_received:
  assumes "\<And>x. r = Inr x \<Longrightarrow> printable x" and "v1_answer errText r = (code, bytes)"
  shows "remote_call (VObj []) (Response code (case JSON_parse (utf8_decode bytes) of Inl _ \<Rightarrow> None | Inr v \<Rightarrow> Some v)) =
    (case r of Inl e \<Rightarrow> Inl (HttpError 400) | Inr x \<Rightarrow> Inr (value_of x))"
proof (cases r)
  case (Inl e)
  then show ?thesis using assms(2) by (auto simp: v1_answer_def res_json_def remote_call_def)
next
  case (Inr x)
  then have "printable x" using assms(1) by simp
  then show ?thesis using assms(2) Inr
    by (auto simp: v1_answer_def res_json_def remote_call_def utf8_value JSON_parse_value)
qed

lemma exchange_delivered:
  assumes "body_parser_laws P" and "is_api_token apiToken" and "cm_apiToken member = apiToken"
    and "printable_request req" and "fits req" and "\<And>x. snd (direct_call U req s) = Inr x \<Longrightarrow> printable x"
  shows "remote_exchange member Delivered (serve P numText errText apiToken U) req s =
    (case direct_call U req s of (s', r) \<Rightarrow> (s', case r of Inl e \<Rightarrow> Inl (HttpError 400) | Inr x \<Rightarrow> Inr (value_of x)))"
proof -
  obtain s' r where d: "direct_call U req s = (s', r)" by (cases "direct_call U req s")
  obtain code bytes where a: "v1_answer errText r = (code, bytes)" by (cases "v1_answer errText r")
  show ?thesis
    using answer_received [OF _ a] assms(6) serve_request [OF assms(1-5), of numText errText U s]
    by (simp add: remote_exchange_def d a)
qed

lemma v1_handler_path: "v1_handler numText U http_method path b \<noteq> None \<Longrightarrow> take 4 path = js ''/v1/''"
  by (auto simp: v1_handler_def split: if_splits) (simp_all add: js_def)

lemma serve_unauthorized:
  assumes "\<not> v1_authorized apiToken (wr_authorization req)" and "uv_index U = uv_index U'"
  shows "serve P numText errText apiToken U req s = serve P numText errText apiToken U' req s \<and>
    fst (serve P numText errText apiToken U req s) = s"
proof -
  have n: "v1_handler numText V (wr_method req) (wr_path req) b = None"
    if "\<not> take 4 (wr_path req) = js ''/v1/''" for V :: "'a untyped_validator" and b
    using v1_handler_path that by blast
  show ?thesis
    unfolding serve_def using assms n
    by (cases "take 4 (wr_path req) = js ''/v1/''") (auto split: sum.split)
qed

section \<open>Decryption shares over HTTP\<close>

definition share_json :: "decryption_share \<Rightarrow> json" where
  "share_json s = JObj [(js ''index'', JInt (ds_index s)), (js ''share'', JStr (ds_share s)),
     (js ''proof'', JObj [(js ''c'', JStr (ds_c s)), (js ''z'', JStr (ds_z s))])]"

text \<open>An entry as the coordinator looks at it: \<open>share?.index\<close> and the texts of point and proof.\<close>

definition read_share :: "js_value \<Rightarrow> decryption_share option" where
  "read_share v =
     (case (js_prop v ''index'', js_prop v ''share'', js_prop v ''proof'') of
        (Some (VNum x), Some (VStr d), Some p) \<Rightarrow>
          (case (js_integer x, js_prop p ''c'', js_prop p ''z'') of
             (Some i, Some (VStr c), Some (VStr z)) \<Rightarrow> Some \<lparr>ds_index = i, ds_share = d, ds_c = c, ds_z = z\<rparr>
           | _ \<Rightarrow> None)
      | _ \<Rightarrow> None)"

definition read_answer :: "error + js_value \<Rightarrow> error + share_answer" where
  "read_answer r = ebind r (\<lambda>v. Inr (case v of VArr xs \<Rightarrow> ShareList (map read_share xs) | _ \<Rightarrow> NotAList))"

text \<open>The ciphertexts of a request body: the check for an array of strings sees only which elements are strings.\<close>

definition body_strings :: "js_value option \<Rightarrow> json" where
  "body_strings x = (case x of
     Some (VArr xs) \<Rightarrow> JArr (map (\<lambda>v. case v of VStr s \<Rightarrow> JStr s | _ \<Rightarrow> JNull) xs)
   | _ \<Rightarrow> JUndefined)"

text \<open>The server's validator: \<open>requestDecryptionShares\<close> of a \<open>LocalValidator\<close>, whatever the other methods are.\<close>

definition share_server ::
  "'p curve \<Rightarrow> (byte list \<Rightarrow> byte list) \<Rightarrow> (byte list \<Rightarrow> byte list) \<Rightarrow> (jsstring \<Rightarrow> error + batch_record option)
     \<Rightarrow> (local_validator \<Rightarrow> nat \<Rightarrow> byte list list) \<Rightarrow> local_validator untyped_validator \<Rightarrow> local_validator untyped_validator" where
  "share_server C H sha readBatch draws U = U\<lparr>uv_shares := (\<lambda>v batchId ciphertexts.
     (v, ebind (requestDecryptionShares C H sha readBatch (draws v) v batchId (body_strings ciphertexts)) (\<lambda>shares.
       Inr (JArr (map share_json shares)))))\<rparr>"

definition ask_http ::
  "(byte list \<Rightarrow> nat + js_value) \<Rightarrow> (js_number \<Rightarrow> jsstring) \<Rightarrow> (error \<Rightarrow> jsstring) \<Rightarrow> local_validator untyped_validator
     \<Rightarrow> (local_validator \<Rightarrow> int cluster_member) \<Rightarrow> local_validator \<Rightarrow> jsstring \<Rightarrow> jsstring list \<Rightarrow> error + share_answer" where
  "ask_http P numText errText U member v batchId cts =
     read_answer (snd (remote_exchange (member v) Delivered (serve P numText errText (cm_apiToken (member v)) U)
       (DecryptionShares batchId cts) v))"

definition ask_direct ::
  "'p curve \<Rightarrow> (byte list \<Rightarrow> byte list) \<Rightarrow> (byte list \<Rightarrow> byte list) \<Rightarrow> (jsstring \<Rightarrow> error + batch_record option)
     \<Rightarrow> (local_validator \<Rightarrow> nat \<Rightarrow> byte list list) \<Rightarrow> local_validator \<Rightarrow> jsstring \<Rightarrow> jsstring list \<Rightarrow> error + share_answer" where
  "ask_direct C H sha readBatch draws v batchId cts =
     local_answer (requestDecryptionShares C H sha readBatch (draws v) v batchId (JArr (map JStr cts)))"

lemma read_share_json: "read_share (value_of (share_json s)) = Some s"
  by (simp add: read_share_def share_json_def body_props js_eq_iff js_integer_def)

lemma printable_share: "\<bar>ds_index s\<bar> < 2 ^ 53 \<Longrightarrow> printable (share_json s)"
  by (simp add: share_json_def)

lemma body_strings_strings: "body_strings (Some (VArr (map VStr cts))) = JArr (map JStr cts)"
  by (simp add: body_strings_def comp_def)

lemma partialDecrypt_index: "partialDecrypt C H draws ks R = Inr s \<Longrightarrow> ds_index s = ks_index ks"
  by (auto simp: partialDecrypt_def Let_def ebind_eq_Inr)

lemma released_index:
  assumes "requestDecryptionShares C H sha readBatch draws v b j = Inr shares" and "s \<in> set shares"
  shows "\<exists>ks. lv_keyShare v = Some ks \<and> ds_index s = ks_index ks"
  using assms(1)
proof (rule requestDecryptionShares_Inr)
  fix keyShare cts ledger
  assume k: "lv_keyShare v = Some keyShare" "length shares = length cts"
    and e: "\<And>k. k < length cts \<Longrightarrow> \<exists>p share. parseCiphertext C (cts ! k) = Inr p \<and>
       partialDecrypt C H (draws k) keyShare (pc_R p) = Inr share \<and>
       shares ! k = (if lv_byzantine v then share\<lparr>ds_share := pt_toHex C (pt_BASE C)\<rparr> else share)"
  obtain i where i: "i < length cts" "shares ! i = s" using assms(2) k(2) by (metis in_set_conv_nth)
  from e [OF i(1)] obtain share where "ds_index share = ks_index keyShare"
    "s = (if lv_byzantine v then share\<lparr>ds_share := pt_toHex C (pt_BASE C)\<rparr> else share)"
    using i(2) partialDecrypt_index by metis
  then show ?thesis using k(1) by simp
qed

text \<open>An answer over HTTP is the direct answer, but that every error is a status.\<close>

definition same_answer :: "error + share_answer \<Rightarrow> error + share_answer \<Rightarrow> bool" where
  "same_answer r q \<longleftrightarrow> r = q \<or> (\<exists>e e'. r = Inl e \<and> q = Inl e')"

lemma ask_http_direct:
  assumes "body_parser_laws P" and "is_api_token (cm_apiToken (member v))" and "fits (DecryptionShares b cts)"
    and "\<And>ks. lv_keyShare v = Some ks \<Longrightarrow> \<bar>ks_index ks\<bar> < 2 ^ 53"
  shows "same_answer (ask_http P numText errText (share_server C H sha readBatch draws U) member v b cts)
    (ask_direct C H sha readBatch draws v b cts)"
proof -
  let ?r = "requestDecryptionShares C H sha readBatch (draws v) v b (JArr (map JStr cts))"
  have d: "direct_call (share_server C H sha readBatch draws U) (DecryptionShares b cts) v =
      (v, ebind ?r (\<lambda>shares. Inr (JArr (map share_json shares))))"
    by (simp add: share_server_def body_strings_strings)
  have p: "printable x" if x: "snd (direct_call (share_server C H sha readBatch draws U) (DecryptionShares b cts) v) = Inr x" for x
  proof -
    obtain shares where "?r = Inr shares" "x = JArr (map share_json shares)" using x [unfolded d] by (auto simp: ebind_eq_Inr)
    then show ?thesis using released_index assms(4) printable_share by (fastforce simp: list_all_iff)
  qed
  have q: "printable_request (DecryptionShares b cts)" by simp
  have "remote_exchange (member v) Delivered (serve P numText errText (cm_apiToken (member v)) (share_server C H sha readBatch draws U))
      (DecryptionShares b cts) v = (v, case ebind ?r (\<lambda>shares. Inr (JArr (map share_json shares))) of
        Inl e \<Rightarrow> Inl (HttpError 400) | Inr x \<Rightarrow> Inr (value_of x))"
    by (subst exchange_delivered [OF assms(1,2) refl q assms(3) p]) (simp_all only: d prod.case)
  then show ?thesis
    by (cases ?r) (simp_all add: ask_http_def read_answer_def ask_direct_def local_answer_def same_answer_def read_share_json comp_def)
qed

lemma add_response_same:
  "same_answer r q \<Longrightarrow> add_response C H registered cts acc (i, r) = add_response C H registered cts acc (i, q)"
  by (auto simp: same_answer_def add_response_def)

lemma add_responses_same:
  assumes "\<And>v. v \<in> set vs \<Longrightarrow> same_answer (r v) (q v)"
  shows "efold (add_response C H registered cts) acc (map (\<lambda>v. (f v, r v)) vs) =
    efold (add_response C H registered cts) acc (map (\<lambda>v. (f v, q v)) vs)"
  using assms
proof (induction vs arbitrary: acc)
  case (Cons v vs)
  have "add_response C H registered cts acc (f v, r v) = add_response C H registered cts acc (f v, q v)"
    by (intro add_response_same Cons.prems) simp
  moreover have "efold (add_response C H registered cts) a (map (\<lambda>v. (f v, r v)) vs) =
      efold (add_response C H registered cts) a (map (\<lambda>v. (f v, q v)) vs)" for a
    using Cons.prems by (intro Cons.IH) simp
  ultimately show ?case by simp
qed simp

lemma coordinate_same:
  assumes "\<And>net v. network = Some net \<Longrightarrow> v \<in> set (vn_validators net) \<Longrightarrow>
      same_answer (ask v b (map o_encrypted_data orders)) (ask' v b (map o_encrypted_data orders))"
  shows "coordinateDecryption C W H ops ask network rows b orders = coordinateDecryption C W H ops ask' network rows b orders"
proof (cases network)
  case (Some net)
  show ?thesis
    using add_responses_same [of "vn_validators net" "\<lambda>v. ask v b (map o_encrypted_data orders)"
        "\<lambda>v. ask' v b (map o_encrypted_data orders)" C H _ _ _ "n_index ops"] assms [OF Some]
    by (simp add: coordinateDecryption_def Some getValidatorNetwork_def Let_def)
qed (simp add: coordinateDecryption_def getValidatorNetwork_def)

section \<open>Sizes\<close>

text \<open>Texts that need no escapes, as ciphertexts and batch ids are.\<close>

definition plain :: "jsstring \<Rightarrow> bool" where
  "plain s \<longleftrightarrow> list_all (\<lambda>c. 32 \<le> unat c \<and> unat c < 128 \<and> c \<noteq> 34 \<and> c \<noteq> 92) s"

lemma plain_unit:
  assumes "32 \<le> unat (c :: 16 word)" "unat c < 128" "c \<noteq> 34" "c \<noteq> 92"
  shows "json_unit c = [c]"
proof -
  have "c \<noteq> 8" "c \<noteq> 12" "c \<noteq> 10" "c \<noteq> 13" "c \<noteq> 9" using assms(1) by auto
  then show ?thesis using assms ascii_not_surrogate [of c] by (simp add: json_unit_def)
qed

lemma plain_units: "plain s \<Longrightarrow> json_units s = s"
proof (induction s rule: json_units.induct)
  case (3 u v us)
  then have "\<not> is_high u" "json_unit u = [u]" using ascii_not_surrogate [of u] plain_unit [of u] by (auto simp: plain_def)
  then show ?case using 3 by (simp add: plain_def)
qed (simp_all add: plain_def plain_unit)

lemma length_utf8_quote: "plain s \<Longrightarrow> length (utf8_encode (json_quote s)) = length s + 2"
  by (subst length_utf8_ascii) (auto simp: json_quote_def plain_units plain_def list_all_iff)

lemma ascii_plain_quote: "plain s \<Longrightarrow> ascii (json_quote s)"
  by (rule ascii_quote) (simp add: plain_def list_all_iff)

lemma length_plain_quote: "plain s \<Longrightarrow> length (json_quote s) = length s + 2"
  by (simp add: json_quote_def plain_units)

text \<open>Up to 1200 ciphertexts of the greatest length that is accepted fit in one request.\<close>

lemma batch_fits:
  assumes "plain b" and "length b \<le> 36" and "length cts \<le> 1200" and "\<And>ct. ct \<in> set cts \<Longrightarrow> plain ct \<and> length ct \<le> MAX_CIPHERTEXT_LENGTH"
  shows "fits (DecryptionShares b cts)"
proof -
  let ?qs = "map json_quote cts" and ?keys = "js ''batchId''" and ?keyc = "js ''ciphertexts''"
  let ?t = "[123] @ json_quote ?keys @ [58] @ json_quote b @ [44] @ json_quote ?keyc @ [58] @ ([91] @ join [44] ?qs @ [93]) @ [125]"
  have t: "JSON_value (JObj [(?keys, JStr b), (?keyc, JArr (map JStr cts))]) = ?t"
    by (simp add: comp_def)
  have keys: "plain ?keys" "plain ?keyc" by (simp_all add: plain_def js_def)
  have "ascii (join [44] ?qs)" using assms(4) ascii_plain_quote by (intro ascii_join) auto
  then have "ascii ?t"
    using ascii_plain_quote [OF keys(1)] ascii_plain_quote [OF keys(2)] ascii_plain_quote [OF assms(1)] by auto
  then have u: "length (utf8_encode ?t) = length ?t" by (rule length_utf8_ascii)
  have "sum_list (map length ?qs) \<le> (\<Sum>ct\<leftarrow>cts. 4098)"
    unfolding map_map comp_def using assms(4) length_plain_quote
    by (intro sum_list_mono) (simp add: MAX_CIPHERTEXT_LENGTH_def)
  then have "length (join [44] ?qs) \<le> 4099 * length cts"
    using length_join [of 44 ?qs] by (simp add: sum_list_triv)
  also have "\<dots> \<le> 4099 * 1200" using assms(3) by simp
  finally have "length ?t \<le> BODY_LIMIT"
    using assms(2) length_plain_quote [OF keys(1)] length_plain_quote [OF keys(2)] length_plain_quote [OF assms(1)]
    by (simp add: BODY_LIMIT_def js_def)
  then show ?thesis using t u by (simp only: fits_def request_line.simps prod.case option.case)
qed

section \<open>A sample server\<close>

text \<open>A body parser that keeps the law, a token, and the members of the sample network.\<close>

definition sample_body_parser :: "byte list \<Rightarrow> nat + js_value" where
  "sample_body_parser bs = (if BODY_LIMIT < length bs then Inl 413
     else (case JSON_parse (utf8_decode bs) of Inl _ \<Rightarrow> Inl 400 | Inr v \<Rightarrow> Inr v))"

lemma sample_body_parser_laws: "body_parser_laws sample_body_parser"
  unfolding body_parser_laws_def
proof (intro allI impI)
  fix t v assume "take 1 t = [123]" "well_formed t" "length (utf8_encode t) \<le> BODY_LIMIT" "JSON_parse t = Inr v"
  moreover from this have "utf8_decode (utf8_encode t) = t" by (intro utf8_roundtrip) auto
  ultimately show "sample_body_parser (utf8_encode t) = Inr v" by (simp add: sample_body_parser_def)
qed

definition sample_token :: jsstring where
  "sample_token = replicate 64 97"

definition sample_cluster_member :: "local_validator \<Rightarrow> int cluster_member" where
  "sample_cluster_member v = \<lparr>cm_index = lv_index v, cm_url = js ''http://localhost:1'', cm_identityKey = id_publicKey (lv_identity v),
     cm_apiToken = sample_token\<rparr>"

lemma sample_token_ok: "is_api_token sample_token"
  by (simp add: is_api_token_def sample_token_def list_all_iff js_space_def)

text \<open>A validator that echoes batch ids and sessions, and refuses what needs a session.\<close>

definition sample_untyped :: "local_validator untyped_validator" where
  "sample_untyped = \<lparr>uv_index = lv_index, uv_info = (\<lambda>v. (v, Inr (JObj [(js ''index'', JInt 1)]))),
     uv_shares = (\<lambda>v b c. (v, Inr (JStr b))), uv_begin = (\<lambda>v s t p. (v, Inr (JStr s))),
     uv_deal = (\<lambda>v k. (v, Inl NoSession)), uv_receive = (\<lambda>v b s. (v, Inl NoSession)),
     uv_respond = (\<lambda>v c. (v, Inl NoSession)), uv_finalize = (\<lambda>v t. (v, Inl NoSession))\<rparr>"

section \<open>Properties\<close>

text \<open>C11: A validator behind HTTP is the validator.  Every call of \<open>RemoteValidator\<close> that is delivered to
  the application of a validator, with the token the application was made with, changes the
  validator as the same call on its methods does and returns the JSON of what they return; an
  exception arrives as the status 400.  This holds for the seven calls, for bodies up to 5 MB.
\<close>

theorem remote_validator_is_the_validator:
  assumes "body_parser_laws P" and "createValidatorApp P numText errText U apiToken = Inr srv" and "is_api_token apiToken"
    and "cm_apiToken member = apiToken" and "printable_request req" and "fits req"
    and "\<And>x. snd (direct_call U req s) = Inr x \<Longrightarrow> printable x"
  shows "remote_exchange member Delivered srv req s =
    (case direct_call U req s of (s', Inl e) \<Rightarrow> (s', Inl (HttpError 400)) | (s', Inr x) \<Rightarrow> (s', Inr (value_of x)))"
proof -
  have "srv = serve P numText errText apiToken U"
    using assms(2) by (auto simp: createValidatorApp_def split: if_splits)
  then have "remote_exchange member Delivered srv req s =
    (case direct_call U req s of (s', r) \<Rightarrow> (s', case r of Inl e \<Rightarrow> Inl (HttpError 400) | Inr x \<Rightarrow> Inr (value_of x)))"
    using exchange_delivered [where U = U and s = s, OF assms(1,3-7)] by simp
  then show ?thesis by (simp split: prod.splits sum.splits)
qed

theorem remote_validator_is_the_validator_witness:
  "remote_exchange (sample_cluster_member (sample_validator 1 None None)) Delivered
     (serve sample_body_parser (\<lambda>x. []) (\<lambda>e. []) sample_token sample_untyped) (DecryptionShares (js ''b1'') [js ''ct''])
     (sample_validator 1 None None) = (sample_validator 1 None None, Inr (VStr (js ''b1'')))"
proof -
  have c: "createValidatorApp sample_body_parser (\<lambda>x. []) (\<lambda>e. []) sample_untyped sample_token
      = Inr (serve sample_body_parser (\<lambda>x. []) (\<lambda>e. []) sample_token sample_untyped)"
    by (simp add: createValidatorApp_def sample_token_def)
  have t: "cm_apiToken (sample_cluster_member (sample_validator 1 None None)) = sample_token"
    by (simp add: sample_cluster_member_def)
  have d: "direct_call sample_untyped (DecryptionShares (js ''b1'') [js ''ct'']) (sample_validator 1 None None)
      = (sample_validator 1 None None, Inr (JStr (js ''b1'')))"
    by (simp add: sample_untyped_def)
  have p: "printable_request (DecryptionShares (js ''b1'') [js ''ct''])" by simp
  have f: "fits (DecryptionShares (js ''b1'') [js ''ct''])" 
    by (rule batch_fits) (simp_all add: plain_def js_def MAX_CIPHERTEXT_LENGTH_def)
  have x: "printable x"
    if "snd (direct_call sample_untyped (DecryptionShares (js ''b1'') [js ''ct'']) (sample_validator 1 None None)) = Inr x" for x
    using that unfolding d by auto
  show ?thesis
    by (subst remote_validator_is_the_validator [OF sample_body_parser_laws c sample_token_ok t p f x]) (simp_all only: d prod.case sum.case value_of.simps)
qed

text \<open>C12: A batch is decrypted over HTTP as in one process.  For a network of validators behind HTTP,
  each with its token, \<open>coordinateDecryption\<close> gives exactly the outcomes it gives when it calls the
  same validators directly, so what is shown of the local network holds of the remote one.
\<close>

theorem remote_network_decrypts_alike:
  assumes "body_parser_laws P" and "fits (DecryptionShares b (map o_encrypted_data orders))"
    and "\<And>net v. network = Some net \<Longrightarrow> v \<in> set (vn_validators net) \<Longrightarrow> is_api_token (cm_apiToken (member v)) \<and>
      (\<forall>ks. lv_keyShare v = Some ks \<longrightarrow> \<bar>ks_index ks\<bar> < 2 ^ 53)"
  shows "coordinateDecryption C W H ops (ask_http P numText errText (share_server C H sha readBatch draws U) member) network rows b orders =
    coordinateDecryption C W H ops (ask_direct C H sha readBatch draws) network rows b orders"
  using assms by (intro coordinate_same ask_http_direct) auto

theorem remote_network_decrypts_alike_witness:
  "\<exists>net. vn_validators net = [sample_validator 1 (Some (sample_key 1)) None, sample_validator 2 (Some (sample_key 2)) None] \<and>
     (\<forall>ops rows. coordinateDecryption sample_curve sample_crypto sample_sha512 ops
       (ask_http sample_body_parser (\<lambda>x. []) (\<lambda>e. []) (share_server sample_curve sample_sha512 sample_sha256 (\<lambda>b. Inr None) (\<lambda>v k. [])
         sample_untyped) sample_cluster_member) (Some net) rows (js ''b1'') [sample_row (js ''ct'')] =
     coordinateDecryption sample_curve sample_crypto sample_sha512 ops
       (ask_direct sample_curve sample_sha512 sample_sha256 (\<lambda>b. Inr None) (\<lambda>v k. [])) (Some net) rows (js ''b1'') [sample_row (js ''ct'')])"
proof (intro exI conjI allI)
  let ?net = "\<lparr>vn_threshold = 2, vn_groupPublicKey = [], vn_verificationKeys = [],
      vn_validators = [sample_validator 1 (Some (sample_key 1)) None, sample_validator 2 (Some (sample_key 2)) None], vn_mode = RemoteMode\<rparr>"
  show "vn_validators ?net = [sample_validator 1 (Some (sample_key 1)) None, sample_validator 2 (Some (sample_key 2)) None]" by simp
  have f: "fits (DecryptionShares (js ''b1'') (map o_encrypted_data [sample_row (js ''ct'')]))"
    by (rule batch_fits) (simp_all add: plain_def js_def sample_row_def MAX_CIPHERTEXT_LENGTH_def)
  have m: "is_api_token (cm_apiToken (sample_cluster_member v)) \<and> (\<forall>ks. lv_keyShare v = Some ks \<longrightarrow> \<bar>ks_index ks\<bar> < 2 ^ 53)"
    if "Some ?net = Some net" "v \<in> set (vn_validators net)" for net v
    using that sample_token_ok by (auto simp: sample_cluster_member_def sample_key_def)
  show "coordinateDecryption sample_curve sample_crypto sample_sha512 ops
       (ask_http sample_body_parser (\<lambda>x. []) (\<lambda>e. []) (share_server sample_curve sample_sha512 sample_sha256 (\<lambda>b. Inr None) (\<lambda>v k. [])
         sample_untyped) sample_cluster_member) (Some ?net) rows (js ''b1'') [sample_row (js ''ct'')] =
     coordinateDecryption sample_curve sample_crypto sample_sha512 ops
       (ask_direct sample_curve sample_sha512 sample_sha256 (\<lambda>b. Inr None) (\<lambda>v k. [])) (Some ?net) rows (js ''b1'') [sample_row (js ''ct'')]"
    for ops rows
    by (rule remote_network_decrypts_alike [OF sample_body_parser_laws f m])
qed

text \<open>C38: Without the token a validator says nothing.  A request whose \<open>Authorization\<close> is not the bearer
  token changes nothing, and its answer would be the same of any other validator with this index:
  it depends on no key, share, session or peer.
\<close>

theorem no_token_no_answer:
  assumes "is_api_token apiToken" and "\<And>h. wr_authorization req = Some h \<Longrightarrow> bearer_token h \<noteq> Some apiToken"
    and "uv_index U = uv_index U'"
  shows "serve P numText errText apiToken U req s = serve P numText errText apiToken U' req s \<and>
    fst (serve P numText errText apiToken U req s) = s"
proof -
  have "\<not> v1_authorized apiToken (wr_authorization req)"
    using assms(1,2) by (subst v1_authorized_iff) (auto simp: is_api_token_def list_all_iff)
  then show ?thesis by (rule serve_unauthorized [OF _ assms(3)])
qed

theorem no_token_no_answer_witness:
  "fst (serve sample_body_parser (\<lambda>x. []) (\<lambda>e. []) sample_token sample_untyped
     \<lparr>wr_method = GET, wr_path = js ''/v1/info'', wr_authorization = None, wr_body = None\<rparr> (sample_validator 1 None None))
   = sample_validator 1 None None"
  by (rule no_token_no_answer [OF sample_token_ok _ refl, THEN conjunct2]) simp

end
