(* ===== verification/Api.thy ===== *)
theory Api
  imports Http Startup
begin

text \<open>
  The backend's HTTP interface as a whole: \<open>backend/src/app.ts\<close> and the routers of
  \<open>backend/src/routes\<close> over the modelled handlers.  A call runs without interruption here; what
  happens between the database calls of several is the subject of \<open>Interleaving\<close>.

  Express's \<open>express.json({ limit: '100kb' })\<close> is a parameter: the parsed body or an error.  A path is
  the list of its decoded segments.
\<close>

section \<open>The application\<close>

record ('p, 's, 'l) api_env =
  ae_node :: node_env
  ae_sdk :: stellar_sdk
  ae_curve :: "'p curve"
  ae_network :: "'s validator_network option"
  ae_config :: backend_config
  ae_orderLimit :: nat
  ae_authLimit :: nat
  ae_parse :: "byte list \<Rightarrow> nat + js_value"
  ae_seal :: "'l sealer"
  ae_decrypt :: "jsstring \<Rightarrow> order_row list \<Rightarrow> error + decryption_outcome list"
  ae_chain :: "jsstring \<Rightarrow> decrypted_order list \<Rightarrow> error + settlement_result list"

record 'l api_state =
  ap_server :: server
  ap_auth_hits :: hits
  ap_ledger :: 'l

record api_request =
  ar_method :: http_method
  ar_path :: "jsstring list"
  ar_authorization :: "jsstring option"
  ar_ip :: jsstring
  ar_body :: "byte list option"

text \<open>The clock in milliseconds and the random values of one call.\<close>

record moment =
  mo_now :: nat
  mo_uuid :: jsstring
  mo_random :: "byte list"

datatype api_answer =
    AHealth | AOrder order_row | AOrders "order_row list" | ABatch batch_row | ABatches "batch_row list"
  | ASettlement settlement_row | AConfig public_config | AChallenge jsstring jsstring | ASession issued_session

definition answer_of :: "('a \<Rightarrow> api_answer) \<Rightarrow> error + 'a \<Rightarrow> error + api_answer" where
  "answer_of f r = (case answer r of Inl e \<Rightarrow> Inl e | Inr x \<Rightarrow> Inr (f x))"

definition ap_db :: "'l api_state \<Rightarrow> db" where
  "ap_db st = sv_db (ap_server st)"

definition with_db :: "db \<Rightarrow> 'l api_state \<Rightarrow> 'l api_state" where
  "with_db d st = st\<lparr>ap_server := (ap_server st)\<lparr>sv_db := d\<rparr>\<rparr>"

definition no_route :: "error + api_answer" where
  "no_route = Inl (HttpError 404)"

subsection \<open>\<open>routes/orders.ts\<close>\<close>

definition orders_router ::
  "('p, 's, 'l) api_env \<Rightarrow> moment \<Rightarrow> api_request \<Rightarrow> jsstring list \<Rightarrow> js_value \<Rightarrow> 'l api_state \<Rightarrow> 'l api_state \<times> (error + api_answer)" where
  "orders_router env m req path body st =
     (case (ar_method req, path) of
        (POST, []) \<Rightarrow>
          (case post_order (ae_node env) (ae_curve env) (ae_network env) (ae_orderLimit env) (mo_now m) (ar_authorization req)
              (ar_ip req) body (mo_uuid m) (ap_server st) of
             (sv, r) \<Rightarrow> (st\<lparr>ap_server := sv\<rparr>, map_sum id AOrder r))
      | (GET, [i]) \<Rightarrow> (st, map_sum id AOrder (get_order i (ap_db st)))
      | (GET, [u, userAddress]) \<Rightarrow>
          if u = js ''user'' then
            (st, map_sum id AOrders (get_user_orders (ae_node env) (mo_now m div 1000) (ar_authorization req) userAddress (ap_db st)))
          else (st, no_route)
      | _ \<Rightarrow> (st, no_route))"

subsection \<open>\<open>routes/batches.ts\<close>\<close>

text \<open>
  \<open>req.body.order_ids ?? []\<close> as \<open>createBatch\<close> takes it: the characters of a text, no list for what is not
  iterable.  An element that is no string finds no order of that id, so the handler throws before it
  changes anything; whether with 400 or 500 depends on the database, the model says 500.
\<close>

definition order_ids_of :: "js_value \<Rightarrow> error + jsstring list" where
  "order_ids_of v =
     (case v of
        VArr xs \<Rightarrow> emap (\<lambda>x. case x of VStr s \<Rightarrow> Inr s | _ \<Rightarrow> Inl TypeError) xs
      | VStr s \<Rightarrow> Inr (map (\<lambda>c. [c]) s)
      | _ \<Rightarrow> Inl TypeError)"

definition batches_router ::
  "('p, 's, 'l) api_env \<Rightarrow> moment \<Rightarrow> api_request \<Rightarrow> jsstring list \<Rightarrow> js_value \<Rightarrow> 'l api_state \<Rightarrow> 'l api_state \<times> (error + api_answer)" where
  "batches_router env m req path body st =
     (case (ar_method req, path) of
        (GET, []) \<Rightarrow> (st, Inr (ABatches (getBatches (ap_db st))))
      | (GET, [i]) \<Rightarrow> (st, answer_of ABatch (getBatch i (ap_db st)))
      | (POST, [c]) \<Rightarrow>
          if c = js ''create'' then
            (case order_ids_of (nullish (js_prop body ''order_ids'') (VArr [])) of
               Inl e \<Rightarrow> (st, answer_of ABatch (Inl e))
             | Inr ids \<Rightarrow>
                 (case createBatch (ae_seal env) (mo_uuid m) (int (mo_now m)) ids (ap_ledger st) (ap_db st) of
                    (l, d, r) \<Rightarrow> ((with_db d st)\<lparr>ap_ledger := l\<rparr>, answer_of ABatch r)))
          else (st, no_route)
      | _ \<Rightarrow> (st, no_route))"

subsection \<open>\<open>routes/settlement.ts\<close>, \<open>routes/config.ts\<close>, \<open>routes/auth.ts\<close>\<close>

definition settlement_router ::
  "('p, 's, 'l) api_env \<Rightarrow> moment \<Rightarrow> api_request \<Rightarrow> jsstring list \<Rightarrow> 'l api_state \<Rightarrow> 'l api_state \<times> (error + api_answer)" where
  "settlement_router env m req path st =
     (case (ar_method req, path) of
        (GET, [b]) \<Rightarrow> (st, answer_of ASettlement (getSettlementResults b (ap_db st)))
      | (POST, [b, s]) \<Rightarrow>
          if s = js ''settle'' then
            (case settleBatch (bc_settlementEngineContract (ae_config env) \<noteq> []) (ae_decrypt env) (ae_chain env)
                (mo_uuid m) (int (mo_now m)) b (ap_db st) of
               (d, r) \<Rightarrow> (with_db d st, answer_of ASettlement r))
          else (st, no_route)
      | _ \<Rightarrow> (st, no_route))"

definition config_router :: "('p, 's, 'l) api_env \<Rightarrow> api_request \<Rightarrow> jsstring list \<Rightarrow> error + api_answer" where
  "config_router env req path =
     (if ar_method req = GET \<and> path = [] then answer_of AConfig (getPublicConfig (ae_config env) (ae_network env)) else no_route)"

definition auth_router ::
  "('p, 's, 'l) api_env \<Rightarrow> moment \<Rightarrow> api_request \<Rightarrow> jsstring list \<Rightarrow> js_value \<Rightarrow> error + api_answer" where
  "auth_router env m req path body =
     (if ar_method req = POST \<and> path = [js ''challenge''] then
        answer_of (\<lambda>tx. AChallenge tx (bc_networkPassphrase (ae_config env)))
          (createChallenge (ae_node env) (ae_sdk env) (mo_now m div 1000) (mo_random m) (js_prop body ''address''))
      else if ar_method req = POST \<and> path = [js ''verify''] then
        answer_of ASession (verifyChallenge (ae_node env) (ae_sdk env) (mo_now m div 1000) (js_prop body ''transaction''))
      else no_route)"

subsection \<open>\<open>createApp\<close>\<close>

text \<open>
  The body comes first: what the parser refuses (invalid JSON, more than 100 kB) goes to the error
  handler, which does not know the parser's errors.  A call without a body has an empty one.
\<close>

definition createApp ::
  "('p, 's, 'l) api_env \<Rightarrow> moment \<Rightarrow> api_request \<Rightarrow> 'l api_state \<Rightarrow> 'l api_state \<times> (error + api_answer)" where
  "createApp env m req st =
     (case (case ar_body req of None \<Rightarrow> Inr (VObj []) | Some bs \<Rightarrow> ae_parse env bs) of
        Inl code \<Rightarrow> (st, Inl (errorHandler SyntaxError))
      | Inr body \<Rightarrow>
          (case ar_path req of
             [h] \<Rightarrow> (st, if ar_method req = GET \<and> h = js ''health'' then Inr AHealth else no_route)
           | a # r # path \<Rightarrow>
               if a \<noteq> js ''api'' then (st, no_route)
               else if r = js ''orders'' then orders_router env m req path body st
               else if r = js ''batches'' then batches_router env m req path body st
               else if r = js ''settlement'' then settlement_router env m req path st
               else if r = js ''config'' then (st, config_router env req path)
               else if r = js ''auth'' then
                 (case rate_limit 60000 (ae_authLimit env) (mo_now m) (ar_ip req) (ap_auth_hits st) of
                    (h, a) \<Rightarrow> (st\<lparr>ap_auth_hits := h\<rparr>,
                      if la_next a then auth_router env m req path body else Inl (HttpError 429)))
               else (st, no_route)
           | [] \<Rightarrow> (st, no_route)))"

section \<open>The server over time\<close>

text \<open>A call, or a tick of the batching loop.\<close>

inductive api_step :: "('p, 's, 'l) api_env \<Rightarrow> 'l api_state \<Rightarrow> 'l api_state \<Rightarrow> bool" for env :: "('p, 's, 'l) api_env" where
  call_step: "createApp env m req st = (st', r) \<Longrightarrow> api_step env st st'"
| tick_step: "runOnce (ae_seal env) onchain (ae_decrypt env) (ae_chain env) batchSize b i now (ap_ledger st) (ap_db st) = (l, d, r) \<Longrightarrow>
    api_step env st ((with_db d st)\<lparr>ap_ledger := l\<rparr>)"

inductive_cases api_stepE: "api_step env st st'"

text \<open>What identifies a submission in the table of orders.\<close>

definition submission :: "order_row \<Rightarrow> jsstring \<times> jsstring \<times> int" where
  "submission r = (o_user_address r, o_encrypted_data r, o_nonce r)"

definition submissions :: "db \<Rightarrow> (jsstring \<times> jsstring \<times> int) list" where
  "submissions d = map submission (db_orders d)"

text \<open>Somebody showed a session of the account, and the ciphertext is well formed and short.\<close>

definition authentic :: "node_env \<Rightarrow> 'p curve \<Rightarrow> jsstring \<times> jsstring \<times> int \<Rightarrow> bool" where
  "authentic N C e \<longleftrightarrow> (case e of (user, ct, nonce) \<Rightarrow>
     (\<exists>now token ses. verifySession N now token = Some ses \<and> se_address ses = user) \<and>
     length ct \<le> MAX_CIPHERTEXT_LENGTH \<and> is_ok (parseCiphertext C ct) \<and> 0 \<le> nonce \<and> nonce < 2 ^ 53)"

lemma submissions_map_orders: "(\<And>r. submission (f r) = submission r) \<Longrightarrow> submissions (map_orders f d) = submissions d"
  by (simp add: submissions_def map_orders_def comp_def)

lemma submissions_create_mark [simp]: "submissions (create_mark i ids d) = submissions d"
  unfolding create_mark_def by (rule submissions_map_orders) (simp add: submission_def)

lemma submissions_create_record [simp]: "submissions (create_record i now ids h t d) = submissions d"
  by (simp add: submissions_def create_record_def)

lemma submissions_settle_claim [simp]: "submissions (fst (settle_claim b d)) = submissions d"
  by (simp add: submissions_def settle_claim_def)

lemma submissions_settle_create [simp]: "submissions (settle_create i now b rs d) = submissions d"
  by (simp add: submissions_def settle_create_def)

lemma submissions_set_status [simp]: "submissions (set_batch_status b x d) = submissions d"
  by (simp add: submissions_def set_batch_status_def)

lemma submissions_fold: "(\<And>x d. submissions (f x d) = submissions d) \<Longrightarrow> submissions (fold f xs d) = submissions d"
  by (induction xs arbitrary: d) simp_all

lemma submissions_settle_write [simp]: "submissions (settle_write onchain outcomes rs d) = submissions d"
proof -
  have "submissions (fold (\<lambda>out. case out of Opened i ord \<Rightarrow> id | Rejected i e \<Rightarrow> map_orders (\<lambda>r. if o_id r = i
      then r\<lparr>o_status := OrderFailed, o_failure_reason := Some e\<rparr> else r)) outcomes d') = submissions d'" for d'
    by (rule submissions_fold) (auto intro!: submissions_map_orders simp: submission_def split: decryption_outcome.split)
  moreover have "submissions (fold (\<lambda>(k, i, ord). map_orders (g k i ord)) xs d) = submissions d"
    if "\<And>k i ord r. submission (g k i ord r) = submission r" for g :: "nat \<Rightarrow> jsstring \<Rightarrow> decrypted_order \<Rightarrow> order_row \<Rightarrow> order_row" and xs
    by (rule submissions_fold) (auto intro!: submissions_map_orders that)
  ultimately show ?thesis by (simp add: settle_write_def Let_def submission_def fill_order_def)
qed

lemma submissions_createBatch:
  "createBatch seal i now ids l d = (l', d', r) \<Longrightarrow> submissions d' = submissions d"
  by (auto simp: createBatch_def Let_def split: sum.splits prod.splits)

lemma submissions_settleBatch:
  "settleBatch onchain decrypt chain i now b d = (d', r) \<Longrightarrow> submissions d' = submissions d"
  by (auto simp: settleBatch_def Let_def split_def split: option.splits sum.splits if_splits)

lemma submissions_runOnce:
  "runOnce seal onchain decrypt chain n b i now l d = (l', d', r) \<Longrightarrow> submissions d' = submissions d"
  by (auto simp: runOnce_def Let_def split: if_splits prod.splits sum.splits dest!: submissions_createBatch submissions_settleBatch)

lemma submissions_post_order:
  assumes "post_order N C network limit nowMs authorization ip body i s = (s', r)"
  shows "submissions (sv_db s') = submissions (sv_db s) \<or>
    (\<exists>e. submissions (sv_db s') = submissions (sv_db s) @ [e] \<and> authentic N C e)"
proof (cases "submissions (sv_db s') = submissions (sv_db s)")
  case False
  then obtain user b h where v: "validateAuth N (nowMs div 1000) authorization = Inr user"
    and b: "validateOrderInput C network body = Inr b" and s': "sv_db s' = submit_insert i (int nowMs) user b (sv_db s)"
    using assms by (auto simp: post_order_def submitOrder_def Let_def split: sum.splits prod.splits if_splits)
  obtain token ses where "verifySession N (nowMs div 1000) token = Some ses" "se_address ses = user"
    using validateAuth_Inr [OF v] by blast
  then have "authentic N C (user, so_encrypted_data b, so_nonce b)"
    using validateOrderInput_Inr [OF b] unfolding authentic_def by auto
  then show ?thesis by (auto simp: s' submit_insert_def submissions_def new_order_def submission_def)
qed simp

lemma submissions_batches_router:
  "batches_router env m req path body st = (st', r) \<Longrightarrow> submissions (ap_db st') = submissions (ap_db st)"
  by (auto simp: batches_router_def ap_db_def with_db_def split: http_method.splits list.splits sum.splits prod.splits if_splits
      dest!: submissions_createBatch)

lemma submissions_settlement_router:
  "settlement_router env m req path st = (st', r) \<Longrightarrow> submissions (ap_db st') = submissions (ap_db st)"
  by (auto simp: settlement_router_def ap_db_def with_db_def split: http_method.splits list.splits prod.splits if_splits
      dest!: submissions_settleBatch)

lemma submissions_orders_router:
  "orders_router env m req path body st = (st', r) \<Longrightarrow> submissions (ap_db st') = submissions (ap_db st) \<or>
    (\<exists>e. submissions (ap_db st') = submissions (ap_db st) @ [e] \<and> authentic (ae_node env) (ae_curve env) e)"
  by (auto simp: orders_router_def ap_db_def split: http_method.splits list.splits prod.splits if_splits
      dest!: submissions_post_order)

lemma submissions_createApp:
  assumes "createApp env m req st = (st', r)"
  shows "submissions (ap_db st') = submissions (ap_db st) \<or>
    (\<exists>e. submissions (ap_db st') = submissions (ap_db st) @ [e] \<and> authentic (ae_node env) (ae_curve env) e)"
  using assms unfolding createApp_def
  by (auto split: sum.splits list.splits if_splits prod.splits simp: ap_db_def [of "st\<lparr>ap_auth_hits := h\<rparr>" for h] ap_db_def [symmetric]
      dest!: submissions_batches_router submissions_settlement_router submissions_orders_router)

lemma api_step_submissions:
  "api_step env st st' \<Longrightarrow> \<exists>es. submissions (ap_db st') = submissions (ap_db st) @ es \<and> (\<forall>e \<in> set es. authentic (ae_node env) (ae_curve env) e)"
proof (erule api_stepE)
  fix m req r assume "createApp env m req st = (st', r)"
  from submissions_createApp [OF this] show ?thesis by (elim disjE exE) (auto intro: exI [of _ "[]"])
next
  fix onchain batchSize b i now l d r
  assume st': "st' = (with_db d st)\<lparr>ap_ledger := l\<rparr>"
    and run: "runOnce (ae_seal env) onchain (ae_decrypt env) (ae_chain env) batchSize b i now (ap_ledger st) (ap_db st) = (l, d, r)"
  have "submissions (ap_db st') = submissions (ap_db st)"
    using submissions_runOnce [OF run] by (simp add: st' ap_db_def with_db_def)
  then show ?thesis by (intro exI [of _ "[]"]) simp
qed

lemma api_steps_submissions:
  assumes "(api_step env)\<^sup>*\<^sup>* st st'"
  shows "\<exists>es. submissions (ap_db st') = submissions (ap_db st) @ es \<and> (\<forall>e \<in> set es. authentic (ae_node env) (ae_curve env) e)"
  using assms
proof (induction rule: rtranclp_induct)
  case (step st1 st2)
  then obtain es1 es2 where "submissions (ap_db st1) = submissions (ap_db st) @ es1" "\<forall>e \<in> set es1. authentic (ae_node env) (ae_curve env) e"
    "submissions (ap_db st2) = submissions (ap_db st1) @ es2" "\<forall>e \<in> set es2. authentic (ae_node env) (ae_curve env) e"
    using api_step_submissions by blast
  then show ?case by (intro exI [of _ "es1 @ es2"]) auto
qed simp

text \<open>Reading changes nothing but the counters of the rate limits.\<close>

lemma get_changes_nothing:
  assumes "ar_method req = GET" and "createApp env m req st = (st', r)"
  shows "ap_db st' = ap_db st \<and> ap_ledger st' = ap_ledger st"
  using assms unfolding createApp_def orders_router_def batches_router_def settlement_router_def
  by (auto split: sum.splits list.splits if_splits prod.splits simp: ap_db_def)

lemma post_order_appends:
  "post_order N C network limit nowMs authorization ip body i s = (s', Inr row) \<Longrightarrow>
     submissions (sv_db s') = submissions (sv_db s) @ [submission row]"
  by (auto simp: post_order_def submitOrder_def submit_insert_def answer_def submissions_def Let_def
      split: sum.splits prod.splits if_splits)

section \<open>The table of orders\<close>

definition empty_db :: db where
  "empty_db = \<lparr>db_orders = [], db_batches = [], db_settlements = []\<rparr>"



end
