(* ===== verification/Display.thy ===== *)
theory Display
  imports Frontend Wallet Api JsonPrint
begin

text \<open>
  What the frontend shows: the banner on the deployment's mode, the orders of the account, the batch
  monitor, a settlement, the wallet button and the theme (\<open>frontend/src/components\<close>,
  \<open>hooks/useNetworkConfig.ts\<close>, \<open>hooks/useOrder.ts\<close>, \<open>context/ThemeContext.tsx\<close>,
  \<open>services/storage.ts\<close>).  A component is the function from its state to the data it displays, without
  the markup; what waits for the backend is a state with events.  The browser's text of a date and the
  message of an error are arguments.
\<close>

text \<open>A text in a condition: \<open>undefined\<close>, \<open>null\<close> and the empty one are false.\<close>

definition truthy :: "jsstring option \<Rightarrow> bool" where
  "truthy x \<longleftrightarrow> x \<noteq> None \<and> x \<noteq> Some []"

lemma truthy_Some [simp]: "truthy (Some s) \<longleftrightarrow> s \<noteq> []" "\<not> truthy None"
  by (simp_all add: truthy_def)

section \<open>The mode of the deployment\<close>

record network_view =
  nv_config :: "public_config option"
  nv_unreachable :: bool
  nv_cancelled :: bool

definition initial_network :: network_view where
  "initial_network = \<lparr>nv_config = None, nv_unreachable = False, nv_cancelled = False\<rparr>"

datatype network_event = ConfigAnswer "error + public_config" | Unmount

fun useNetworkConfig :: "network_view \<Rightarrow> network_event \<Rightarrow> network_view" where
  "useNetworkConfig v (ConfigAnswer r) =
     (if nv_cancelled v then v
      else (case r of Inr c \<Rightarrow> v\<lparr>nv_config := Some c\<rparr> | Inl _ \<Rightarrow> v\<lparr>nv_unreachable := True\<rparr>))"
| "useNetworkConfig v Unmount = v\<lparr>nv_cancelled := True\<rparr>"

definition CONTRACT_URL :: jsstring where
  "CONTRACT_URL = js ''https://stellar.expert/explorer/testnet/contract/''"

text \<open>The demo banner: threshold, validators, the link to the vault or the dev ledger, whether the
  settlement is said to be simulated.\<close>

datatype banner = NoBanner | BackendUnreachable | DemoBanner nat nat "jsstring option" bool

definition ModeBanner :: "network_view \<Rightarrow> banner" where
  "ModeBanner v =
     (if nv_unreachable v then BackendUnreachable
      else (case nv_config v of None \<Rightarrow> NoBanner
        | Some c \<Rightarrow>
            if pc_sealing c = js ''onchain'' \<and> pc_settlement c = js ''onchain'' then NoBanner
            else DemoBanner (pi_threshold (pc_key c)) (pi_validator_count (pc_key c))
              (if pc_sealing c = js ''onchain'' \<and> truthy (pc_order_vault_contract c)
               then map_option (\<lambda>a. CONTRACT_URL @ a) (pc_order_vault_contract c) else None)
              (pc_settlement c = js ''simulated'')))"

text \<open>\<open>GET /api/config\<close> against the backend.\<close>

definition fetch_config :: "('p, 's, 'l) api_env \<Rightarrow> moment \<Rightarrow> jsstring \<Rightarrow> 'l api_state \<Rightarrow> error + public_config" where
  "fetch_config env m ip st =
     (case snd (createApp env m \<lparr>ar_method = GET, ar_path = [js ''api'', js ''config''], ar_authorization = None,
         ar_ip = ip, ar_body = None\<rparr> st) of
        Inr (AConfig c) \<Rightarrow> Inr c
      | Inl e \<Rightarrow> Inl e
      | _ \<Rightarrow> Inl TypeError)"

lemma fetch_config_answer:
  "fetch_config env m ip st = answer (getPublicConfig (ae_config env) (ae_network env))"
  by (simp add: fetch_config_def createApp_def config_router_def answer_of_def js_eq_iff split: sum.split)

lemma public_config_Some:
  "getPublicConfig cfg (Some net) = Inr \<lparr>pc_key = \<lparr>pi_threshold_pubkey = vn_groupPublicKey net, pi_threshold = vn_threshold net,
       pi_validator_count = length (vn_validators net), pi_scheme = js ''ristretto255-elgamal-kem+hkdf-sha256+aes-256-gcm''\<rparr>,
     pc_sealing = (if bc_orderVaultContract cfg \<noteq> [] then js ''onchain'' else js ''dev-ledger''),
     pc_order_vault_contract = (if bc_orderVaultContract cfg = [] then None else Some (bc_orderVaultContract cfg)),
     pc_settlement = (if bc_settlementEngineContract cfg \<noteq> [] then js ''onchain'' else js ''simulated''),
     pc_validator_mode = vn_mode net\<rparr>"
  by (simp add: getPublicConfig_def getPublicKeyInfo_def getValidatorNetwork_def)

section \<open>Orders as they are shown\<close>

text \<open>\<open>formatStatus\<close> and \<open>toUpperCase\<close> for texts in ASCII, as every status is.\<close>

definition upper_unit :: "16 word \<Rightarrow> 16 word" where
  "upper_unit c = (if 97 \<le> c \<and> c \<le> 122 then c - 32 else c)"

definition formatStatus :: "jsstring \<Rightarrow> jsstring" where
  "formatStatus status = map upper_unit (take 1 status) @ drop 1 status"

fun order_status_text :: "order_status \<Rightarrow> jsstring" where
  "order_status_text Pending = js ''pending''"
| "order_status_text Batched = js ''batched''"
| "order_status_text OrderSettled = js ''settled''"
| "order_status_text OrderFailed = js ''failed''"

definition OrderStatus :: "order_status \<Rightarrow> jsstring" where
  "OrderStatus s = formatStatus (order_status_text s)"

text \<open>\<open>None\<close> is \<open>Encrypted order\<close> in the title, and the hint on sealing in the details.\<close>

record order_item =
  it_title :: "(jsstring \<times> jsstring) option"
  it_details :: "(jsstring option \<times> jsstring option) option"
  it_rejected :: "jsstring option"
  it_status :: jsstring
  it_submitted :: jsstring

definition OrderItem :: "(error \<Rightarrow> jsstring) \<Rightarrow> (int \<Rightarrow> jsstring) \<Rightarrow> order_row \<Rightarrow> order_item" where
  "OrderItem errText dateText ord =
     \<lparr>it_title = (case (o_token_in ord, o_token_out ord) of
          (Some x, Some y) \<Rightarrow> if x \<noteq> [] \<and> y \<noteq> [] then Some (x, y) else None | _ \<Rightarrow> None),
      it_details = (if truthy (o_token_in ord)
          then Some (formatOrderAmount (o_amount_in ord) (o_token_in ord) 7, formatOrderAmount (o_min_amount_out ord) (o_token_out ord) 7)
          else None),
      it_rejected = (case o_failure_reason ord of None \<Rightarrow> None | Some e \<Rightarrow> if errText e = [] then None else Some (errText e)),
      it_status = OrderStatus (o_status ord),
      it_submitted = dateText (o_created_at ord)\<rparr>"

text \<open>\<open>OrderDetails\<close>.\<close>

record order_details =
  od_id :: jsstring
  od_status :: jsstring
  od_user :: jsstring
  od_from :: "jsstring option"
  od_minimum :: "jsstring option"
  od_received :: "jsstring option option"
  od_batch :: "jsstring option"
  od_submitted :: jsstring

definition OrderDetails :: "(int \<Rightarrow> jsstring) \<Rightarrow> order_row \<Rightarrow> order_details" where
  "OrderDetails dateText ord =
     \<lparr>od_id = take 8 (o_id ord), od_status = OrderStatus (o_status ord), od_user = shortenAddress (o_user_address ord) 4,
      od_from = formatOrderAmount (o_amount_in ord) (o_token_in ord) 7,
      od_minimum = formatOrderAmount (o_min_amount_out ord) (o_token_out ord) 7,
      od_received = (if truthy (o_amount_out ord) then Some (formatOrderAmount (o_amount_out ord) (o_token_out ord) 7) else None),
      od_batch = (if truthy (o_batch_id ord) then map_option (take 8) (o_batch_id ord) else None),
      od_submitted = dateText (o_created_at ord)\<rparr>"

text \<open>\<open>groupedByStatus\<close>: an object whose properties are the statuses, in the order they were added.\<close>

definition push_group :: "(order_status \<times> order_row list) list \<Rightarrow> order_row \<Rightarrow> (order_status \<times> order_row list) list" where
  "push_group acc ord =
     (let acc = (if map_of acc (o_status ord) = None then acc @ [(o_status ord, [])] else acc) in
      map (\<lambda>(s, os). (s, if s = o_status ord then os @ [ord] else os)) acc)"

definition groupedByStatus :: "order_row list \<Rightarrow> (order_status \<times> order_row list) list" where
  "groupedByStatus = foldl push_group []"

definition group_heading :: "nat \<Rightarrow> jsstring" where
  "group_heading n = nat_to_string 10 n @ js '' order'' @ (if n \<noteq> 1 then js ''s'' else [])"

text \<open>Status, heading and orders of each group; \<open>None\<close> is \<open>No orders yet\<close>.\<close>

definition OrderHistory :: "order_row list \<Rightarrow> (jsstring \<times> jsstring \<times> order_row list) list option" where
  "OrderHistory orders =
     (if orders = [] then None
      else Some (map (\<lambda>(s, os). (OrderStatus s, group_heading (length os), os)) (groupedByStatus orders)))"

text \<open>The statuses in the order of their first occurrence.\<close>

definition statuses :: "order_row list \<Rightarrow> order_status list" where
  "statuses orders = rev (remdups (rev (map o_status orders)))"

lemma statuses_snoc:
  "statuses (os @ [ord]) = (if o_status ord \<in> set (map o_status os) then statuses os else statuses os @ [o_status ord])"
  by (simp add: statuses_def)

lemma set_statuses: "set (statuses os) = o_status ` set os" "distinct (statuses os)"
  by (simp_all add: statuses_def)

lemma push_group_map:
  "push_group (map (\<lambda>s. (s, filter (\<lambda>x. o_status x = s) os)) (statuses os)) ord =
     map (\<lambda>s. (s, filter (\<lambda>x. o_status x = s) (os @ [ord]))) (statuses (os @ [ord]))"
proof -
  have "map_of (map (\<lambda>s. (s, filter (\<lambda>x. o_status x = s) os)) ss) t = (if t \<in> set ss then Some (filter (\<lambda>x. o_status x = t) os) else None)"
    for ss t by (induction ss) auto
  then show ?thesis
    by (auto simp: push_group_def statuses_snoc set_statuses Let_def image_iff filter_empty_conv)
qed

lemma grouped_filter: "groupedByStatus os = map (\<lambda>s. (s, filter (\<lambda>x. o_status x = s) os)) (statuses os)"
proof (induction os rule: rev_induct)
  case (snoc x xs)
  then show ?case using push_group_map [of xs x] by (simp add: groupedByStatus_def)
qed (simp add: groupedByStatus_def statuses_def)

text \<open>Every order is in exactly one group, and groups keep the order of the list.\<close>

lemma mset_groups: "mset (concat (map snd (groupedByStatus os))) = mset os"
proof -
  have "mset (concat (map (\<lambda>s. filter (\<lambda>x. o_status x = s) os) ss)) = filter_mset (\<lambda>x. o_status x \<in> set ss) (mset os)"
    if "distinct ss" for ss
    using that
  proof (induction ss)
    case (Cons s ss)
    then have "filter_mset (\<lambda>x. o_status x \<in> set (s # ss)) (mset os) =
        filter_mset (\<lambda>x. o_status x = s) (mset os) + filter_mset (\<lambda>x. o_status x \<in> set ss) (mset os)"
      by (intro multiset_eqI) (auto simp: count_filter_mset)
    then show ?case using Cons by (simp add: mset_filter)
  qed simp
  from this [of "statuses os"]
  have "mset (concat (map snd (groupedByStatus os))) = filter_mset (\<lambda>x. o_status x \<in> o_status ` set os) (mset os)"
    by (simp add: grouped_filter set_statuses comp_def)
  also have "\<dots> = mset os" by (rule multiset_eqI) (auto simp: count_filter_mset count_eq_zero_iff)
  finally show ?thesis .
qed

text \<open>An order that nobody has opened shows nothing but its status.\<close>

lemma sealed_item:
  "it_title (OrderItem errText dateText (new_order i now user b)) = None \<and>
   it_details (OrderItem errText dateText (new_order i now user b)) = None"
  by (simp add: OrderItem_def new_order_def)

section \<open>The orders of the account\<close>

text \<open>
  \<open>useUserOrders\<close> on the orders page.  \<open>ov_pending\<close> are the accounts of the requests under way; an
  answer may come for any of them, also after the account has changed.
\<close>

record orders_view =
  ov_address :: "jsstring option"
  ov_orders :: "order_row list"
  ov_loading :: bool
  ov_error :: "error option"
  ov_pending :: "jsstring list"

definition fetchOrders :: "orders_view \<Rightarrow> orders_view" where
  "fetchOrders v =
     (case ov_address v of None \<Rightarrow> v
      | Some a \<Rightarrow> if a = [] then v else v\<lparr>ov_loading := True, ov_error := None, ov_pending := ov_pending v @ [a]\<rparr>)"

text \<open>The effect runs on mounting and whenever the account changes.\<close>

definition mount_orders :: "jsstring option \<Rightarrow> orders_view" where
  "mount_orders a = fetchOrders \<lparr>ov_address = a, ov_orders = [], ov_loading = False, ov_error = None, ov_pending = []\<rparr>"

datatype orders_event = Account "jsstring option" | Refetch | Answered nat "error + order_row list"

fun orders_step :: "orders_view \<Rightarrow> orders_event \<Rightarrow> orders_view" where
  "orders_step v (Account a) = (if a = ov_address v then v else fetchOrders (v\<lparr>ov_address := a\<rparr>))"
| "orders_step v Refetch = fetchOrders v"
| "orders_step v (Answered k r) =
     (if k < length (ov_pending v) then
        (let v' = v\<lparr>ov_loading := False, ov_pending := take k (ov_pending v) @ drop (Suc k) (ov_pending v)\<rparr> in
         case r of Inl e \<Rightarrow> v'\<lparr>ov_error := Some e\<rparr> | Inr rows \<Rightarrow> v'\<lparr>ov_orders := rows\<rparr>)
      else v)"

text \<open>The page: \<open>None\<close> in the place of the history is the spinner.\<close>

datatype orders_page = PleaseConnect | YourOrders "error option" "(jsstring \<times> jsstring \<times> order_row list) list option option"

definition OrdersPage :: "orders_view \<Rightarrow> orders_page" where
  "OrdersPage v =
     (if truthy (ov_address v) then YourOrders (ov_error v) (if ov_loading v then None else Some (OrderHistory (ov_orders v)))
      else PleaseConnect)"

text \<open>
  A calm tab: one request at a time, each answered with orders of the account it was for.  Then the
  page shows no order of another account.
\<close>

inductive calm :: "orders_view \<Rightarrow> bool" where
  mounted: "calm (mount_orders a)"
| changed: "calm v \<Longrightarrow> ov_pending v = [] \<Longrightarrow> calm (orders_step v (Account a))"
| refetched: "calm v \<Longrightarrow> ov_pending v = [] \<Longrightarrow> calm (orders_step v Refetch)"
| answered: "calm v \<Longrightarrow> (\<And>a. ov_pending v = [a] \<Longrightarrow> list_all (\<lambda>r. o_user_address r = a) rows) \<Longrightarrow>
    calm (orders_step v (Answered 0 (Inr rows)))"

definition own_orders :: "orders_view \<Rightarrow> bool" where
  "own_orders v \<longleftrightarrow>
     (if ov_pending v = [] then
        \<not> ov_loading v \<and> (truthy (ov_address v) \<longrightarrow> list_all (\<lambda>r. Some (o_user_address r) = ov_address v) (ov_orders v))
      else ov_loading v \<and> (\<exists>a. ov_pending v = [a] \<and> ov_address v = Some a))"

lemma own_orders_idle: "ov_pending v = [] \<Longrightarrow> \<not> ov_loading v \<Longrightarrow> own_orders (fetchOrders v)"
  by (cases "ov_address v") (auto simp: own_orders_def fetchOrders_def)

lemma idle_not_loading: "own_orders v \<Longrightarrow> ov_pending v = [] \<Longrightarrow> \<not> ov_loading v"
  by (simp add: own_orders_def)

lemma calm_own_orders: "calm v \<Longrightarrow> own_orders v"
proof (induction rule: calm.induct)
  case (mounted a)
  then show ?case unfolding mount_orders_def by (rule own_orders_idle) simp_all
next
  case (changed v a)
  have "\<not> ov_loading v" using changed idle_not_loading by blast
  then show ?case using changed own_orders_idle [of "v\<lparr>ov_address := a\<rparr>"] by simp
next
  case (refetched v)
  then show ?case using idle_not_loading own_orders_idle by simp
next
  case (answered v rows)
  then show ?case by (cases "ov_pending v") (auto simp: own_orders_def list_all_iff split: if_splits)
qed

lemma in_history:
  assumes "OrderHistory os = Some h" and "(x, y, xs) \<in> set h" and "r \<in> set xs"
  shows "r \<in> set os"
proof -
  obtain s where "(s, xs) \<in> set (groupedByStatus os)" using assms(1,2) by (auto simp: OrderHistory_def split: if_splits)
  then show ?thesis using assms(3) by (auto simp: grouped_filter)
qed

lemma page_shows_own_orders:
  assumes "calm v" and "OrdersPage v = YourOrders e (Some (Some h))" and "(x, y, xs) \<in> set h" and "r \<in> set xs"
  shows "ov_address v = Some (o_user_address r)"
proof -
  have p: "truthy (ov_address v)" "\<not> ov_loading v" "OrderHistory (ov_orders v) = Some h"
    using assms(2) by (auto simp: OrdersPage_def split: if_splits)
  then show ?thesis
    using calm_own_orders [OF assms(1)] in_history [OF p(3) assms(3,4)] by (auto simp: own_orders_def list_all_iff split: if_splits)
qed

text \<open>The backend answers a request of an account with its orders only.\<close>

lemma answered_own: "get_user_orders N now authorization a d = Inr rows \<Longrightarrow> list_all (\<lambda>r. o_user_address r = a) rows"
  by (auto simp: get_user_orders_def getUserOrders_def ebind_eq_Inr list_all_iff split: if_splits)

section \<open>The batch monitor\<close>

fun batch_status_text :: "batch_status \<Rightarrow> jsstring" where
  "batch_status_text Created = js ''created''"
| "batch_status_text Submitted = js ''submitted''"
| "batch_status_text BatchSettled = js ''settled''"
| "batch_status_text BatchFailed = js ''failed''"

definition STELLAR_EXPLORER_TX_URL :: jsstring where
  "STELLAR_EXPLORER_TX_URL = js ''https://stellar.expert/explorer/testnet/tx/''"

text \<open>The seal: a link to the transaction, or the remark on the local ledger; the short hash ends in an ellipsis.\<close>

datatype seal_view = NoSeal | SealedOnChain jsstring jsstring | SealedLocally jsstring

definition BatchSeal :: "batch_row \<Rightarrow> seal_view" where
  "BatchSeal batch =
     (case b_content_hash batch of None \<Rightarrow> NoSeal
      | Some content_hash \<Rightarrow>
          if content_hash = [] then NoSeal
          else (let short = take 10 content_hash @ [0x2026] in
            case b_commitment_tx batch of
              Some tx \<Rightarrow> if tx = [] then SealedLocally short else SealedOnChain (STELLAR_EXPLORER_TX_URL @ tx) short
            | None \<Rightarrow> SealedLocally short))"

definition BatchStats :: "batch_stats \<Rightarrow> (jsstring \<times> nat) list" where
  "BatchStats stats = [(js ''Total batches'', bs_total stats), (js ''Pending'', bs_pending stats), (js ''Settled'', bs_settled stats)]"

record batch_item =
  bi_id :: jsstring
  bi_orders :: nat
  bi_seal :: seal_view
  bi_status :: jsstring
  bi_created :: jsstring

definition batch_item_of :: "(int \<Rightarrow> jsstring) \<Rightarrow> batch_row \<Rightarrow> batch_item" where
  "batch_item_of dateText batch =
     \<lparr>bi_id = take 8 (b_id batch) @ js ''...'', bi_orders = length (b_order_ids batch), bi_seal = BatchSeal batch,
      bi_status = map upper_unit (batch_status_text (b_status batch)), bi_created = dateText (b_created_at batch)\<rparr>"

text \<open>The state of \<open>useBatches\<close> with the switch; every \<open>Polled\<close> is the end of a fetch.\<close>

record monitor_state =
  mn_autoRefresh :: bool
  mn_data :: "batch_row list \<times> batch_stats \<times> bool"

definition initial_monitor :: monitor_state where
  "initial_monitor = \<lparr>mn_autoRefresh = True, mn_data = ([], \<lparr>bs_total = 0, bs_pending = 0, bs_settled = 0\<rparr>, True)\<rparr>"

datatype monitor_event = Polled "error + batch_row list" | AutoRefresh bool

fun monitor_step :: "monitor_state \<Rightarrow> monitor_event \<Rightarrow> monitor_state" where
  "monitor_step m (Polled r) = m\<lparr>mn_data := fetchBatches r (mn_data m)\<rparr>"
| "monitor_step m (AutoRefresh x) = m\<lparr>mn_autoRefresh := x\<rparr>"

datatype batch_list = BatchesLoading | NoBatches | RecentBatches "batch_item list"

definition BatchMonitor :: "(int \<Rightarrow> jsstring) \<Rightarrow> monitor_state \<Rightarrow> bool \<times> (jsstring \<times> nat) list \<times> batch_list" where
  "BatchMonitor dateText m =
     (case mn_data m of (batches, stats, loading) \<Rightarrow>
        (mn_autoRefresh m, BatchStats stats,
         if loading then BatchesLoading
         else if batches = [] then NoBatches
         else RecentBatches (map (batch_item_of dateText) batches)))"

text \<open>The counts shown are those of the batches shown, whatever the polls answer.\<close>

definition stats_of :: "batch_row list \<Rightarrow> batch_stats" where
  "stats_of rows = \<lparr>bs_total = length rows, bs_pending = length (filter (\<lambda>b. b_status b = Created \<or> b_status b = Submitted) rows),
     bs_settled = length (filter (\<lambda>b. b_status b = BatchSettled) rows)\<rparr>"

lemma monitor_consistent: "mn_data (foldl monitor_step initial_monitor es) = (rows, stats, loading) \<Longrightarrow> stats = stats_of rows"
proof (induction es arbitrary: rows stats loading rule: rev_induct)
  case (snoc e es)
  obtain rows' stats' loading' where m: "mn_data (foldl monitor_step initial_monitor es) = (rows', stats', loading')"
    by (cases "mn_data (foldl monitor_step initial_monitor es)") auto
  show ?case
  proof (cases e)
    case (Polled r)
    then show ?thesis using snoc.prems snoc.IH [OF m] by (cases r) (auto simp: m fetchBatches_def stats_of_def)
  next
    case (AutoRefresh x)
    then have "(rows', stats', loading') = (rows, stats, loading)" using snoc.prems m by simp
    then show ?thesis using snoc.IH [OF m] by blast
  qed
qed (simp add: initial_monitor_def stats_of_def)

text \<open>A sealed batch is shown with the hash and the transaction of its sealing.\<close>

lemma sealed_batch_shown:
  assumes "createBatch seal i now ids l d = (l', d', Inr row)"
  shows "\<exists>uniqueIds cts h tx. create_find ids d = Inr (uniqueIds, cts) \<and> seal l i cts = (l', Inr (h, tx)) \<and>
    (h \<noteq> [] \<longrightarrow> BatchSeal row = (if truthy tx then SealedOnChain (STELLAR_EXPLORER_TX_URL @ the tx) (take 10 h @ [0x2026])
      else SealedLocally (take 10 h @ [0x2026])))"
proof -
  obtain uniqueIds cts h tx where e: "create_find ids d = Inr (uniqueIds, cts)" "seal l i cts = (l', Inr (h, tx))"
    "row = last (db_batches (create_record i now uniqueIds h tx d))"
    using assms by (auto simp: createBatch_def Let_def split: sum.splits prod.splits)
  have "b_content_hash row = Some h" "b_commitment_tx row = tx" by (simp_all add: e(3) create_record_def)
  then show ?thesis using e(1,2) by (cases tx) (auto simp: BatchSeal_def Let_def)
qed

section \<open>A settlement\<close>

definition TransactionStatus :: "settlement_status \<Rightarrow> bool" where
  "TransactionStatus s = (s = Settled)"

text \<open>The rows: user, paid, received, fee, with the amounts as they are stored.\<close>

record settlement_view =
  sv_batch :: jsstring
  sv_settled :: bool
  sv_date :: jsstring
  sv_rows :: "(jsstring \<times> jsstring \<times> jsstring \<times> jsstring) list"

definition SettlementView :: "(int \<Rightarrow> jsstring) \<Rightarrow> settlement_row \<Rightarrow> settlement_view" where
  "SettlementView dateText settlement =
     \<lparr>sv_batch = take 8 (s_batch_id settlement), sv_settled = TransactionStatus (s_status settlement),
      sv_date = dateText (s_settled_at settlement),
      sv_rows = map (\<lambda>r. (shortenAddress (sr_user r) 4, sr_amount_in r @ [32] @ sr_token_in r,
        sr_amount_out r @ [32] @ sr_token_out r, sr_fee r)) (s_results settlement)\<rparr>"

section \<open>The wallet button\<close>

text \<open>Connected: the title, the mark of the demo and the short address; otherwise whether the buttons wait, and the error.\<close>

datatype wallet_button = ConnectedAs jsstring bool jsstring | ConnectButtons bool "jsstring option"

definition WalletConnect :: "(wallet_error \<Rightarrow> jsstring) \<Rightarrow> bool \<Rightarrow> 'k wallet_context \<Rightarrow> wallet_button" where
  "WalletConnect errText connecting x =
     (if truthy (wc_address x) then
        (let demo = (wc_kind x = Some (kind_text Demo)) in
         ConnectedAs (if demo then js ''Throwaway demo key for this tab. Click to discard it.'' else js ''Click to disconnect'')
           demo (shortenAddress (the (wc_address x)) 4))
      else (let err = map_option errText (wc_error x) in ConnectButtons connecting (if truthy err then err else None)))"

section \<open>The theme\<close>

datatype theme = Light | Dark

definition theme_text :: "theme \<Rightarrow> jsstring" where
  "theme_text t = (case t of Light \<Rightarrow> js ''light'' | Dark \<Rightarrow> js ''dark'')"

definition THEME_KEY :: jsstring where
  "THEME_KEY = js ''theme''"

definition getInitialTheme :: "jsstring tab_storage \<Rightarrow> bool \<Rightarrow> theme" where
  "getInitialTheme st prefersDark =
     (let stored = read_item st THEME_KEY in
      if stored = Some (js ''light'') then Light
      else if stored = Some (js ''dark'') then Dark
      else if prefersDark then Dark else Light)"

record theme_state =
  th_theme :: theme
  th_class :: bool
  th_storage :: "jsstring tab_storage"

text \<open>The effect of a change, on mounting as well.\<close>

definition theme_effect :: "theme_state \<Rightarrow> theme_state" where
  "theme_effect v = v\<lparr>th_class := (th_theme v = Dark), th_storage := write_item (th_storage v) THEME_KEY (Some (theme_text (th_theme v)))\<rparr>"

definition mount_theme :: "jsstring tab_storage \<Rightarrow> bool \<Rightarrow> theme_state" where
  "mount_theme st prefersDark = theme_effect \<lparr>th_theme = getInitialTheme st prefersDark, th_class = False, th_storage = st\<rparr>"

definition toggleTheme :: "theme_state \<Rightarrow> theme_state" where
  "toggleTheme v = theme_effect (v\<lparr>th_theme := (if th_theme v = Dark then Light else Dark)\<rparr>)"

definition theme_ok :: "theme_state \<Rightarrow> bool" where
  "theme_ok v \<longleftrightarrow> th_storage v \<noteq> None \<and> th_class v = (th_theme v = Dark) \<and>
     read_item (th_storage v) THEME_KEY = Some (theme_text (th_theme v))"

lemma theme_ok_effect: "th_storage v \<noteq> None \<Longrightarrow> theme_ok (theme_effect v)"
  by (simp add: theme_ok_def theme_effect_def read_write)

lemma theme_ok_toggle: "theme_ok v \<Longrightarrow> theme_ok (toggleTheme v)"
  unfolding toggleTheme_def by (rule theme_ok_effect) (simp add: theme_ok_def)

text \<open>A reload shows the theme that was shown, however often it was toggled, when the browser stores it.\<close>

lemma theme_survives_reload:
  assumes "st \<noteq> None"
  shows "theme_ok ((toggleTheme ^^ n) (mount_theme st p))"
    and "theme_ok v \<Longrightarrow> getInitialTheme (th_storage v) q = th_theme v"
proof -
  show "theme_ok ((toggleTheme ^^ n) (mount_theme st p))"
  proof (induction n)
    case (Suc n)
    then show ?case by (simp add: theme_ok_toggle)
  qed (use assms in \<open>simp add: mount_theme_def theme_ok_effect\<close>)
  show "getInitialTheme (th_storage v) q = th_theme v" if "theme_ok v"
    using that by (cases "th_theme v") (simp_all add: theme_ok_def getInitialTheme_def theme_text_def js_eq_iff)
qed

section \<open>\<open>services/storage.ts\<close>\<close>

definition PREFIX :: jsstring where
  "PREFIX = js ''cipher-protocol:''"

definition storage_get :: "jsstring tab_storage \<Rightarrow> jsstring \<Rightarrow> js_value option" where
  "storage_get st key =
     (case read_item st (PREFIX @ key) of None \<Rightarrow> None
      | Some raw \<Rightarrow> if raw = [] then None else (case JSON_parse raw of Inl _ \<Rightarrow> None | Inr v \<Rightarrow> Some v))"

text \<open>\<open>full\<close>: the write throws.  The text of \<open>undefined\<close> is \<open>undefined\<close>, which is not JSON.\<close>

definition storage_set :: "bool \<Rightarrow> jsstring tab_storage \<Rightarrow> jsstring \<Rightarrow> json \<Rightarrow> jsstring tab_storage" where
  "storage_set full st key v =
     (if full then st else write_item st (PREFIX @ key) (Some (if v = JUndefined then js ''undefined'' else JSON_value v)))"

definition storage_remove :: "jsstring tab_storage \<Rightarrow> jsstring \<Rightarrow> jsstring tab_storage" where
  "storage_remove st key = write_item st (PREFIX @ key) None"

lemma storage_roundtrip:
  assumes "st \<noteq> None" and "printable v" and "v \<noteq> JUndefined"
  shows "storage_get (storage_set False st key v) k = (if k = key then Some (value_of v) else storage_get st k)"
    and "storage_get (storage_remove st key) k = (if k = key then None else storage_get st k)"
proof -
  obtain m where st: "st = Some m" using assms(1) by blast
  have "JSON_value v \<noteq> []" using opens_value [of v] by (auto simp: opens_def)
  then show "storage_get (storage_set False st key v) k = (if k = key then Some (value_of v) else storage_get st k)"
    using assms(2,3) by (simp add: st storage_get_def storage_set_def read_write JSON_parse_value)
  show "storage_get (storage_remove st key) k = (if k = key then None else storage_get st k)"
    by (simp add: st storage_get_def storage_remove_def read_write)
qed

section \<open>Properties\<close>

text \<open>C39: The banner tells the mode of the backend.  After \<open>GET /api/config\<close> the page shows no banner
  exactly if both contracts are configured.  Otherwise it names threshold and number of the
  validators of the network that decrypts, links to the configured order-vault contract or says
  that batches are sealed in the dev ledger, and says that settlement is simulated exactly if no
  settlement contract is configured.  Without a network the backend counts as unreachable.
\<close>

theorem banner_tells_the_mode:
  "ModeBanner (useNetworkConfig initial_network (ConfigAnswer (fetch_config env m ip st))) =
    (case ae_network env of None \<Rightarrow> BackendUnreachable
     | Some net \<Rightarrow>
         if bc_orderVaultContract (ae_config env) \<noteq> [] \<and> bc_settlementEngineContract (ae_config env) \<noteq> [] then NoBanner
         else DemoBanner (vn_threshold net) (length (vn_validators net))
           (if bc_orderVaultContract (ae_config env) = [] then None else Some (CONTRACT_URL @ bc_orderVaultContract (ae_config env)))
           (bc_settlementEngineContract (ae_config env) = []))"
proof (cases "ae_network env")
  case None
  then show ?thesis
    by (simp add: fetch_config_answer getPublicConfig_def getPublicKeyInfo_def getValidatorNetwork_def answer_def initial_network_def ModeBanner_def)
next
  case (Some net)
  then show ?thesis
    by (simp add: fetch_config_answer public_config_Some answer_def initial_network_def ModeBanner_def js_eq_iff)
qed

text \<open>C40: The page can show the orders of another account.  When the account changes while the request of
  the former is under way and the answers arrive in the other order, the former account's orders
  are shown as those of the new one.  They are shown as well, beside the error, after any change
  of the account when the new account's request fails, as when its user declines to sign in.
\<close>

theorem history_of_another_account:
  assumes "a \<noteq> []" and "b \<noteq> []" and "a \<noteq> b"
  shows "OrdersPage (foldl orders_step (mount_orders (Some a)) [Account (Some b), Answered 1 (Inr of_b), Answered 0 (Inr of_a)])
      = YourOrders None (Some (OrderHistory of_a)) \<and>
    OrdersPage (foldl orders_step (mount_orders (Some a)) [Answered 0 (Inr of_a), Account None, Account (Some b), Answered 0 (Inl e)])
      = YourOrders (Some e) (Some (OrderHistory of_a))"
  using assms by (simp add: mount_orders_def fetchOrders_def OrdersPage_def)

theorem history_of_another_account_witness:
  "OrdersPage (foldl orders_step (mount_orders (Some (js ''GA''))) [Account (Some (js ''GB'')), Answered 1 (Inr []),
       Answered 0 (Inr [sample_row (js ''ct'')])])
     = YourOrders None (Some (Some [(js ''Batched'', js ''1 order'', [sample_row (js ''ct'')])]))"
proof -
  have "OrderHistory [sample_row (js ''ct'')] = Some [(js ''Batched'', js ''1 order'', [sample_row (js ''ct'')])]"
    by (simp add: OrderHistory_def grouped_filter statuses_def OrderStatus_def formatStatus_def upper_unit_def group_heading_def
        sample_row_def js_def nat_to_string_def digit_unit_def radix_digits.simps)
  moreover have "js ''GA'' \<noteq> []" "js ''GB'' \<noteq> []" "js ''GA'' \<noteq> js ''GB''" by (simp_all add: js_def)
  note history_of_another_account [OF this, THEN conjunct1, of "[]" "[sample_row (js ''ct'')]"]
  ultimately show ?thesis by metis
qed

end
