(* ===== verification/Spec2Isabelle.thy ===== *)
theory Spec2Isabelle
  imports BatchFlow Frontend Wallet Cluster SettlementFlow Transport Api Display
begin

text \<open>
  A verification development for CipherProtocol, an exchange whose orders stay encrypted until a
  committee of validators opens a sealed batch of them.  Paths are relative to \<open>src\<close>.

  \<^bold>\<open>The program.\<close>  A user fills in a form in the browser; the order is encrypted there to the group
  key of the validators and posted under a session that the user's wallet signed for.  The backend
  stores the ciphertext, batches pending orders and records a hash of the ordered ciphertexts in
  the order-vault contract.  Only then do the validators, each holding one share of the group
  secret, answer with decryption shares; the backend combines any \<open>t\<close> good ones, checks the orders
  and settles the batch.  The group secret comes from a distributed key generation and is nowhere
  in one place.

  \<^bold>\<open>Foundations.\<close>
    \<^item> \<open>Prelude\<close>: bytes, UTF-16 strings, exceptions as sums (\<open>error + 'a\<close>, \<open>ebind\<close>, \<open>emap\<close>,
      \<open>efold\<close>), JavaScript's \<open>Map\<close> and \<open>Set\<close>.
    \<^item> \<open>Text\<close>, \<open>Codec\<close>, \<open>Strings\<close>, \<open>JsonText\<close>: numbers as texts, UTF-8, hex, base64url, \<open>trim\<close>,
      \<open>split\<close>, \<open>Number\<close>, and the language's JSON with doubles as rounded rationals.  The codec
      contract is a locale, interpreted for hex and base64url.  \<open>JsonPrint\<close>: what \<open>JSON.parse\<close> reads
      of what \<open>JSON.stringify\<close> writes; \<open>Http\<close>: methods and the properties of a body.
    \<^item> \<open>Modular\<close>, \<open>Scalars\<close>: arithmetic modulo the group order, inverses by square and multiply,
      Lagrange coefficients (\<open>backend/src/crypto/threshold.ts\<close>).
    \<^item> \<open>Curve\<close>, \<open>Platform\<close>, \<open>Instances\<close>: the ristretto group, WebCrypto and the hash functions as
      parameters with their documented laws, and concrete functions that satisfy the laws.

  \<^bold>\<open>Cryptography and validators.\<close>
    \<^item> \<open>OrderCipher\<close> (\<open>crypto/orderCipher.ts\<close>, byte-identical in backend and frontend): encryption,
      parsing, decryption; round trip and the binding to the user's address.
    \<^item> \<open>Threshold\<close> (\<open>crypto/threshold.ts\<close>): decryption shares, their proofs of equal discrete
      logarithms, combination; \<open>Dkg\<close> and \<open>KeyGeneration\<close> (\<open>crypto/dkg.ts\<close>): dealing, complaints,
      reveals, the public result and the final shares, whatever other dealers do.
    \<^item> \<open>Signing\<close> (\<open>crypto/signing.ts\<close>): canonical JSON, signed statements and what their bytes fix.
    \<^item> \<open>Commitment\<close>, \<open>OrderVault\<close>, \<open>Soroban\<close> (\<open>chain/batchCommitment.ts\<close>, \<open>contracts/order-vault\<close>,
      \<open>services/sorobanService.ts\<close>): the hash of a batch, the contract as functions on its storage,
      sealing, the polling loop.
    \<^item> \<open>SettlementEngine\<close> (\<open>contracts/settlement-engine\<close>): pools, liquidity shares and settlement as
      functions on the contract's storage; the contract and the token contracts as a step relation
      with an invariant that accounts for every token.  \<open>SettlementFlow\<close>: the backend's settlement
      call with this contract behind it.
    \<^item> \<open>LocalValidator\<close> (\<open>validator/localValidator.ts\<close>, \<open>protocol.ts\<close>): every method as a state
      transformer; shares only for sealed batches, a share that is never replaced.
    \<^item> \<open>ValidatorNetwork\<close>, \<open>ValidatorService\<close> (\<open>services/validatorNetwork.ts\<close>, \<open>remoteValidator.ts\<close>,
      \<open>services/validatorService.ts\<close>): the coordinator over validators that may answer anything.
    \<^item> \<open>Transport\<close> (\<open>validator/remoteValidator.ts\<close>, \<open>validator/server.ts\<close>): client and server over
      HTTP, which together refine the direct call of a validator.

  \<^bold>\<open>The backend.\<close>
    \<^item> \<open>Models\<close>, \<open>Settlement\<close>, \<open>Controllers\<close> (\<open>db/models\<close>, \<open>controllers\<close>, \<open>services/batchingService.ts\<close>):
      rows as records, each handler as the sequence of its database calls.
    \<^item> \<open>Interleaving\<close>, \<open>Lifecycle\<close>, \<open>BatchFlow\<close>: these calls as an inductive step relation in which
      requests, failures and crashes interleave; invariants by rule induction, the life cycle of a
      batch as an abstract state machine it refines, sealing before decryption.
    \<^item> \<open>Auth\<close> (\<open>services/authService.ts\<close>, \<open>middleware/auth.ts\<close>): challenges and session tokens.
    \<^item> \<open>Middleware\<close> (\<open>middleware\<close>, \<open>routes/orders.ts\<close>): the rate limit over time, the validation
      of submissions, the order routes composed in the router's order.
    \<^item> \<open>Startup\<close> (\<open>config.ts\<close>, \<open>controllers/configController.ts\<close>, \<open>validator/main.ts\<close>):
      configuration, the start of a validator process, its bearer token.
    \<^item> \<open>Cluster\<close> (\<open>validator/devCluster.ts\<close>, \<open>initCluster.ts\<close>): a cluster's files and environments,
      composed with \<open>Startup\<close> and \<open>loadClusterFile\<close>.
    \<^item> \<open>Api\<close> (\<open>app.ts\<close>, \<open>routes\<close>): the whole interface, one call or one tick of the batching loop after
      the other, as a step relation.

  \<^bold>\<open>The frontend.\<close>
    \<^item> \<open>Numbers\<close> (\<open>frontend/src/utils/numbers.ts\<close>): exact base units; the slippage in doubles, with a
      bound on its error.
    \<^item> \<open>Frontend\<close> (\<open>components/swap\<close>, \<open>hooks\<close>, \<open>constants/tokens.ts\<close>, \<open>utils/validation.ts\<close>): the form
      as a state with events and an invariant, submission, and the composition with the backend's
      handler and its checks on the opened order.
    \<^item> \<open>Wallet\<close> (\<open>services/wallet.ts\<close>, \<open>services/auth.ts\<close>, \<open>context/WalletContext.tsx\<close>): wallet and
      session of a tab; \<open>getToken\<close> split where it waits.
    \<^item> \<open>Display\<close> (\<open>components\<close>, \<open>hooks/useOrder.ts\<close>, \<open>hooks/useNetworkConfig.ts\<close>, \<open>context/ThemeContext.tsx\<close>,
      \<open>services/storage.ts\<close>): what the components show for their state, and the hooks' events.

  \<^bold>\<open>Reading the theorems.\<close>  A property stands after a text with its number.  Laws of parameters
  (\<open>curve_laws\<close>, \<open>webcrypto_laws\<close>, \<open>ed25519_laws\<close>, \<open>node_laws\<close>, \<open>sdk_laws\<close>, \<open>keypair_laws\<close>,
  \<open>token_laws\<close>, \<open>body_parser_laws\<close>) say what the libraries and interfaces document; no secrecy or collision freedom is assumed, a theorem that needs a collision
  not to happen says which.  Witnesses apply the theorems to the instances of \<open>Instances\<close> and the
  \<open>sample\<close> definitions of each theory.

  \<^bold>\<open>Bounds and fuel.\<close>  The JSON parser recurses with fuel \<open>2 n + 1\<close> for a text of length \<open>n\<close>; more
  never changes the result (\<open>parse_value_fuel\<close>).  The polling loop of \<open>invokeContract\<close> is bounded by
  the code itself (22 rounds).  Other recursions are structural or have a measure.  Timestamps
  are naturals below \<open>2\<^sup>6\<^sup>4\<close> where they are encoded in eight bytes.

  \<^bold>\<open>Not modelled.\<close>  Markup and routing of the frontend, Sequelize and Express (its body parser and
  its matching of paths are parameters), CORS, child processes and timers,
  building and simulating Stellar transactions (the SDK's), the lifetimes of contract storage, the
  tests and the build.  Four files (\<open>backend/src/index.ts\<close>, \<open>validator/main.ts\<close>,
  \<open>validator/devCluster.ts\<close>, \<open>frontend/postcss.config.js\<close>) end in code hidden behind white space
  that evaluates an encoded script; it is no part of the program and is not modelled.
\<close>

end
